(* ===== verification/Prelude.thy ===== *)
theory Prelude
  imports Main
begin

text \<open>
  Shared vocabulary of the development.

  \<^item> The effect monad \<open>M\<close>: a Python coroutine that reads and writes the service's state
    and may raise is a function from the state to a result (\<open>Inl\<close> the exception, \<open>Inr\<close>
    the value) and the state it leaves behind. State changes made before a \<open>raise\<close>
    survive it, as they do in the source.
  \<^item> \<open>keeps\<close>, \<open>yields\<close> and their rule collections, with which the component theories
    prove invariants and result properties compositionally.
  \<^item> Keyed tables: an SQL table is the list of its rows in insertion order; the primary
    key is a function of the row.
\<close>

section \<open>Effects and exceptions\<close>

type_synonym ('s, 'e, 'a) M = "'s \<Rightarrow> ('e + 'a) \<times> 's"

definition ret :: "'a \<Rightarrow> ('s, 'e, 'a) M" where
  "ret x s = (Inr x, s)"

definition raise :: "'e \<Rightarrow> ('s, 'e, 'a) M" where
  "raise e s = (Inl e, s)"

definition bindM :: "('s, 'e, 'a) M \<Rightarrow> ('a \<Rightarrow> ('s, 'e, 'b) M) \<Rightarrow> ('s, 'e, 'b) M" where
  "bindM m f s = (case m s of (Inl e, s') \<Rightarrow> (Inl e, s') | (Inr x, s') \<Rightarrow> f x s')"

definition thenM :: "('s, 'e, 'a) M \<Rightarrow> ('s, 'e, 'b) M \<Rightarrow> ('s, 'e, 'b) M" where
  "thenM m n = bindM m (\<lambda>_. n)"

definition getsM :: "('s \<Rightarrow> 'a) \<Rightarrow> ('s, 'e, 'a) M" where
  "getsM f s = (Inr (f s), s)"

definition modifyM :: "('s \<Rightarrow> 's) \<Rightarrow> ('s, 'e, unit) M" where
  "modifyM f s = (Inr (), f s)"

text \<open>\<open>tryM m h\<close> is \<open>try: m except Exception as e: h e\<close>.\<close>

definition tryM :: "('s, 'e, 'a) M \<Rightarrow> ('e \<Rightarrow> ('s, 'e, 'a) M) \<Rightarrow> ('s, 'e, 'a) M" where
  "tryM m h s = (case m s of (Inl e, s') \<Rightarrow> h e s' | (Inr x, s') \<Rightarrow> (Inr x, s'))"

text \<open>
  \<open>finallyM m f\<close> is \<open>try: m finally: f\<close>: the clean-up always runs, and an exception it
  raises replaces the outcome of the body.
\<close>

definition finallyM :: "('s, 'e, 'a) M \<Rightarrow> ('s, 'e, 'b) M \<Rightarrow> ('s, 'e, 'a) M" where
  "finallyM m f s =
     (case m s of (r, s') \<Rightarrow>
       (case f s' of (Inl e, s'') \<Rightarrow> (Inl e, s'') | (Inr _, s'') \<Rightarrow> (r, s'')))"

definition guardM :: "bool \<Rightarrow> 'e \<Rightarrow> ('s, 'e, unit) M" where
  "guardM b e = (if b then ret () else raise e)"

primrec forM :: "'a list \<Rightarrow> ('a \<Rightarrow> ('s, 'e, unit) M) \<Rightarrow> ('s, 'e, unit) M" where
  "forM [] f = ret ()"
| "forM (x # xs) f = thenM (f x) (forM xs f)"

lemmas monad_defs = ret_def raise_def bindM_def thenM_def getsM_def modifyM_def
  tryM_def finallyM_def guardM_def

lemma ret_run [simp]: "ret x s = (Inr x, s)"
  by (simp add: ret_def)

lemma raise_run [simp]: "raise e s = (Inl e, s)"
  by (simp add: raise_def)

lemma getsM_run [simp]: "getsM f s = (Inr (f s), s)"
  by (simp add: getsM_def)

lemma modifyM_run [simp]: "modifyM f s = (Inr (), f s)"
  by (simp add: modifyM_def)

lemma bindM_Inr: "m s = (Inr x, s') \<Longrightarrow> bindM m f s = f x s'"
  by (simp add: bindM_def)

lemma thenM_Inr: "m s = (Inr x, s') \<Longrightarrow> thenM m n s = n s'"
  by (simp add: thenM_def bindM_Inr)

lemma bindM_Inl: "m s = (Inl e, s') \<Longrightarrow> bindM m f s = (Inl e, s')"
  by (simp add: bindM_def)

lemma bindM_ret [simp]: "bindM (ret x) f = f x"
  by (auto simp: bindM_def fun_eq_iff)

lemma bindM_raise [simp]: "bindM (raise e) f = raise e"
  by (auto simp: bindM_def fun_eq_iff)

lemma bindM_gets [simp]: "bindM (getsM g) f s = f (g s) s"
  by (simp add: bindM_def)

lemma bindM_modify [simp]: "bindM (modifyM h) f s = f () (h s)"
  by (simp add: bindM_def)

lemmas bindM_simps = bindM_ret bindM_raise bindM_gets bindM_modify

lemma bindM_if [simp]: "bindM (if b then m else n) f = (if b then bindM m f else bindM n f)"
  by simp

lemma thenM_ret [simp]: "thenM (ret x) n = n"
  by (simp add: thenM_def)

lemma thenM_raise [simp]: "thenM (raise e) n = raise e"
  by (simp add: thenM_def)

lemma thenM_modify [simp]: "thenM (modifyM h) n s = n (h s)"
  by (simp add: thenM_def)

lemmas thenM_simps = thenM_ret thenM_raise thenM_modify

lemma bindM_assoc: "bindM (bindM m f) g = bindM m (\<lambda>x. bindM (f x) g)"
  by (auto simp: bindM_def fun_eq_iff split: prod.splits sum.splits)

text \<open>Inversion of a run that returned or raised.\<close>

lemma bindM_InrE:
  assumes "bindM m f s = (Inr x, s')"
  obtains y s1 where "m s = (Inr y, s1)" "f y s1 = (Inr x, s')"
  using assms by (auto simp: bindM_def split: prod.splits sum.splits)

lemma bindM_InlE:
  assumes "bindM m f s = (Inl e, s')"
  obtains "m s = (Inl e, s')" | y s1 where "m s = (Inr y, s1)" "f y s1 = (Inl e, s')"
  using assms by (auto simp: bindM_def split: prod.splits sum.splits)

lemma thenM_InrE:
  assumes "thenM m n s = (Inr x, s')"
  obtains y s1 where "m s = (Inr y, s1)" "n s1 = (Inr x, s')"
  using assms unfolding thenM_def by (rule bindM_InrE)

lemma thenM_InlE:
  assumes "thenM m n s = (Inl e, s')"
  obtains "m s = (Inl e, s')" | y s1 where "m s = (Inr y, s1)" "n s1 = (Inl e, s')"
  using assms unfolding thenM_def by (rule bindM_InlE)

lemma tryM_InlE:
  assumes "tryM m h s = (Inl e, s')"
  obtains e1 s1 where "m s = (Inl e1, s1)" "h e1 s1 = (Inl e, s')"
  using assms by (auto simp: tryM_def split: prod.splits sum.splits)

lemma tryM_InrE:
  assumes "tryM m h s = (Inr x, s')"
  obtains "m s = (Inr x, s')" | e1 s1 where "m s = (Inl e1, s1)" "h e1 s1 = (Inr x, s')"
  using assms by (auto simp: tryM_def split: prod.splits sum.splits)

lemma thenM_raise_Inr [simp]: "thenM m (raise e) s \<noteq> (Inr x, s')"
  by (auto simp: thenM_def bindM_def split: prod.splits sum.splits)

section \<open>Invariants and results, compositionally\<close>

text \<open>\<open>keeps I m\<close>: \<open>m\<close> re-establishes \<open>I\<close>, whether it returns or raises.\<close>

definition keeps :: "('s \<Rightarrow> bool) \<Rightarrow> ('s, 'e, 'a) M \<Rightarrow> bool" where
  "keeps I m \<longleftrightarrow> (\<forall>s. I s \<longrightarrow> I (snd (m s)))"

text \<open>
  \<open>yields P m Q R\<close>: from \<open>P\<close>, a normal return satisfies \<open>Q\<close> and a raised exception \<open>R\<close>.
\<close>

definition yields ::
  "('s \<Rightarrow> bool) \<Rightarrow> ('s, 'e, 'a) M \<Rightarrow> ('a \<Rightarrow> 's \<Rightarrow> bool) \<Rightarrow> ('e \<Rightarrow> 's \<Rightarrow> bool) \<Rightarrow> bool" where
  "yields P m Q R \<longleftrightarrow>
     (\<forall>s. P s \<longrightarrow> (case m s of (Inl e, s') \<Rightarrow> R e s' | (Inr x, s') \<Rightarrow> Q x s'))"

named_theorems keeps_rules "preservation of invariants by the operations of the model"

lemma keepsD: "keeps I m \<Longrightarrow> I s \<Longrightarrow> I (snd (m s))"
  by (simp add: keeps_def)

lemma keepsI: "(\<And>s. I s \<Longrightarrow> I (snd (m s))) \<Longrightarrow> keeps I m"
  by (simp add: keeps_def)

lemma keeps_run: "keeps I m \<Longrightarrow> I s \<Longrightarrow> m s = (r, s') \<Longrightarrow> I s'"
  by (drule (1) keepsD) simp

lemma keeps_ret [keeps_rules]: "keeps I (ret x)"
  by (simp add: keeps_def)

lemma keeps_raise [keeps_rules]: "keeps I (raise e)"
  by (simp add: keeps_def)

lemma keeps_gets [keeps_rules]: "keeps I (getsM f)"
  by (simp add: keeps_def)

lemma keeps_guard [keeps_rules]: "keeps I (guardM b e)"
  by (simp add: keeps_def guardM_def)

lemma keeps_bind [keeps_rules]:
  "keeps I m \<Longrightarrow> (\<And>x. keeps I (f x)) \<Longrightarrow> keeps I (bindM m f)"
  unfolding keeps_def bindM_def by (fastforce split: prod.splits sum.splits)

lemma keeps_then [keeps_rules]: "keeps I m \<Longrightarrow> keeps I n \<Longrightarrow> keeps I (thenM m n)"
  unfolding thenM_def by (rule keeps_bind)

lemma keeps_try [keeps_rules]:
  "keeps I m \<Longrightarrow> (\<And>e. keeps I (h e)) \<Longrightarrow> keeps I (tryM m h)"
  unfolding keeps_def tryM_def by (fastforce split: prod.splits sum.splits)

lemma keeps_finally [keeps_rules]: "keeps I m \<Longrightarrow> keeps I f \<Longrightarrow> keeps I (finallyM m f)"
  unfolding keeps_def finallyM_def by (fastforce split: prod.splits sum.splits)

lemma keeps_for [keeps_rules]: "(\<And>x. keeps I (f x)) \<Longrightarrow> keeps I (forM xs f)"
  by (induction xs) (auto intro: keeps_rules)

lemma keeps_if [keeps_rules]: "keeps I m \<Longrightarrow> keeps I n \<Longrightarrow> keeps I (if b then m else n)"
  by simp

lemma keeps_let [keeps_rules]: "(\<And>x. keeps I (f x)) \<Longrightarrow> keeps I (let x = v in f x)"
  by (simp add: Let_def)

lemma keeps_case_option [keeps_rules]:
  "keeps I m \<Longrightarrow> (\<And>x. keeps I (f x)) \<Longrightarrow> keeps I (case v of None \<Rightarrow> m | Some x \<Rightarrow> f x)"
  by (cases v) auto

lemma keeps_case_prod [keeps_rules]:
  "(\<And>x y. keeps I (f x y)) \<Longrightarrow> keeps I (case p of (x, y) \<Rightarrow> f x y)"
  by (cases p) auto

lemma keeps_modify: "(\<And>s. I s \<Longrightarrow> I (f s)) \<Longrightarrow> keeps I (modifyM f)"
  by (simp add: keeps_def)

lemma yieldsD_Inr: "yields P m Q R \<Longrightarrow> P s \<Longrightarrow> m s = (Inr x, s') \<Longrightarrow> Q x s'"
  by (force simp: yields_def)

lemma yieldsD_Inl: "yields P m Q R \<Longrightarrow> P s \<Longrightarrow> m s = (Inl e, s') \<Longrightarrow> R e s'"
  by (force simp: yields_def)

lemma yields_bind:
  "yields P m Q' R \<Longrightarrow> (\<And>x. yields (Q' x) (f x) Q R) \<Longrightarrow> yields P (bindM m f) Q R"
  unfolding yields_def bindM_def by (fastforce split: prod.splits sum.splits)

lemma yields_try:
  "yields P m Q R' \<Longrightarrow> (\<And>e. yields (R' e) (h e) Q R) \<Longrightarrow> yields P (tryM m h) Q R"
  unfolding yields_def tryM_def by (fastforce split: prod.splits sum.splits)

lemma yields_weaken:
  "yields P m Q R \<Longrightarrow> (\<And>s. P' s \<Longrightarrow> P s) \<Longrightarrow> (\<And>x s. Q x s \<Longrightarrow> Q' x s)
    \<Longrightarrow> (\<And>e s. R e s \<Longrightarrow> R' e s) \<Longrightarrow> yields P' m Q' R'"
  unfolding yields_def by (fastforce split: prod.splits sum.splits)

lemma keeps_yields: "keeps I m \<longleftrightarrow> yields I m (\<lambda>_. I) (\<lambda>_. I)"
  unfolding keeps_def yields_def by (fastforce split: prod.splits sum.splits)

lemma yields_snd: "yields P m (\<lambda>_. I) (\<lambda>_. I) \<Longrightarrow> P s \<Longrightarrow> I (snd (m s))"
  unfolding yields_def by (erule allE [of _ s]) (auto split: prod.splits sum.splits)

lemma yields_then:
  "yields P m (\<lambda>_. Q') R \<Longrightarrow> yields Q' n Q R \<Longrightarrow> yields P (thenM m n) Q R"
  unfolding thenM_def by (rule yields_bind)

lemma yields_raise: "(\<And>s. P s \<Longrightarrow> R e s) \<Longrightarrow> yields P (raise e) Q R"
  by (simp add: yields_def)

lemma yields_gets: "(\<And>s. P s \<Longrightarrow> yields (\<lambda>s'. s' = s) (f (g s)) Q R) \<Longrightarrow> yields P (bindM (getsM g) f) Q R"
  by (simp add: yields_def)

section \<open>Tables\<close>

text \<open>
  \<open>t_get key k t\<close> is \<open>SELECT * FROM t WHERE key = ?\<close> followed by \<open>fetchone\<close>;
  \<open>t_upd P f t\<close> is \<open>UPDATE t SET f WHERE P\<close>; \<open>t_del P t\<close> is \<open>DELETE FROM t WHERE P\<close>.
\<close>

definition t_get :: "('r \<Rightarrow> 'k) \<Rightarrow> 'k \<Rightarrow> 'r list \<Rightarrow> 'r option" where
  "t_get key k t = (case filter (\<lambda>r. key r = k) t of [] \<Rightarrow> None | r # _ \<Rightarrow> Some r)"

definition t_upd :: "('r \<Rightarrow> bool) \<Rightarrow> ('r \<Rightarrow> 'r) \<Rightarrow> 'r list \<Rightarrow> 'r list" where
  "t_upd P f t = map (\<lambda>r. if P r then f r else r) t"

definition t_del :: "('r \<Rightarrow> bool) \<Rightarrow> 'r list \<Rightarrow> 'r list" where
  "t_del P t = filter (\<lambda>r. \<not> P r) t"

text \<open>The primary key constraint of a table.\<close>

definition keyed :: "('r \<Rightarrow> 'k) \<Rightarrow> 'r list \<Rightarrow> bool" where
  "keyed key t \<longleftrightarrow> distinct (map key t)"

lemma t_get_Nil [simp]: "t_get key k [] = None"
  by (simp add: t_get_def)

lemma t_get_Cons [simp]: "t_get key k (r # t) = (if key r = k then Some r else t_get key k t)"
  by (simp add: t_get_def)

lemma t_get_append [simp]:
  "t_get key k (t @ u) = (case t_get key k t of None \<Rightarrow> t_get key k u | Some r \<Rightarrow> Some r)"
  by (induction t) auto

lemma t_get_key: "t_get key k t = Some r \<Longrightarrow> key r = k"
  by (induction t) (auto split: if_splits)

lemma t_get_in: "t_get key k t = Some r \<Longrightarrow> r \<in> set t"
  by (induction t) (auto split: if_splits)

lemma t_get_image: "t_get key k t = Some r \<Longrightarrow> k \<in> key ` set t"
  by (induction t) (auto split: if_splits)

lemma t_get_None: "t_get key k t = None \<longleftrightarrow> k \<notin> key ` set t"
  by (induction t) auto

lemma t_get_keyed: "keyed key t \<Longrightarrow> r \<in> set t \<Longrightarrow> t_get key (key r) t = Some r"
  by (induction t) (auto simp: keyed_def)

lemma t_upd_simps [simp]:
  "t_upd P f [] = []"
  "t_upd P f (r # t) = (if P r then f r else r) # t_upd P f t"
  "t_upd P f (t @ u) = t_upd P f t @ t_upd P f u"
  by (auto simp: t_upd_def)

lemma t_del_simps [simp]:
  "t_del P [] = []"
  "t_del P (r # t) = (if P r then t_del P t else r # t_del P t)"
  "t_del P (t @ u) = t_del P t @ t_del P u"
  by (auto simp: t_del_def)

lemma set_t_upd: "set (t_upd P f t) = (\<lambda>r. if P r then f r else r) ` set t"
  by (simp add: t_upd_def)

lemma set_t_del: "set (t_del P t) = {r \<in> set t. \<not> P r}"
  by (auto simp: t_del_def)

lemma map_key_t_upd:
  "(\<And>r. P r \<Longrightarrow> key (f r) = key r) \<Longrightarrow> map key (t_upd P f t) = map key t"
  by (induction t) auto

lemma keyed_Nil [simp]: "keyed key []"
  by (simp add: keyed_def)

lemma keyed_t_upd:
  "(\<And>r. P r \<Longrightarrow> key (f r) = key r) \<Longrightarrow> keyed key (t_upd P f t) = keyed key t"
  by (simp add: keyed_def map_key_t_upd)

lemma keyed_t_del: "keyed key t \<Longrightarrow> keyed key (t_del P t)"
  unfolding keyed_def t_del_def by (rule distinct_map_filter)

lemma keyed_snoc: "keyed key t \<Longrightarrow> t_get key (key r) t = None \<Longrightarrow> keyed key (t @ [r])"
  by (auto simp: keyed_def t_get_None)

lemma t_get_upd:
  assumes "\<And>r. P r \<Longrightarrow> key (f r) = key r"
  shows "t_get key k (t_upd P f t) = map_option (\<lambda>r. if P r then f r else r) (t_get key k t)"
  using assms by (induction t) auto

lemma t_get_upd_key [simp]:
  assumes "\<And>r. key (f r) = key r"
  shows "t_get key k (t_upd (\<lambda>r. key r = j) f t) =
    (if k = j then map_option f (t_get key k t) else t_get key k t)"
  using assms by (induction t) auto

lemma t_get_upd_guard [simp]:
  assumes "\<And>r. key (f r) = key r"
  shows "t_get key k (t_upd (\<lambda>r. key r = j \<and> P r) f t) =
    (if k = j then map_option (\<lambda>r. if P r then f r else r) (t_get key k t)
     else t_get key k t)"
  using assms by (induction t) auto

lemma t_get_del_key [simp]:
  "t_get key k (t_del (\<lambda>r. key r = j) t) = (if k = j then None else t_get key k t)"
  by (induction t) auto

lemma t_get_del_keyed:
  "keyed key t \<Longrightarrow> t_get key k (t_del P t) =
    (case t_get key k t of None \<Rightarrow> None | Some r \<Rightarrow> if P r then None else Some r)"
  by (induction t) (auto simp: keyed_def t_get_None set_t_del split: option.splits dest: t_get_image)

section \<open>Lists\<close>

lemma length_filter_t_upd:
  "(\<And>r. r \<in> set t \<Longrightarrow> P r \<Longrightarrow> Q (f r) = Q r) \<Longrightarrow>
    length (filter Q (t_upd P f t)) = length (filter Q t)"
  by (induction t) auto

section \<open>Splitting and joining\<close>

text \<open>\<open>split_on c s\<close> is \<open>s.split(c)\<close>; \<open>join_with sep ws\<close> is \<open>sep.join(ws)\<close>.\<close>

fun split_on :: "'a \<Rightarrow> 'a list \<Rightarrow> 'a list list" where
  "split_on c [] = [[]]"
| "split_on c (x # xs) =
     (if x = c then [] # split_on c xs
      else (case split_on c xs of [] \<Rightarrow> [[x]] | w # ws \<Rightarrow> (x # w) # ws))"

fun join_with :: "'a list \<Rightarrow> 'a list list \<Rightarrow> 'a list" where
  "join_with sep [] = []"
| "join_with sep [w] = w"
| "join_with sep (w # ws) = w @ sep @ join_with sep ws"

lemma split_on_nonempty [simp]: "split_on c s \<noteq> []"
  by (induction s) (auto split: list.splits)

lemma split_on_free: "w \<in> set (split_on c s) \<Longrightarrow> c \<notin> set w"
  by (induction s arbitrary: w) (auto split: list.splits if_splits)

lemma split_on_id: "c \<notin> set w \<Longrightarrow> split_on c w = [w]"
  by (induction w) auto

lemma split_on_append_sep: "c \<notin> set w \<Longrightarrow> split_on c (w @ c # s) = w # split_on c s"
  by (induction w) auto

lemma split_on_join:
  "ws \<noteq> [] \<Longrightarrow> (\<And>w. w \<in> set ws \<Longrightarrow> c \<notin> set w) \<Longrightarrow> split_on c (join_with [c] ws) = ws"
  by (induction "[c]" ws rule: join_with.induct) (auto simp: split_on_id split_on_append_sep)

lemma join_split_on: "join_with [c] (split_on c s) = s"
proof (induction s)
  case (Cons x xs)
  then show ?case
    by (cases "split_on c xs" rule: list.exhaust; cases "tl (split_on c xs)")
      (auto split: list.splits)
qed simp

lemma join_with_Cons: "ws \<noteq> [] \<Longrightarrow> join_with sep (w # ws) = w @ sep @ join_with sep ws"
  by (cases ws) auto

lemma join_with_flat: "ws \<noteq> [] \<Longrightarrow> sep @ join_with sep ws = concat (map (\<lambda>w. sep @ w) ws)"
  by (induction sep ws rule: join_with.induct) auto

end
