(* ===== verification/Errors.thy ===== *)
theory Errors
  imports Prelude
begin

text \<open>
  The exceptions of the service (\<open>api/errors.py\<close>, \<open>ForbiddenScope\<close> of \<open>api/auth.py\<close>) and
  the Python and docker-py exceptions its code raises or catches, with the HTTP response the
  application turns each into. Human-readable message texts are left out; status, \<open>code\<close> and
  \<open>sub_code\<close>, which clients branch on, are kept. \<open>Unfinished\<close> is no exception of the program: it is
  the outcome of a polling loop whose fuel, an argument of the model, has run out.
\<close>

datatype exn =
    SessionNotFound
  | ProcessNotFound
  | InvalidState
  | LimitExceeded
  | InvalidLimits
  | InvalidArgument
  | Unauthorized
  | ExecTimeout
  | InvalidPath string
  | AuditUnhealthy
  | ForbiddenScope string
  | HttpError nat string
  | KeyError
  | ValueError
  | AssertionError
  | RuntimeError
  | TypeError
  | IntegrityError
  | OSError
  | FileNotFoundError
  | IsADirectoryError
  | DockerNotFound
  | DockerImageNotFound
  | DockerAPIError
  | Unfinished

text \<open>
  Status and code of the \<open>SandboxError\<close> subclasses and of plain \<open>HTTPException\<close>s; \<open>None\<close>
  for every other exception.
\<close>

fun sandbox_detail :: "exn \<Rightarrow> (nat \<times> string) option" where
  "sandbox_detail SessionNotFound = Some (404, ''session_not_found'')"
| "sandbox_detail ProcessNotFound = Some (404, ''process_not_found'')"
| "sandbox_detail InvalidState = Some (409, ''invalid_state'')"
| "sandbox_detail LimitExceeded = Some (429, ''limit_exceeded'')"
| "sandbox_detail InvalidLimits = Some (400, ''limit_exceeded'')"
| "sandbox_detail InvalidArgument = Some (400, ''invalid_argument'')"
| "sandbox_detail Unauthorized = Some (401, ''unauthorized'')"
| "sandbox_detail ExecTimeout = Some (408, ''exec_timeout'')"
| "sandbox_detail (InvalidPath sub) = Some (400, ''invalid_path'')"
| "sandbox_detail AuditUnhealthy = Some (503, ''audit_unhealthy'')"
| "sandbox_detail (ForbiddenScope required) = Some (403, ''forbidden_scope'')"
| "sandbox_detail (HttpError status code) = Some (status, code)"
| "sandbox_detail _ = None"

text \<open>\<open>isinstance(exc, SandboxError)\<close>: a bare \<open>HTTPException\<close> is not one.\<close>

fun is_sandbox_error :: "exn \<Rightarrow> bool" where
  "is_sandbox_error (HttpError status code) = False"
| "is_sandbox_error e = (sandbox_detail e \<noteq> None)"

text \<open>
  docker-py: \<open>ImageNotFound\<close> is a subclass of \<open>NotFound\<close>, which is a subclass of
  \<open>APIError\<close>; \<open>except NotFound\<close> catches the first two.
\<close>

fun is_docker_not_found :: "exn \<Rightarrow> bool" where
  "is_docker_not_found DockerNotFound = True"
| "is_docker_not_found DockerImageNotFound = True"
| "is_docker_not_found _ = False"

text \<open>
  The response of the application to an exception that leaves a route: the two docker-py
  handlers of \<open>create_app\<close> answer 503 with a code, the framework turns an
  \<open>HTTPException\<close> into its status and detail, and anything else is a plain-text 500 without
  a code.
\<close>

fun docker_handler :: "exn \<Rightarrow> (nat \<times> string) option" where
  "docker_handler DockerImageNotFound = Some (503, ''image_not_found'')"
| "docker_handler DockerNotFound = Some (503, ''docker_api_error'')"
| "docker_handler DockerAPIError = Some (503, ''docker_api_error'')"
| "docker_handler _ = None"

definition error_response :: "exn \<Rightarrow> nat \<times> string option" where
  "error_response e =
     (case docker_handler e of
        Some (s, c) \<Rightarrow> (s, Some c)
      | None \<Rightarrow> (case sandbox_detail e of Some (s, c) \<Rightarrow> (s, Some c) | None \<Rightarrow> (500, None)))"

text \<open>
  The table of SPECIFICATION section 9: the status of each code, but for \<open>limit_exceeded\<close>,
  which the specification gives two statuses on purpose.
\<close>

definition spec_status :: "(string \<times> nat) list" where
  "spec_status =
    [(''session_not_found'', 404), (''process_not_found'', 404), (''invalid_state'', 409),
     (''exec_timeout'', 408), (''invalid_path'', 400), (''invalid_argument'', 400),
     (''unauthorized'', 401), (''forbidden_scope'', 403), (''audit_unhealthy'', 503),
     (''image_not_found'', 503), (''docker_api_error'', 503)]"

lemma sandbox_error_in_spec:
  assumes "is_sandbox_error e \<or> docker_handler e \<noteq> None"
  obtains s c where "error_response e = (s, Some c)"
    and "c = ''limit_exceeded'' \<and> s \<in> {400, 429} \<or> map_of spec_status c = Some s"
  using assms by (cases e) (simp_all add: error_response_def spec_status_def)

lemma error_response_code_status:
  assumes "is_sandbox_error e" "is_sandbox_error e'"
    and c: "error_response e = (s, Some c)" "error_response e' = (s', Some c)"
    and "c \<noteq> ''limit_exceeded''"
  shows "s = s'"
proof -
  from assms(1) obtain a b where "error_response e = (a, Some b)"
    "b = ''limit_exceeded'' \<and> a \<in> {400, 429} \<or> map_of spec_status b = Some a"
    using sandbox_error_in_spec [of e] by blast
  moreover from assms(2) obtain a' b' where "error_response e' = (a', Some b')"
    "b' = ''limit_exceeded'' \<and> a' \<in> {400, 429} \<or> map_of spec_status b' = Some a'"
    using sandbox_error_in_spec [of e'] by blast
  ultimately show ?thesis using c \<open>c \<noteq> ''limit_exceeded''\<close> by auto
qed

text \<open>
  Every exception of the service and of the Docker daemon that reaches the application is
  answered with a code of the table of SPECIFICATION section 9 and the status the table gives it;
  only \<open>limit_exceeded\<close> has two, 400 for limits above the maximum and 429 for a full quota.
\<close>

theorem error_table:
  assumes "is_sandbox_error e \<or> docker_handler e \<noteq> None"
  shows "\<exists>s c. error_response e = (s, Some c) \<and>
    (c = ''limit_exceeded'' \<and> s \<in> {400, 429} \<or> map_of spec_status c = Some s)"
  using sandbox_error_in_spec [OF assms] by metis

lemma error_table_witness:
  "error_response (InvalidPath ''absolute_path'') = (400, Some ''invalid_path'')"
proof -
  have "is_sandbox_error (InvalidPath ''absolute_path'')" by simp
  with error_table [of "InvalidPath ''absolute_path''"]
  have "\<exists>s c. error_response (InvalidPath ''absolute_path'') = (s, Some c)" by blast
  then show ?thesis by (simp add: error_response_def)
qed

end
