(* ===== verification/Models.thy ===== *)
theory Models
  imports Errors
begin

text \<open>
  Request and response models (\<open>api/models.py\<close>) and the settings (\<open>api/config.py\<close>). A
  pydantic model is a record; the \<open>Field\<close> constraints that a constructor enforces are the
  \<open>_ok\<close> predicates, and constructing a model that violates them raises. Times are integers in
  milliseconds, identifiers and paths are strings; Python's integers are \<open>int\<close>.
\<close>

type_synonym ms = int

datatype status = CREATING | RUNNING | IDLE | STOPPED | DESTROYING | DESTROYED

record limits =
  vcpu :: int
  memory_mib :: int
  workspace_mib :: int
  pids :: int
  nofile :: int
  exec_timeout_s :: int
  max_processes :: int

definition limits_ok :: "limits \<Rightarrow> bool" where
  "limits_ok l \<longleftrightarrow> 1 \<le> vcpu l \<and> 64 \<le> memory_mib l \<and> 64 \<le> workspace_mib l \<and> 16 \<le> pids l
     \<and> 64 \<le> nofile l \<and> 1 \<le> exec_timeout_s l \<and> 0 \<le> max_processes l"

datatype scope =
    Session_create | Session_destroy | Exec_scope | File_read | File_write | File_delete
  | Processes_scope | Tokens_rotate

definition ALL_SCOPES :: "scope list" where
  "ALL_SCOPES = [Session_create, Session_destroy, Exec_scope, File_read, File_write, File_delete,
     Processes_scope, Tokens_rotate]"

fun scope_name :: "scope \<Rightarrow> string" where
  "scope_name Session_create = ''session_create''"
| "scope_name Session_destroy = ''session_destroy''"
| "scope_name Exec_scope = ''exec''"
| "scope_name File_read = ''file_read''"
| "scope_name File_write = ''file_write''"
| "scope_name File_delete = ''file_delete''"
| "scope_name Processes_scope = ''processes''"
| "scope_name Tokens_rotate = ''tokens_rotate''"

lemma ALL_SCOPES_complete: "set ALL_SCOPES = UNIV" "distinct ALL_SCOPES"
proof -
  have "s \<in> set ALL_SCOPES" for s by (cases s) (simp_all add: ALL_SCOPES_def)
  then show "set ALL_SCOPES = UNIV" by auto
  show "distinct ALL_SCOPES" by (simp add: ALL_SCOPES_def)
qed

lemma scope_name_inj: "scope_name s = scope_name s' \<longleftrightarrow> s = s'"
  by (cases s; cases s'; simp)

record settings =
  dev_mode :: bool
  api_token :: string
  admin_token :: string
  token_pepper :: string
  token_grace_seconds :: int
  bind_host :: string
  bind_port :: int
  trust_proxy_headers :: bool
  db_path :: string
  audit_log_path :: string
  audit_fallback_log_path :: "string option"
  audit_buffer_timeout_ms :: int
  sandbox_image :: string
  network_name :: string
  egress_proxy_url :: string
  default_vcpu :: int
  default_memory_mib :: int
  default_workspace_mib :: int
  default_pids :: int
  default_nofile :: int
  default_exec_timeout_s :: int
  idle_stop_minutes :: int
  hard_destroy_hours :: int
  reaper_interval_s :: int
  pin_on_activity :: bool
  resource_sample_interval_s :: int
  orphan_reap_interval_s :: int
  orphan_reap_grace_s :: int
  orphan_reap_max_per_tick :: int
  tenant_max_concurrent :: int
  quota_setup_cmd :: string
  quota_teardown_cmd :: string
  quota_volume_base :: string
  bind_volume_uid :: "int option"
  idempotency_ttl_s :: int
  process_watcher_interval_ms :: int
  process_stop_grace_s :: int
  tenant_max_processes :: int

text \<open>The declared defaults of \<open>Settings\<close>.\<close>

definition default_settings :: settings where
  "default_settings = \<lparr>
     dev_mode = False, api_token = '''', admin_token = '''', token_pepper = '''',
     token_grace_seconds = 300, bind_host = ''127.0.0.1'', bind_port = 8000,
     trust_proxy_headers = False, db_path = ''var/sandbox.db'', audit_log_path = ''var/audit.log'',
     audit_fallback_log_path = None, audit_buffer_timeout_ms = 5000,
     sandbox_image = ''sandbox-runtime:latest'', network_name = ''sandbox_egress'',
     egress_proxy_url = ''http://proxy:3128'',
     default_vcpu = 2, default_memory_mib = 2048, default_workspace_mib = 1024, default_pids = 256,
     default_nofile = 1024, default_exec_timeout_s = 60,
     idle_stop_minutes = 15, hard_destroy_hours = 24, reaper_interval_s = 60, pin_on_activity = True,
     resource_sample_interval_s = 10, orphan_reap_interval_s = 3600, orphan_reap_grace_s = 3600,
     orphan_reap_max_per_tick = 10, tenant_max_concurrent = 50, quota_setup_cmd = '''',
     quota_teardown_cmd = '''', quota_volume_base = ''/var/lib/sandbox-volumes'',
     bind_volume_uid = None, idempotency_ttl_s = 86400, process_watcher_interval_ms = 2000,
     process_stop_grace_s = 10, tenant_max_processes = 32\<rparr>"

text \<open>
  JSON values: the payloads of audit records and the bodies the service builds itself. The only
  fractions are numbers rounded to two digits.
\<close>

datatype json =
    JNull
  | JBool bool
  | JInt int
  | JHundredths int
  | JStr string
  | JList "json list"
  | JObj "(string \<times> json) list"

definition limits_json :: "limits \<Rightarrow> json" where
  "limits_json l = JObj
    [(''vcpu'', JInt (vcpu l)), (''memory_mib'', JInt (memory_mib l)),
     (''workspace_mib'', JInt (workspace_mib l)), (''pids'', JInt (pids l)),
     (''nofile'', JInt (nofile l)), (''exec_timeout_s'', JInt (exec_timeout_s l)),
     (''max_processes'', JInt (max_processes l))]"

end
