(* ===== verification/RegSessions.thy ===== *)
theory RegSessions
  imports Models
begin

text \<open>
  The \<open>sessions\<close> table of the registry (\<open>api/registry.py\<close>): rows, the transition table, and
  one definition per method of \<open>Registry\<close> that touches the table. \<open>now_ms()\<close> is the argument
  \<open>ts\<close>. Then the interface the session service relies on, as the locale \<open>session_store\<close>, and
  its interpretation on these definitions.
\<close>

section \<open>Rows and queries\<close>

record session =
  s_id :: string
  s_tenant :: string
  s_status :: status
  s_container :: "string option"
  s_volume :: string
  s_limits :: limits
  s_created :: ms
  s_last :: ms
  s_destroyed :: "ms option"

type_synonym sessions = "session list"

fun transitions :: "status \<Rightarrow> status list" where
  "transitions CREATING = [RUNNING, DESTROYING]"
| "transitions RUNNING = [IDLE, STOPPED, DESTROYING]"
| "transitions IDLE = [RUNNING, STOPPED, DESTROYING]"
| "transitions STOPPED = [RUNNING, DESTROYING]"
| "transitions DESTROYING = [DESTROYED]"
| "transitions DESTROYED = []"

definition get_unscoped :: "string \<Rightarrow> sessions \<Rightarrow> session option" where
  "get_unscoped sid t = t_get s_id sid t"

definition get_session :: "string \<Rightarrow> string \<Rightarrow> sessions \<Rightarrow> session option" where
  "get_session sid tenant t =
     (case filter (\<lambda>r. s_id r = sid \<and> s_tenant r = tenant) t of
        [] \<Rightarrow> None
      | r # _ \<Rightarrow> (if s_status r = DESTROYED then None else Some r))"

definition list_pending_destroy :: "sessions \<Rightarrow> session list" where
  "list_pending_destroy t = filter (\<lambda>r. s_status r = DESTROYING) t"

definition terminal :: "status \<Rightarrow> bool" where
  "terminal st \<longleftrightarrow> st = DESTROYING \<or> st = DESTROYED"

lemma terminal_simps [simp]:
  "terminal DESTROYING" "terminal DESTROYED" "\<not> terminal CREATING" "\<not> terminal RUNNING"
  "\<not> terminal IDLE" "\<not> terminal STOPPED"
  by (simp_all add: terminal_def)

definition live :: "status \<Rightarrow> bool" where
  "live st \<longleftrightarrow> st = RUNNING \<or> st = IDLE"

lemma live_simps [simp]:
  "live RUNNING" "live IDLE" "\<not> live CREATING" "\<not> live STOPPED" "\<not> live DESTROYING"
  "\<not> live DESTROYED"
  by (simp_all add: live_def)

definition count_concurrent :: "string \<Rightarrow> sessions \<Rightarrow> int" where
  "count_concurrent tenant t =
     int (length (filter (\<lambda>r. s_tenant r = tenant \<and> \<not> terminal (s_status r)) t))"

definition list_idle_running :: "ms \<Rightarrow> sessions \<Rightarrow> session list" where
  "list_idle_running threshold t = filter (\<lambda>r. live (s_status r) \<and> s_last r < threshold) t"

definition list_expired :: "ms \<Rightarrow> sessions \<Rightarrow> session list" where
  "list_expired threshold t =
     filter (\<lambda>r. \<not> terminal (s_status r) \<and> s_created r < threshold) t"

definition list_non_terminal :: "sessions \<Rightarrow> session list" where
  "list_non_terminal t = filter (\<lambda>r. \<not> terminal (s_status r)) t"

definition status_counts :: "sessions \<Rightarrow> status \<Rightarrow> nat" where
  "status_counts t st = length (filter (\<lambda>r. s_status r = st) t)"

section \<open>Updates\<close>

definition new_session :: "ms \<Rightarrow> string \<Rightarrow> string \<Rightarrow> string \<Rightarrow> limits \<Rightarrow> session" where
  "new_session ts sid tenant vol l =
     \<lparr>s_id = sid, s_tenant = tenant, s_status = CREATING, s_container = None, s_volume = vol,
      s_limits = l, s_created = ts, s_last = ts, s_destroyed = None\<rparr>"

definition insert_session ::
  "ms \<Rightarrow> string \<Rightarrow> string \<Rightarrow> string \<Rightarrow> limits \<Rightarrow> sessions \<Rightarrow> exn + sessions" where
  "insert_session ts sid tenant vol l t =
     (if t_get s_id sid t \<noteq> None then Inl IntegrityError
      else Inr (t @ [new_session ts sid tenant vol l]))"

definition set_container :: "string \<Rightarrow> string \<Rightarrow> sessions \<Rightarrow> sessions" where
  "set_container sid cid t = t_upd (\<lambda>r. s_id r = sid) (\<lambda>r. r\<lparr>s_container := Some cid\<rparr>) t"

text \<open>The \<open>UPDATE\<close> of \<open>transition\<close>, which it issues after its check.\<close>

definition with_status :: "ms \<Rightarrow> status \<Rightarrow> session \<Rightarrow> session" where
  "with_status ts new r =
     (if new = DESTROYED then r\<lparr>s_status := new, s_destroyed := Some ts, s_last := ts\<rparr>
      else r\<lparr>s_status := new, s_last := ts\<rparr>)"

lemma with_status_simps [simp]:
  "s_id (with_status ts new r) = s_id r" "s_tenant (with_status ts new r) = s_tenant r"
  "s_status (with_status ts new r) = new" "s_container (with_status ts new r) = s_container r"
  "s_volume (with_status ts new r) = s_volume r" "s_limits (with_status ts new r) = s_limits r"
  "s_created (with_status ts new r) = s_created r" "s_last (with_status ts new r) = ts"
  "s_destroyed (with_status ts new r) = (if new = DESTROYED then Some ts else s_destroyed r)"
  by (simp_all add: with_status_def)

definition write_status :: "ms \<Rightarrow> string \<Rightarrow> status \<Rightarrow> sessions \<Rightarrow> sessions" where
  "write_status ts sid new t = t_upd (\<lambda>r. s_id r = sid) (with_status ts new) t"

definition transition :: "ms \<Rightarrow> string \<Rightarrow> status \<Rightarrow> sessions \<Rightarrow> exn + sessions" where
  "transition ts sid new t =
     (case t_get s_id sid t of
        None \<Rightarrow> Inl KeyError
      | Some r \<Rightarrow>
          if new \<notin> set (transitions (s_status r)) then Inl ValueError
          else Inr (write_status ts sid new t))"

definition touch_activity :: "ms \<Rightarrow> string \<Rightarrow> sessions \<Rightarrow> sessions" where
  "touch_activity ts sid t =
     t_upd (\<lambda>r. s_id r = sid \<and> live (s_status r)) (\<lambda>r. r\<lparr>s_last := ts\<rparr>) t"

definition transition_orphaned :: "ms \<Rightarrow> string \<Rightarrow> sessions \<Rightarrow> sessions" where
  "transition_orphaned ts sid t =
     t_upd (\<lambda>r. s_id r = sid \<and> s_status r \<notin> {DESTROYING, DESTROYED, STOPPED})
       (\<lambda>r. r\<lparr>s_status := STOPPED, s_last := ts\<rparr>) t"

section \<open>What each operation does to a lookup\<close>

named_theorems sess_simps "lookups after updates of the sessions table"

lemma get_unscoped_insert [sess_simps]:
  "insert_session ts sid tenant vol l t = Inr t' \<Longrightarrow>
    get_unscoped j t' =
      (if j = sid then Some (new_session ts sid tenant vol l) else get_unscoped j t)"
  by (cases "t_get s_id sid t")
    (auto simp: insert_session_def get_unscoped_def new_session_def split: option.splits)

lemma get_unscoped_set_container [sess_simps]:
  "get_unscoped j (set_container sid cid t) =
    (if j = sid then map_option (\<lambda>r. r\<lparr>s_container := Some cid\<rparr>) (get_unscoped j t)
     else get_unscoped j t)"
  by (simp add: get_unscoped_def set_container_def)

lemma get_unscoped_write_status [sess_simps]:
  "get_unscoped j (write_status ts sid new t) =
    (if j = sid then map_option (with_status ts new) (get_unscoped j t)
     else get_unscoped j t)"
  by (simp add: get_unscoped_def write_status_def)

lemma get_unscoped_touch [sess_simps]:
  "get_unscoped j (touch_activity ts sid t) =
    (if j = sid then map_option
       (\<lambda>r. if live (s_status r) then r\<lparr>s_last := ts\<rparr> else r) (get_unscoped j t)
     else get_unscoped j t)"
  by (simp add: get_unscoped_def touch_activity_def)

lemma get_unscoped_orphaned [sess_simps]:
  "get_unscoped j (transition_orphaned ts sid t) =
    (if j = sid then map_option
       (\<lambda>r. if s_status r \<in> {DESTROYING, DESTROYED, STOPPED} then r
             else r\<lparr>s_status := STOPPED, s_last := ts\<rparr>) (get_unscoped j t)
     else get_unscoped j t)"
  by (cases "t_get s_id sid t") (simp_all add: get_unscoped_def transition_orphaned_def)

lemma get_unscoped_id: "get_unscoped sid t = Some r \<Longrightarrow> s_id r = sid"
  unfolding get_unscoped_def by (rule t_get_key)

lemma get_unscoped_in: "get_unscoped sid t = Some r \<Longrightarrow> r \<in> set t"
  unfolding get_unscoped_def by (rule t_get_in)


section \<open>The lifecycle and the interface of the store\<close>

text \<open>The diagram of ARCHITECTURE section 5, one rule per arrow.\<close>

inductive lifecycle :: "status \<Rightarrow> status \<Rightarrow> bool" where
  start_ok: "lifecycle CREATING RUNNING"
| idle: "lifecycle RUNNING IDLE"
| stop: "lifecycle RUNNING STOPPED"
| sweep: "lifecycle IDLE STOPPED"
| wake: "lifecycle IDLE RUNNING"
| resume: "lifecycle STOPPED RUNNING"
| destroy: "\<not> terminal a \<Longrightarrow> lifecycle a DESTROYING"
| removed: "lifecycle DESTROYING DESTROYED"

inductive_cases lifecycle_from_destroyed [elim!]: "lifecycle DESTROYED b"
inductive_cases lifecycle_from_destroying [elim!]: "lifecycle DESTROYING b"
inductive_simps lifecycle_simps: "lifecycle a b"

lemma transitions_lifecycle: "b \<in> set (transitions a) \<longleftrightarrow> lifecycle a b"
  by (cases a) (auto simp: lifecycle_simps terminal_def)

locale session_store =
  fixes status_of :: "'r \<Rightarrow> string \<Rightarrow> status option"
    and move :: "ms \<Rightarrow> string \<Rightarrow> status \<Rightarrow> 'r \<Rightarrow> exn + 'r"
  assumes move_ok: "status_of r i = Some a \<Longrightarrow> lifecycle a b \<Longrightarrow>
      \<exists>r'. move ts i b r = Inr r' \<and> status_of r' = (status_of r)(i \<mapsto> b)"
    and move_refused: "status_of r i = Some a \<Longrightarrow> \<not> lifecycle a b \<Longrightarrow>
      move ts i b r = Inl ValueError"
    and move_missing: "status_of r i = None \<Longrightarrow> move ts i b r = Inl KeyError"
begin

lemma moved:
  assumes "move ts i b r = Inr r'"
  obtains a where "status_of r i = Some a" "lifecycle a b" "status_of r' = (status_of r)(i \<mapsto> b)"
proof (cases "status_of r i")
  case None
  with assms show ?thesis by (simp add: move_missing)
next
  case (Some a)
  show ?thesis
  proof (cases "lifecycle a b")
    case True
    with Some assms move_ok [of r i a b ts] that show ?thesis by auto
  next
    case False
    with Some assms show ?thesis by (simp add: move_refused)
  qed
qed

lemma move_other: "move ts i b r = Inr r' \<Longrightarrow> j \<noteq> i \<Longrightarrow> status_of r' j = status_of r j"
  by (erule moved) simp

lemma move_terminal:
  "status_of r i = Some a \<Longrightarrow> terminal a \<Longrightarrow> move ts i b r = Inr r' \<Longrightarrow>
    a = DESTROYING \<and> b = DESTROYED"
  by (erule moved) (auto simp: terminal_def)

lemma move_twice: "move ts i DESTROYING r = Inr r' \<Longrightarrow> \<exists>r''. move ts' i DESTROYED r' = Inr r''"
  by (erule moved) (metis fun_upd_same lifecycle.removed move_ok)

end

definition sess_status :: "sessions \<Rightarrow> string \<Rightarrow> status option" where
  "sess_status t i = map_option s_status (get_unscoped i t)"

lemma sess_status_write_status:
  "sess_status t i = Some a \<Longrightarrow> sess_status (write_status ts i b t) = (sess_status t)(i \<mapsto> b)"
  by (auto simp: sess_status_def fun_eq_iff sess_simps)

interpretation reg: session_store sess_status transition
proof unfold_locales
  fix r i a b ts
  assume "sess_status r i = Some a" "lifecycle a b"
  then show "\<exists>r'. transition ts i b r = Inr r' \<and> sess_status r' = (sess_status r)(i \<mapsto> b)"
    using sess_status_write_status
    by (auto simp: transition_def sess_status_def get_unscoped_def transitions_lifecycle
        simp del: fun_upd_apply)
qed (auto simp: transition_def sess_status_def get_unscoped_def transitions_lifecycle)

section \<open>Histories of the table\<close>

datatype sess_op =
    Op_insert ms string string string limits
  | Op_container string string
  | Op_transition ms string status
  | Op_touch ms string
  | Op_orphan ms string

fun apply_sess_op :: "sess_op \<Rightarrow> sessions \<Rightarrow> exn + sessions" where
  "apply_sess_op (Op_insert ts sid tenant vol l) t = insert_session ts sid tenant vol l t"
| "apply_sess_op (Op_container sid cid) t = Inr (set_container sid cid t)"
| "apply_sess_op (Op_transition ts sid st) t = transition ts sid st t"
| "apply_sess_op (Op_touch ts sid) t = Inr (touch_activity ts sid t)"
| "apply_sess_op (Op_orphan ts sid) t = Inr (transition_orphaned ts sid t)"

text \<open>A method that raises commits nothing.\<close>

fun run_sess_ops :: "sess_op list \<Rightarrow> sessions \<Rightarrow> sessions" where
  "run_sess_ops [] t = t"
| "run_sess_ops (x # xs) t =
     run_sess_ops xs (case apply_sess_op x t of Inl e \<Rightarrow> t | Inr t' \<Rightarrow> t')"

text \<open>The steps a row can take: the lifecycle, and the recovery step of reconciliation.\<close>

inductive row_step :: "status \<Rightarrow> status \<Rightarrow> bool" where
  normal: "lifecycle a b \<Longrightarrow> row_step a b"
| orphaned: "a \<notin> {DESTROYING, DESTROYED, STOPPED} \<Longrightarrow> row_step a STOPPED"

inductive_cases row_step_from_destroyed [elim!]: "row_step DESTROYED b"

definition row_fixed :: "session \<Rightarrow> session \<Rightarrow> bool" where
  "row_fixed r r' \<longleftrightarrow> s_id r' = s_id r \<and> s_tenant r' = s_tenant r \<and> s_volume r' = s_volume r
     \<and> s_limits r' = s_limits r \<and> s_created r' = s_created r"

lemma apply_sess_op_row:
  assumes "apply_sess_op x t = Inr t'" "get_unscoped i t = Some r"
  shows "\<exists>r'. get_unscoped i t' = Some r' \<and> row_fixed r r' \<and>
    (s_status r' = s_status r \<or> row_step (s_status r) (s_status r'))"
proof (cases x)
  case (Op_insert ts sid tenant vol l)
  then have "i \<noteq> sid" using assms by (auto simp: insert_session_def get_unscoped_def split: if_splits)
  then show ?thesis using Op_insert assms get_unscoped_insert [of ts sid tenant vol l t t' i]
    by (simp add: row_fixed_def)
next
  case (Op_transition ts sid st)
  then have *: "transition ts sid st t = Inr t'" using assms by simp
  then have "t' = write_status ts sid st t"
    by (auto simp: transition_def split: option.splits if_splits)
  moreover have "i = sid \<Longrightarrow> lifecycle (s_status r) st"
    using reg.moved [OF *] assms(2) by (auto simp: sess_status_def)
  ultimately show ?thesis
    using assms(2) by (auto simp: sess_simps row_fixed_def intro: row_step.normal)
next
  case (Op_touch ts sid)
  with assms have "get_unscoped i t' = Some (if i = sid \<and> live (s_status r) then r\<lparr>s_last := ts\<rparr> else r)"
    by (auto simp: sess_simps)
  then show ?thesis by (auto simp: row_fixed_def)
next
  case (Op_orphan ts sid)
  with assms have "get_unscoped i t' =
      Some (if i = sid \<and> s_status r \<notin> {DESTROYING, DESTROYED, STOPPED}
            then r\<lparr>s_status := STOPPED, s_last := ts\<rparr> else r)"
    by (auto simp: sess_simps)
  then show ?thesis by (auto simp: row_fixed_def intro: row_step.orphaned)
qed (use assms in \<open>auto simp: sess_simps row_fixed_def\<close>)

lemma run_sess_ops_row:
  "get_unscoped i t = Some r \<Longrightarrow>
    \<exists>r'. get_unscoped i (run_sess_ops xs t) = Some r' \<and> row_fixed r r' \<and>
      row_step\<^sup>*\<^sup>* (s_status r) (s_status r')"
proof (induction xs t arbitrary: r rule: run_sess_ops.induct)
  case (1 t)
  then show ?case by (simp add: row_fixed_def)
next
  case (2 x xs t)
  show ?case
  proof (cases "apply_sess_op x t")
    case (Inl e)
    with 2 show ?thesis by simp
  next
    case (Inr t')
    from apply_sess_op_row [OF Inr "2.prems"] obtain q where q: "get_unscoped i t' = Some q"
      "row_fixed r q" "s_status q = s_status r \<or> row_step (s_status r) (s_status q)" by blast
    from "2.IH" [of q] q(1) Inr obtain r' where "get_unscoped i (run_sess_ops xs t') = Some r'"
      "row_fixed q r'" "row_step\<^sup>*\<^sup>* (s_status q) (s_status r')" by auto
    with q Inr show ?thesis
      by (auto simp: row_fixed_def intro: converse_rtranclp_into_rtranclp)
  qed
qed

lemma row_steps_from_destroyed: "row_step\<^sup>*\<^sup>* DESTROYED b \<Longrightarrow> b = DESTROYED"
  by (erule converse_rtranclpE) auto

text \<open>Well-formed tables: unique ids, and \<open>destroyed_at\<close> is set exactly on destroyed rows.\<close>

definition sessions_wf :: "sessions \<Rightarrow> bool" where
  "sessions_wf t \<longleftrightarrow> keyed s_id t \<and>
     list_all (\<lambda>r. (s_destroyed r \<noteq> None) = (s_status r = DESTROYED)) t"

lemma sessions_wf_Nil [simp]: "sessions_wf []"
  by (simp add: sessions_wf_def)

lemma sessions_wf_upd:
  assumes "sessions_wf t" "\<And>r. s_id (f r) = s_id r"
    and "\<And>r. r \<in> set t \<Longrightarrow> P r \<Longrightarrow> (s_destroyed r \<noteq> None) = (s_status r = DESTROYED) \<Longrightarrow>
      (s_destroyed (f r) \<noteq> None) = (s_status (f r) = DESTROYED)"
  shows "sessions_wf (t_upd P f t)"
  using assms by (auto simp: sessions_wf_def keyed_t_upd list_all_iff set_t_upd)

lemma transition_wf:
  assumes "sessions_wf t" "transition ts i b t = Inr t'"
  shows "sessions_wf t'"
proof -
  from reg.moved [OF assms(2)] obtain a where a: "sess_status t i = Some a" "lifecycle a b" by blast
  from assms(2) have t': "t' = write_status ts i b t"
    by (auto simp: transition_def split: option.splits if_splits)
  have "s_status r = a" if "r \<in> set t" "s_id r = i" for r
    using assms(1) a(1) that
    by (auto simp: sessions_wf_def sess_status_def get_unscoped_def dest: t_get_keyed)
  moreover from a(2) have "a \<noteq> DESTROYED" by auto
  ultimately show ?thesis
    unfolding t' write_status_def using assms(1) by (intro sessions_wf_upd) auto
qed

lemma apply_sess_op_wf:
  assumes "sessions_wf t" "apply_sess_op x t = Inr t'"
  shows "sessions_wf t'"
proof (cases x)
  case Op_insert
  with assms show ?thesis
    by (auto simp: insert_session_def sessions_wf_def new_session_def intro: keyed_snoc
        split: if_splits)
next
  case Op_transition
  with assms show ?thesis by (auto intro: transition_wf)
next
  case Op_container
  with assms show ?thesis by (auto simp: set_container_def intro!: sessions_wf_upd)
next
  case Op_touch
  with assms show ?thesis by (auto simp: touch_activity_def intro!: sessions_wf_upd)
next
  case Op_orphan
  with assms show ?thesis by (auto simp: transition_orphaned_def intro!: sessions_wf_upd)
qed

lemma run_sess_ops_wf: "sessions_wf t \<Longrightarrow> sessions_wf (run_sess_ops xs t)"
  by (induction xs t rule: run_sess_ops.induct)
    (auto dest: apply_sess_op_wf split: sum.splits)

section \<open>Properties of the sessions table\<close>

text \<open>
  Whatever sequence of registry calls runs, failing ones included, a session row never
  disappears, keeps its owner, volume, limits and creation time, moves only along the lifecycle of
  ARCHITECTURE section 5 and the recovery step of reconciliation, and stays destroyed once it is.
\<close>

theorem session_history:
  assumes "get_unscoped i t = Some r"
  shows "\<exists>r'. get_unscoped i (run_sess_ops xs t) = Some r' \<and> row_fixed r r' \<and>
    row_step\<^sup>*\<^sup>* (s_status r) (s_status r') \<and> (s_status r = DESTROYED \<longrightarrow> s_status r' = DESTROYED)"
  using run_sess_ops_row [OF assms, of xs] row_steps_from_destroyed by metis

definition demo_limits :: limits where
  "demo_limits = \<lparr>vcpu = 2, memory_mib = 2048, workspace_mib = 1024, pids = 256, nofile = 1024,
     exec_timeout_s = 60, max_processes = 8\<rparr>"

definition demo_ops :: "sess_op list" where
  "demo_ops = [Op_container ''s1'' ''c1'', Op_transition 5 ''s1'' RUNNING, Op_touch 6 ''s1'',
     Op_transition 7 ''s1'' DESTROYING, Op_transition 8 ''s1'' DESTROYED,
     Op_transition 9 ''s1'' RUNNING]"

lemma session_history_witness:
  "get_unscoped ''s1'' [new_session 1 ''s1'' ''t1'' ''v1'' demo_limits] \<noteq> None \<and>
   (\<exists>r'. get_unscoped ''s1''
      (run_sess_ops demo_ops [new_session 1 ''s1'' ''t1'' ''v1'' demo_limits]) = Some r' \<and>
      row_fixed (new_session 1 ''s1'' ''t1'' ''v1'' demo_limits) r')"
proof -
  have "get_unscoped ''s1'' [new_session 1 ''s1'' ''t1'' ''v1'' demo_limits] =
      Some (new_session 1 ''s1'' ''t1'' ''v1'' demo_limits)"
    by (simp add: get_unscoped_def new_session_def)
  from session_history [OF this, of demo_ops] this show ?thesis by auto
qed

text \<open>
  The table reached from an empty one by any sequence of registry calls has one row per id,
  and \<open>destroyed_at\<close> is set exactly on the destroyed rows.
\<close>

theorem sessions_table_wf: "sessions_wf (run_sess_ops xs [])"
  by (rule run_sess_ops_wf) simp

text \<open>
  \<open>transition\<close> raises \<open>KeyError\<close> for an unknown session and \<open>ValueError\<close> for a move the
  lifecycle does not have; otherwise it changes the status of that session and of no other.
\<close>

theorem transition_behaviour:
  "case transition ts i b t of
     Inl e \<Rightarrow> (sess_status t i = None \<and> e = KeyError) \<or>
       (\<exists>a. sess_status t i = Some a \<and> \<not> lifecycle a b \<and> e = ValueError)
   | Inr t' \<Rightarrow> (\<exists>a. sess_status t i = Some a \<and> lifecycle a b) \<and>
       sess_status t' = (sess_status t)(i \<mapsto> b)"
proof (cases "transition ts i b t")
  case (Inl e)
  then show ?thesis
    using reg.move_ok [of t i _ b ts] reg.move_refused [of t i _ b ts] reg.move_missing [of t i ts b]
    by (cases "sess_status t i") fastforce+
next
  case (Inr t')
  then show ?thesis by (auto elim: reg.moved)
qed

end
