(* ===== verification/RegTenants.thy ===== *)
theory RegTenants
  imports Models
begin

text \<open>
  The \<open>tenants\<close> and \<open>tokens\<close> tables of the registry (\<open>api/registry.py\<close>), one definition per
  method, and the interface the authenticator relies on (\<open>token_store\<close>). A JSON column holds
  the value it was written from; SQLite does not enforce the foreign key.
\<close>

section \<open>Tenants\<close>

record tenant =
  t_id :: string
  t_name :: string
  t_created :: ms
  t_max_concurrency :: "int option"
  t_max_workspace_gib :: "int option"
  t_max_exec_timeout_s :: "int option"
  t_egress :: "string list option"

type_synonym tenants = "tenant list"

record tenant_limits =
  l_max_concurrency :: "int option"
  l_max_workspace_gib :: "int option"
  l_max_exec_timeout_s :: "int option"

definition no_limits :: tenant_limits where
  "no_limits = \<lparr>l_max_concurrency = None, l_max_workspace_gib = None, l_max_exec_timeout_s = None\<rparr>"

text \<open>\<open>INSERT OR IGNORE\<close>: an existing tenant is left as it is.\<close>

definition create_tenant ::
  "ms \<Rightarrow> string \<Rightarrow> string \<Rightarrow> tenant_limits \<Rightarrow> string list option \<Rightarrow> tenants \<Rightarrow> tenants" where
  "create_tenant ts tid name l egress t =
     (if t_get t_id tid t \<noteq> None then t
      else t @ [\<lparr>t_id = tid, t_name = name, t_created = ts,
        t_max_concurrency = l_max_concurrency l, t_max_workspace_gib = l_max_workspace_gib l,
        t_max_exec_timeout_s = l_max_exec_timeout_s l, t_egress = egress\<rparr>])"

definition count_tenants :: "tenants \<Rightarrow> nat" where
  "count_tenants t = length t"

definition get_tenant_full :: "string \<Rightarrow> tenants \<Rightarrow> tenant option" where
  "get_tenant_full tid t = t_get t_id tid t"

text \<open>\<open>ORDER BY created_at\<close>; rows with equal keys stay in insertion order.\<close>

definition list_tenants_full :: "tenants \<Rightarrow> tenant list" where
  "list_tenants_full t = sort_key t_created t"

definition list_tenants :: "tenants \<Rightarrow> (string \<times> string \<times> ms) list" where
  "list_tenants t = map (\<lambda>r. (t_id r, t_name r, t_created r)) (sort_key t_created t)"

text \<open>\<open>None\<close> stands for \<open>_SENTINEL\<close>: the column is not in the \<open>SET\<close> list.\<close>

definition update_tenant ::
  "string \<Rightarrow> string option \<Rightarrow> int option option \<Rightarrow> int option option \<Rightarrow> int option option \<Rightarrow>
    string list option option \<Rightarrow> tenants \<Rightarrow> tenants" where
  "update_tenant tid name conc ws ex egress t =
     t_upd (\<lambda>r. t_id r = tid)
       (\<lambda>r. r\<lparr>t_name := case_option (t_name r) id name,
              t_max_concurrency := case_option (t_max_concurrency r) id conc,
              t_max_workspace_gib := case_option (t_max_workspace_gib r) id ws,
              t_max_exec_timeout_s := case_option (t_max_exec_timeout_s r) id ex,
              t_egress := case_option (t_egress r) id egress\<rparr>) t"

definition delete_tenant_row :: "string \<Rightarrow> tenants \<Rightarrow> tenants" where
  "delete_tenant_row tid t = t_del (\<lambda>r. t_id r = tid) t"

lemma create_tenant_get:
  "get_tenant_full j (create_tenant ts tid name l egress t) =
    (if j = tid \<and> get_tenant_full tid t = None then
       Some \<lparr>t_id = tid, t_name = name, t_created = ts, t_max_concurrency = l_max_concurrency l,
         t_max_workspace_gib = l_max_workspace_gib l,
         t_max_exec_timeout_s = l_max_exec_timeout_s l, t_egress = egress\<rparr>
     else get_tenant_full j t)"
  by (auto simp: create_tenant_def get_tenant_full_def split: option.splits)

lemma create_tenant_keyed: "keyed t_id t \<Longrightarrow> keyed t_id (create_tenant ts tid name l egress t)"
  by (auto simp: create_tenant_def intro: keyed_snoc)

lemma update_tenant_keyed: "keyed t_id (update_tenant tid n c w x e t) = keyed t_id t"
  by (simp add: update_tenant_def keyed_t_upd)

lemma delete_tenant_row_get:
  "get_tenant_full j (delete_tenant_row tid t) = (if j = tid then None else get_tenant_full j t)"
  by (simp add: get_tenant_full_def delete_tenant_row_def)

lemma list_tenants_full_sorted:
  "sorted (map t_created (list_tenants_full t))" "set (list_tenants_full t) = set t"
  by (simp_all add: list_tenants_full_def)

section \<open>Tokens\<close>

record token =
  k_id :: string
  k_tenant :: string
  k_hash :: string
  k_issued :: ms
  k_revoked :: "ms option"
  k_scopes :: "scope list option"
  k_note :: "string option"

type_synonym tokens = "token list"

definition token_active :: "ms \<Rightarrow> token \<Rightarrow> bool" where
  "token_active now k \<longleftrightarrow> (case k_revoked k of None \<Rightarrow> True | Some at \<Rightarrow> now < at)"

text \<open>Both the primary key and \<open>hash\<close> are unique.\<close>

definition insert_token ::
  "ms \<Rightarrow> string \<Rightarrow> string \<Rightarrow> string \<Rightarrow> scope list option \<Rightarrow> string option \<Rightarrow> tokens \<Rightarrow>
    exn + tokens" where
  "insert_token ts kid tenant h scopes note t =
     (if t_get k_id kid t \<noteq> None \<or> t_get k_hash h t \<noteq> None then Inl IntegrityError
      else Inr (t @ [\<lparr>k_id = kid, k_tenant = tenant, k_hash = h, k_issued = ts,
        k_revoked = None, k_scopes = scopes, k_note = note\<rparr>]))"

definition lookup_token ::
  "string \<Rightarrow> tokens \<Rightarrow> (string \<times> string \<times> ms option \<times> scope list option) option" where
  "lookup_token h t =
     map_option (\<lambda>k. (k_id k, k_tenant k, k_revoked k, k_scopes k)) (t_get k_hash h t)"

definition revoke_token :: "string \<Rightarrow> ms \<Rightarrow> tokens \<Rightarrow> tokens" where
  "revoke_token kid at t = t_upd (\<lambda>k. k_id k = kid) (\<lambda>k. k\<lparr>k_revoked := Some at\<rparr>) t"

definition revoke_all_tenant_tokens :: "ms \<Rightarrow> string \<Rightarrow> tokens \<Rightarrow> nat \<times> tokens" where
  "revoke_all_tenant_tokens ts tenant t =
     (length (filter (\<lambda>k. k_tenant k = tenant \<and> token_active ts k) t),
      t_upd (\<lambda>k. k_tenant k = tenant \<and> token_active ts k) (\<lambda>k. k\<lparr>k_revoked := Some ts\<rparr>) t)"

definition list_active_tokens :: "ms \<Rightarrow> string \<Rightarrow> tokens \<Rightarrow> (string \<times> ms \<times> ms option) list" where
  "list_active_tokens now tenant t =
     map (\<lambda>k. (k_id k, k_issued k, k_revoked k))
       (filter (\<lambda>k. k_tenant k = tenant \<and> token_active now k) t)"

definition count_active_tokens :: "ms \<Rightarrow> string \<Rightarrow> tokens \<Rightarrow> nat" where
  "count_active_tokens now tenant t =
     length (filter (\<lambda>k. k_tenant k = tenant \<and> token_active now k) t)"

definition list_tokens_full :: "string \<Rightarrow> tokens \<Rightarrow> token list" where
  "list_tokens_full tenant t = sort_key k_issued (filter (\<lambda>k. k_tenant k = tenant) t)"

definition get_token_by_id :: "string \<Rightarrow> tokens \<Rightarrow> token option" where
  "get_token_by_id kid t = t_get k_id kid t"

definition tokens_wf :: "tokens \<Rightarrow> bool" where
  "tokens_wf t \<longleftrightarrow> keyed k_id t \<and> keyed k_hash t"

lemma insert_token_wf:
  "tokens_wf t \<Longrightarrow> insert_token ts kid tenant h sc n t = Inr t' \<Longrightarrow> tokens_wf t'"
  by (auto simp: tokens_wf_def insert_token_def intro: keyed_snoc split: if_splits)

lemma revoke_token_wf: "tokens_wf (revoke_token kid at t) = tokens_wf t"
  by (simp add: tokens_wf_def revoke_token_def keyed_t_upd)

lemma revoke_all_wf: "tokens_wf (snd (revoke_all_tenant_tokens ts tenant t)) = tokens_wf t"
  by (simp add: tokens_wf_def revoke_all_tenant_tokens_def keyed_t_upd)

lemma revoke_all_none_active:
  "ts \<le> now \<Longrightarrow> count_active_tokens now tenant (snd (revoke_all_tenant_tokens ts tenant t)) = 0"
  by (induction t)
    (auto simp: count_active_tokens_def revoke_all_tenant_tokens_def token_active_def
      split: option.splits)

lemma revoke_all_count:
  "fst (revoke_all_tenant_tokens ts tenant t) = count_active_tokens ts tenant t"
  by (simp add: revoke_all_tenant_tokens_def count_active_tokens_def)

lemma revoke_all_other:
  "tenant' \<noteq> tenant \<Longrightarrow>
    count_active_tokens now tenant' (snd (revoke_all_tenant_tokens ts tenant t)) =
    count_active_tokens now tenant' t"
  unfolding count_active_tokens_def revoke_all_tenant_tokens_def snd_conv
  by (rule length_filter_t_upd) (auto simp: token_active_def)

section \<open>The interface of the authenticator\<close>

text \<open>
  What \<open>TokenAuthenticator\<close> needs of the registry: adding a token makes it findable by its
  hash, revoking a token changes nothing but the \<open>revoked_at\<close> of that token.
\<close>

locale token_store =
  fixes find :: "string \<Rightarrow> 't \<Rightarrow> (string \<times> string \<times> ms option \<times> scope list option) option"
    and add :: "ms \<Rightarrow> string \<Rightarrow> string \<Rightarrow> string \<Rightarrow> scope list option \<Rightarrow> string option \<Rightarrow> 't \<Rightarrow> exn + 't"
    and revoke :: "string \<Rightarrow> ms \<Rightarrow> 't \<Rightarrow> 't"
    and ok :: "'t \<Rightarrow> bool"
  assumes find_add: "ok t \<Longrightarrow> add ts kid tn h sc nt t = Inr t' \<Longrightarrow>
      find h' t' = (if h' = h then Some (kid, tn, None, sc) else find h' t)"
    and add_fresh: "ok t \<Longrightarrow> add ts kid tn h sc nt t = Inr t' \<Longrightarrow> find h t = None"
    and add_fresh_id: "ok t \<Longrightarrow> add ts kid tn h sc nt t = Inr t' \<Longrightarrow>
      find h' t = Some (kid', q) \<Longrightarrow> kid' \<noteq> kid"
    and find_revoke: "ok t \<Longrightarrow> find h (revoke kid at t) =
      map_option (\<lambda>(k, tn, rv, sc). (k, tn, if k = kid then Some at else rv, sc)) (find h t)"
    and ok_add: "ok t \<Longrightarrow> add ts kid tn h sc nt t = Inr t' \<Longrightarrow> ok t'"
    and ok_revoke: "ok t \<Longrightarrow> ok (revoke kid at t)"
begin

lemma rotate_finds:
  assumes "ok t" "find h t = Some (kid, tn, rv, sc)"
    and "add ts kid' tn' h' sc' nt t = Inr t'"
  shows "find h' (revoke kid at t') = Some (kid', tn', None, sc')"
    and "find h (revoke kid at t') = Some (kid, tn, Some at, sc)"
proof -
  have "kid \<noteq> kid'" using add_fresh_id [OF assms(1,3,2)] .
  moreover have "h \<noteq> h'" using add_fresh [OF assms(1,3)] assms(2) by auto
  ultimately show "find h' (revoke kid at t') = Some (kid', tn', None, sc')"
    "find h (revoke kid at t') = Some (kid, tn, Some at, sc)"
    using assms by (simp_all add: find_revoke ok_add [OF assms(1,3)] find_add [OF assms(1,3)])
qed

lemma rotate_others:
  assumes "ok t" "add ts kid' tn' h' sc' nt t = Inr t'" "h'' \<noteq> h'"
    and "find h'' t = Some (k, q)" "k \<noteq> kid"
  shows "find h'' (revoke kid at t') = Some (k, q)"
  using assms by (cases q)
    (simp add: find_revoke ok_add [OF assms(1,2)] find_add [OF assms(1,2)])

end

interpretation tok: token_store lookup_token insert_token revoke_token tokens_wf
proof unfold_locales
  fix t ts kid tn h sc nt t' h' kid' q
  assume "tokens_wf t" and ins: "insert_token ts kid tn h sc nt t = Inr t'"
  show "lookup_token h' t' = (if h' = h then Some (kid, tn, None, sc) else lookup_token h' t)"
    using ins by (auto simp: insert_token_def lookup_token_def split: if_splits option.splits)
  show "lookup_token h t = None"
    using ins by (auto simp: insert_token_def lookup_token_def split: if_splits)
  show "lookup_token h' t = Some (kid', q) \<Longrightarrow> kid' \<noteq> kid"
    using ins by (auto simp: insert_token_def lookup_token_def t_get_None dest: t_get_in
        split: if_splits)
  show "tokens_wf t'" using \<open>tokens_wf t\<close> ins by (rule insert_token_wf)
next
  fix t h kid at
  show "lookup_token h (revoke_token kid at t) =
    map_option (\<lambda>(k, tn, rv, sc). (k, tn, if k = kid then Some at else rv, sc)) (lookup_token h t)"
    by (induction t) (auto simp: lookup_token_def revoke_token_def)
qed (simp add: revoke_token_wf)

end
