(* ===== verification/RegIdempotency.thy ===== *)
theory RegIdempotency
  imports Models
begin

text \<open>
  The \<open>idempotency_keys\<close> table (\<open>api/registry.py\<close>) and the interface of a replay cache the
  middleware relies on.
\<close>

record idem_row =
  i_tenant :: string
  i_key :: string
  i_route :: string
  i_status :: int
  i_body :: string
  i_ctype :: string
  i_created :: ms
  i_expires :: ms

type_synonym idem_table = "idem_row list"

type_synonym cached = "string \<times> int \<times> string \<times> string"

definition idem_pk :: "idem_row \<Rightarrow> string \<times> string" where
  "idem_pk r = (i_tenant r, i_key r)"

definition lookup_idempotency :: "ms \<Rightarrow> string \<Rightarrow> string \<Rightarrow> idem_table \<Rightarrow> cached option" where
  "lookup_idempotency now tenant key t =
     (case filter (\<lambda>r. i_tenant r = tenant \<and> i_key r = key \<and> now < i_expires r) t of
        [] \<Rightarrow> None
      | r # _ \<Rightarrow> Some (i_route r, i_status r, i_body r, i_ctype r))"

text \<open>\<open>INSERT OR REPLACE\<close> deletes the row with the same primary key and inserts the new one.\<close>

definition store_idempotency ::
  "ms \<Rightarrow> int \<Rightarrow> string \<Rightarrow> string \<Rightarrow> cached \<Rightarrow> idem_table \<Rightarrow> idem_table" where
  "store_idempotency ts ttl_s tenant key c t =
     (case c of (route, status, body, ctype) \<Rightarrow>
        t_del (\<lambda>r. idem_pk r = (tenant, key)) t @
        [\<lparr>i_tenant = tenant, i_key = key, i_route = route, i_status = status, i_body = body,
          i_ctype = ctype, i_created = ts, i_expires = ts + ttl_s * 1000\<rparr>])"

definition purge_expired_idempotency :: "ms \<Rightarrow> idem_table \<Rightarrow> nat \<times> idem_table" where
  "purge_expired_idempotency now t =
     (length (filter (\<lambda>r. i_expires r \<le> now) t), t_del (\<lambda>r. i_expires r \<le> now) t)"

lemma store_idempotency_keyed:
  "keyed idem_pk t \<Longrightarrow> keyed idem_pk (store_idempotency ts ttl tn key c t)"
  by (cases c) (auto simp: store_idempotency_def idem_pk_def intro!: keyed_snoc keyed_t_del
      simp: t_get_None set_t_del)

lemma purge_keyed: "keyed idem_pk t \<Longrightarrow> keyed idem_pk (snd (purge_expired_idempotency now t))"
  by (simp add: purge_expired_idempotency_def keyed_t_del)

locale replay_cache =
  fixes lookup :: "ms \<Rightarrow> string \<Rightarrow> string \<Rightarrow> 'c \<Rightarrow> cached option"
    and store :: "ms \<Rightarrow> int \<Rightarrow> string \<Rightarrow> string \<Rightarrow> cached \<Rightarrow> 'c \<Rightarrow> 'c"
    and purge :: "ms \<Rightarrow> 'c \<Rightarrow> nat \<times> 'c"
  assumes lookup_store: "lookup now tn k (store ts ttl tn' k' c t) =
      (if tn = tn' \<and> k = k' then (if now < ts + ttl * 1000 then Some c else None)
       else lookup now tn k t)"
    and lookup_purge: "now \<le> now' \<Longrightarrow> lookup now' tn k (snd (purge now t)) = lookup now' tn k t"
    and lookup_expiry: "lookup now' tn k t = Some c \<Longrightarrow> now \<le> now' \<Longrightarrow> \<exists>c'. lookup now tn k t = Some c'"
begin

lemma replay_within_ttl:
  "now < ts + ttl * 1000 \<Longrightarrow> lookup now tn k (store ts ttl tn k c t) = Some c"
  by (simp add: lookup_store)

lemma expires: "ts + ttl * 1000 \<le> now \<Longrightarrow> lookup now tn k (store ts ttl tn k c t) = None"
  by (simp add: lookup_store)

lemma other_tenant: "tn \<noteq> tn' \<Longrightarrow> lookup now tn k (store ts ttl tn' k' c t) = lookup now tn k t"
  by (simp add: lookup_store)

lemma purge_keeps_replay:
  "now \<le> now' \<Longrightarrow> now' < ts + ttl * 1000 \<Longrightarrow>
    lookup now' tn k (snd (purge now (store ts ttl tn k c t))) = Some c"
  by (simp add: lookup_purge lookup_store)

end

lemma filter_del_other:
  "(\<And>r. P r \<Longrightarrow> \<not> Q r) \<Longrightarrow> filter P (t_del Q t) = filter P t"
  by (induction t) auto

lemma filter_del_self:
  "(\<And>r. P r \<Longrightarrow> Q r) \<Longrightarrow> filter P (t_del Q t) = []"
  by (induction t) auto

interpretation idem: replay_cache lookup_idempotency store_idempotency purge_expired_idempotency
proof unfold_locales
  fix now tn k ts ttl tn' k' and c :: cached and t :: idem_table
  show "lookup_idempotency now tn k (store_idempotency ts ttl tn' k' c t) =
      (if tn = tn' \<and> k = k' then (if now < ts + ttl * 1000 then Some c else None)
       else lookup_idempotency now tn k t)"
  proof (cases "tn = tn' \<and> k = k'")
    case True
    then have "filter (\<lambda>r. i_tenant r = tn \<and> i_key r = k \<and> now < i_expires r)
        (t_del (\<lambda>r. idem_pk r = (tn', k')) t) = []"
      by (intro filter_del_self) (auto simp: idem_pk_def)
    with True show ?thesis
      by (cases c) (simp add: lookup_idempotency_def store_idempotency_def)
  next
    case False
    then have "filter (\<lambda>r. i_tenant r = tn \<and> i_key r = k \<and> now < i_expires r)
        (t_del (\<lambda>r. idem_pk r = (tn', k')) t) =
        filter (\<lambda>r. i_tenant r = tn \<and> i_key r = k \<and> now < i_expires r) t"
      by (intro filter_del_other) (auto simp: idem_pk_def)
    with False show ?thesis
      by (cases c) (auto simp: lookup_idempotency_def store_idempotency_def)
  qed
next
  fix now now' :: ms and tn k and t :: idem_table
  assume "now \<le> now'"
  then have "filter (\<lambda>r. i_tenant r = tn \<and> i_key r = k \<and> now' < i_expires r)
      (t_del (\<lambda>r. i_expires r \<le> now) t) =
      filter (\<lambda>r. i_tenant r = tn \<and> i_key r = k \<and> now' < i_expires r) t"
    by (intro filter_del_other) auto
  then show "lookup_idempotency now' tn k (snd (purge_expired_idempotency now t)) =
      lookup_idempotency now' tn k t"
    by (simp add: lookup_idempotency_def purge_expired_idempotency_def)
next
  fix now now' :: ms and tn k c and t :: idem_table
  assume "lookup_idempotency now' tn k t = Some c" "now \<le> now'"
  then show "\<exists>c'. lookup_idempotency now tn k t = Some c'"
    by (induction t) (auto simp: lookup_idempotency_def split: list.splits if_splits)
qed

end
