(* ===== verification/RegProcesses.thy ===== *)
theory RegProcesses
  imports Models
begin

text \<open>The \<open>processes\<close> table of the registry (\<open>api/registry.py\<close>), one definition per method.\<close>

datatype pstate = P_RUNNING | P_EXITED

record process =
  p_id :: string
  p_session :: string
  p_tenant :: string
  p_name :: "string option"
  p_argv :: "string list"
  p_cwd :: "string option"
  p_restart :: string
  p_ospid :: "int option"
  p_log :: string
  p_exit :: string
  p_state :: pstate
  p_exit_code :: "int option"
  p_started :: ms
  p_exited :: "ms option"
  p_last_output :: "ms option"
  p_last_polled :: "ms option"

type_synonym processes = "process list"

definition new_process ::
  "ms \<Rightarrow> string \<Rightarrow> string \<Rightarrow> string \<Rightarrow> string option \<Rightarrow> string list \<Rightarrow> string option \<Rightarrow>
    int option \<Rightarrow> string \<Rightarrow> string \<Rightarrow> process" where
  "new_process ts pid sid tenant name argv cwd ospid log_path exit_path =
     \<lparr>p_id = pid, p_session = sid, p_tenant = tenant, p_name = name, p_argv = argv, p_cwd = cwd,
      p_restart = ''never'', p_ospid = ospid, p_log = log_path, p_exit = exit_path,
      p_state = P_RUNNING, p_exit_code = None, p_started = ts, p_exited = None,
      p_last_output = None, p_last_polled = Some ts\<rparr>"

definition insert_process :: "process \<Rightarrow> processes \<Rightarrow> exn + processes" where
  "insert_process p t = (if t_get p_id (p_id p) t \<noteq> None then Inl IntegrityError else Inr (t @ [p]))"

text \<open>The optional \<open>tenant_id\<close> filter.\<close>

definition tenant_matches :: "string option \<Rightarrow> process \<Rightarrow> bool" where
  "tenant_matches tenant p \<longleftrightarrow> (case tenant of None \<Rightarrow> True | Some tn \<Rightarrow> p_tenant p = tn)"

definition get_process :: "string \<Rightarrow> string \<Rightarrow> string option \<Rightarrow> processes \<Rightarrow> process option" where
  "get_process sid pid tenant t =
     (case filter (\<lambda>p. p_id p = pid \<and> p_session p = sid \<and> tenant_matches tenant p) t of
        [] \<Rightarrow> None | p # _ \<Rightarrow> Some p)"

definition list_processes :: "string \<Rightarrow> string option \<Rightarrow> processes \<Rightarrow> process list" where
  "list_processes sid tenant t =
     sort_key p_started (filter (\<lambda>p. p_session p = sid \<and> tenant_matches tenant p) t)"

definition count_running_processes :: "string \<Rightarrow> processes \<Rightarrow> int" where
  "count_running_processes sid t =
     int (length (filter (\<lambda>p. p_session p = sid \<and> p_state p = P_RUNNING) t))"

definition list_running_processes_unscoped :: "string \<Rightarrow> processes \<Rightarrow> process list" where
  "list_running_processes_unscoped sid t =
     filter (\<lambda>p. p_session p = sid \<and> p_state p = P_RUNNING) t"

definition mark_process_exited ::
  "ms \<Rightarrow> string \<Rightarrow> int option \<Rightarrow> ms option \<Rightarrow> processes \<Rightarrow> processes" where
  "mark_process_exited ts pid code last_output t =
     t_upd (\<lambda>p. p_id p = pid \<and> p_state p = P_RUNNING)
       (\<lambda>p. p\<lparr>p_state := P_EXITED, p_exit_code := code, p_exited := Some ts,
              p_last_polled := Some ts,
              p_last_output := (case last_output of None \<Rightarrow> p_last_output p | Some x \<Rightarrow> Some x)\<rparr>) t"

definition touch_process_polled :: "ms \<Rightarrow> string \<Rightarrow> processes \<Rightarrow> processes" where
  "touch_process_polled ts pid t = t_upd (\<lambda>p. p_id p = pid) (\<lambda>p. p\<lparr>p_last_polled := Some ts\<rparr>) t"

definition delete_process :: "string \<Rightarrow> string \<Rightarrow> processes \<Rightarrow> processes" where
  "delete_process sid pid t = t_del (\<lambda>p. p_session p = sid \<and> p_id p = pid) t"

text \<open>
  Well-formed tables: unique ids; a running row has no exit code and no exit time, an exited
  one has an exit time.
\<close>

definition process_ok :: "process \<Rightarrow> bool" where
  "process_ok p \<longleftrightarrow>
     (p_state p = P_RUNNING \<longrightarrow> p_exit_code p = None \<and> p_exited p = None) \<and>
     (p_state p = P_EXITED \<longrightarrow> p_exited p \<noteq> None)"

definition processes_wf :: "processes \<Rightarrow> bool" where
  "processes_wf t \<longleftrightarrow> keyed p_id t \<and> list_all process_ok t"

lemma processes_wf_Nil [simp]: "processes_wf []"
  by (simp add: processes_wf_def)

lemma insert_process_wf:
  "processes_wf t \<Longrightarrow> insert_process (new_process ts pid sid tn nm argv cwd os lp ep) t = Inr t' \<Longrightarrow>
    processes_wf t'"
  by (auto simp: insert_process_def processes_wf_def process_ok_def new_process_def
      intro!: keyed_snoc split: if_splits)

lemma mark_process_exited_wf: "processes_wf t \<Longrightarrow> processes_wf (mark_process_exited ts pid c lo t)"
  by (auto simp: processes_wf_def mark_process_exited_def keyed_t_upd list_all_iff set_t_upd
      process_ok_def)

lemma touch_process_polled_wf: "processes_wf t \<Longrightarrow> processes_wf (touch_process_polled ts pid t)"
  by (auto simp: processes_wf_def touch_process_polled_def keyed_t_upd list_all_iff set_t_upd
      process_ok_def)

lemma delete_process_wf: "processes_wf t \<Longrightarrow> processes_wf (delete_process sid pid t)"
  by (auto simp: processes_wf_def delete_process_def keyed_t_del list_all_iff set_t_del)

lemma mark_exited_count_le:
  "count_running_processes sid (mark_process_exited ts pid c lo t) \<le> count_running_processes sid t"
  by (induction t) (auto simp: count_running_processes_def mark_process_exited_def)

lemma mark_exited_first_wins:
  "mark_process_exited ts' pid c' lo' (mark_process_exited ts pid c lo t) =
    mark_process_exited ts pid c lo t"
  by (induction t) (auto simp: mark_process_exited_def)

lemma delete_process_gone: "get_process sid pid tenant (delete_process sid pid t) = None"
  by (induction t) (auto simp: get_process_def delete_process_def split: list.splits)

lemma delete_process_other:
  "sid' \<noteq> sid \<or> pid' \<noteq> pid \<Longrightarrow>
    get_process sid' pid' tenant (delete_process sid pid t) = get_process sid' pid' tenant t"
  by (induction t) (auto simp: get_process_def delete_process_def split: list.splits)

lemma count_running_insert:
  "insert_process p t = Inr t' \<Longrightarrow> count_running_processes sid t' =
    count_running_processes sid t + (if p_session p = sid \<and> p_state p = P_RUNNING then 1 else 0)"
  by (auto simp: insert_process_def count_running_processes_def split: if_splits)

lemma count_running_list: "count_running_processes sid t = int (length (list_running_processes_unscoped sid t))"
  by (simp add: count_running_processes_def list_running_processes_unscoped_def)

end
