(* ===== verification/TextLib.thy ===== *)
theory TextLib
  imports Prelude
begin

text \<open>
  The operations on text that the service takes from Python's standard library: decimal
  rendering and parsing, \<open>str.strip\<close>, \<open>str.splitlines\<close>, decoding of UTF-8 with replacement, and
  base64. Text is the list of its UTF-8 bytes. Only ASCII digits count as digits, and only ASCII
  characters as white space or line breaks.
\<close>

section \<open>Decimal numbers\<close>

definition digit_char :: "nat \<Rightarrow> char" where
  "digit_char n = char_of (48 + n)"

definition is_digit :: "char \<Rightarrow> bool" where
  "is_digit c \<longleftrightarrow> 48 \<le> (of_char c :: nat) \<and> (of_char c :: nat) \<le> 57"

definition digit_val :: "char \<Rightarrow> nat" where
  "digit_val c = of_char c - 48"

text \<open>The digits of a number in a base between 2 and 10.\<close>

function radix :: "nat \<Rightarrow> nat \<Rightarrow> string" where
  "radix b n = (if n < b \<or> b < 2 then [digit_char n] else radix b (n div b) @ [digit_char (n mod b)])"
  by pat_completeness auto
termination
  by (relation "measure snd") auto

declare radix.simps [simp del]

definition digits :: "nat \<Rightarrow> string" where
  "digits n = radix 10 n"

definition str_int :: "int \<Rightarrow> string" where
  "str_int i = (if i < 0 then ''-'' @ digits (nat (- i)) else digits (nat i))"

text \<open>\<open>s.isdigit()\<close> and \<open>int(s)\<close> on digits.\<close>

definition isdigit :: "string \<Rightarrow> bool" where
  "isdigit s \<longleftrightarrow> s \<noteq> [] \<and> list_all is_digit s"

definition digits_val :: "nat \<Rightarrow> string \<Rightarrow> nat" where
  "digits_val base s = foldl (\<lambda>n c. base * n + digit_val c) 0 s"

lemma digit_char_simps [simp]: "n < 10 \<Longrightarrow> is_digit (digit_char n)" "n < 10 \<Longrightarrow> digit_val (digit_char n) = n"
  by (simp_all add: is_digit_def digit_char_def digit_val_def)

lemma digit_char_val: "n < 10 \<Longrightarrow> digit_val (digit_char n) = n \<and> is_digit (digit_char n)"
  by simp

definition below :: "nat \<Rightarrow> char \<Rightarrow> bool" where
  "below b c \<longleftrightarrow> is_digit c \<and> digit_val c < b"

lemma below_digit_char: "n < b \<Longrightarrow> b \<le> 10 \<Longrightarrow> below b (digit_char n)"
  by (simp add: below_def)

lemma radix_digits: "2 \<le> b \<Longrightarrow> b \<le> 10 \<Longrightarrow> radix b n \<noteq> [] \<and> list_all (below b) (radix b n)"
proof (induction b n rule: radix.induct)
  case (1 b n)
  have "n mod b < b" using 1(2) by simp
  with 1 show ?case by (subst (1 2) radix.simps) (auto simp: below_digit_char)
qed

lemma digits_val_radix: "2 \<le> b \<Longrightarrow> b \<le> 10 \<Longrightarrow> digits_val b (radix b n) = n"
proof (induction b n rule: radix.induct)
  case (1 b n)
  show ?case
  proof (cases "n < b")
    case True
    with 1 show ?thesis by (subst radix.simps) (simp add: digits_val_def)
  next
    case False
    have "n mod b < b" using 1(2) by simp
    then have "n mod b < 10" using 1(3) by linarith
    moreover from False 1 have "digits_val b (radix b (n div b)) = n div b" by simp
    ultimately show ?thesis using False 1(2,3) by (subst radix.simps) (simp add: digits_val_def)
  qed
qed

lemma isdigit_digits: "isdigit (digits n)"
  using radix_digits [of 10 n] by (auto simp: digits_def isdigit_def list_all_iff below_def)

lemma digits_val_digits: "digits_val 10 (digits n) = n"
  by (simp add: digits_def digits_val_radix)

text \<open>
  \<open>int(s, base)\<close> for a base up to 10: white space around, a sign, and digits with single
  underscores between them. \<open>None\<close> is \<open>ValueError\<close>. A prefix such as \<open>0o\<close> is not covered.
\<close>

definition unsigned_of :: "nat \<Rightarrow> string \<Rightarrow> nat option" where
  "unsigned_of b s =
     (let parts = split_on (CHR ''_'') s in
      if list_all (\<lambda>p. p \<noteq> [] \<and> list_all (below b) p) parts then Some (digits_val b (concat parts))
      else None)"

definition is_space :: "char \<Rightarrow> bool" where
  "is_space c \<longleftrightarrow> (let n = (of_char c :: nat) in n = 32 \<or> 9 \<le> n \<and> n \<le> 13 \<or> 28 \<le> n \<and> n \<le> 31)"

definition strip :: "string \<Rightarrow> string" where
  "strip s = rev (dropWhile is_space (rev (dropWhile is_space s)))"

definition int_of :: "nat \<Rightarrow> string \<Rightarrow> int option" where
  "int_of b s =
     (let t = strip s in
      if take 1 t = ''-'' then map_option (\<lambda>n. - int n) (unsigned_of b (tl t))
      else if take 1 t = ''+'' then map_option int (unsigned_of b (tl t))
      else map_option int (unsigned_of b t))"

lemma digit_not_space: "is_digit c \<Longrightarrow> \<not> is_space c"
  by (auto simp: is_digit_def is_space_def Let_def)

lemma strip_id: "list_all (\<lambda>c. \<not> is_space c) s \<Longrightarrow> strip s = s"
proof -
  assume a: "list_all (\<lambda>c. \<not> is_space c) s"
  have "dropWhile is_space t = t" if "set t = set s" for t
  proof -
    have "t = [] \<or> \<not> is_space (hd t)" using a that by (cases t) (auto simp: list_all_iff)
    then show ?thesis by (cases t) auto
  qed
  from this [of s] this [of "rev s"] show ?thesis by (simp add: strip_def)
qed

lemma is_digit_ne: "is_digit c \<Longrightarrow> c \<noteq> CHR ''_'' \<and> c \<noteq> CHR ''-'' \<and> c \<noteq> CHR ''+''"
  by (auto simp: is_digit_def)

lemma int_of_digits:
  assumes "s \<noteq> []" "list_all (below b) s"
  shows "int_of b s = Some (int (digits_val b s))"
proof -
  have d: "\<And>c. c \<in> set s \<Longrightarrow> is_digit c" using assms(2) by (auto simp: list_all_iff below_def)
  then have "strip s = s" by (intro strip_id) (auto simp: list_all_iff digit_not_space)
  moreover have "split_on (CHR ''_'') s = [s]"
    by (rule split_on_id) (use d is_digit_ne in blast)
  moreover have "take 1 s \<noteq> ''-''" "take 1 s \<noteq> ''+''"
    using assms(1) d is_digit_ne by (cases s; auto)+
  ultimately show ?thesis using assms by (simp add: int_of_def unsigned_of_def)
qed

lemma int_of_radix: "2 \<le> b \<Longrightarrow> b \<le> 10 \<Longrightarrow> int_of b (radix b n) = Some (int n)"
  using int_of_digits [of "radix b n" b] radix_digits [of b n] by (simp add: digits_val_radix)

section \<open>White space and lines\<close>

definition in_range :: "nat \<Rightarrow> nat \<Rightarrow> char \<Rightarrow> bool" where
  "in_range a b c \<longleftrightarrow> a \<le> (of_char c :: nat) \<and> (of_char c :: nat) \<le> b"

definition is_linebreak :: "char \<Rightarrow> bool" where
  "is_linebreak c \<longleftrightarrow> (let n = (of_char c :: nat) in 10 \<le> n \<and> n \<le> 13 \<or> 28 \<le> n \<and> n \<le> 30)"

text \<open>
  The length of the line break at the head of a text, 0 if there is none. A carriage return with a
  line feed after it is one break; next line, line separator and paragraph separator take several
  bytes.
\<close>

definition break_len :: "string \<Rightarrow> nat" where
  "break_len s =
     (if take 2 s = [CHR 0x0D, CHR 0x0A] then 2
      else if s \<noteq> [] \<and> is_linebreak (hd s) then 1
      else if take 2 s = [CHR 0xC2, CHR 0x85] then 2
      else if take 3 s = [CHR 0xE2, CHR 0x80, CHR 0xA8] \<or> take 3 s = [CHR 0xE2, CHR 0x80, CHR 0xA9] then 3
      else 0)"

text \<open>No line follows the last break.\<close>

function splitlines_acc :: "string \<Rightarrow> string \<Rightarrow> string list" where
  "splitlines_acc cur [] = (if cur = [] then [] else [rev cur])"
| "splitlines_acc cur (c # s) =
     (if break_len (c # s) = 0 then splitlines_acc (c # cur) s
      else rev cur # splitlines_acc [] (drop (break_len (c # s)) (c # s)))"
  by pat_completeness auto
termination
  by (relation "measure (length \<circ> snd)") auto

declare splitlines_acc.simps [simp del]

definition splitlines :: "string \<Rightarrow> string list" where
  "splitlines s = splitlines_acc [] s"

fun plain_line :: "string \<Rightarrow> bool" where
  "plain_line [] = True"
| "plain_line (c # s) = (break_len (c # s) = 0 \<and> plain_line s)"

lemma break_len_newline [simp]: "break_len (CHR 0x0A # s) = 1"
  by (simp add: break_len_def is_linebreak_def)

lemma break_len_cr: "break_len (CHR 0x0D # s) \<noteq> 0"
  by (simp add: break_len_def is_linebreak_def)

lemma break_len_append: "c \<noteq> CHR 0x0D \<Longrightarrow> break_len (c # w @ CHR 0x0A # s) = break_len (c # w)"
  by (cases w; cases "tl w") (auto simp: break_len_def)

lemma splitlines_acc_line:
  "plain_line w \<Longrightarrow> splitlines_acc cur (w @ CHR 0x0A # s) = (rev cur @ w) # splitlines_acc [] s"
proof (induction w arbitrary: cur)
  case Nil
  show ?case by (simp add: splitlines_acc.simps)
next
  case (Cons c w)
  then have "c \<noteq> CHR 0x0D" using break_len_cr [of w] by auto
  with Cons show ?case by (simp add: splitlines_acc.simps break_len_append)
qed

lemma splitlines_lines:
  "list_all plain_line ws \<Longrightarrow> splitlines (concat (map (\<lambda>w. w @ [CHR 0x0A]) ws)) = ws"
  unfolding splitlines_def by (induction ws) (simp_all add: splitlines_acc_line splitlines_acc.simps)

lemma plain_line_append:
  "list_all (\<lambda>c. in_range 32 126 c) v \<Longrightarrow> plain_line w \<Longrightarrow> plain_line (v @ w)"
  by (induction v) (auto simp: break_len_def is_linebreak_def in_range_def)

section \<open>UTF-8\<close>

text \<open>The ranges of the bytes that may follow a lead byte; \<open>None\<close> for a byte that cannot lead.\<close>

definition followers :: "char \<Rightarrow> (char \<Rightarrow> bool) list option" where
  "followers c =
     (let n = (of_char c :: nat); t = in_range 128 191 in
      if n < 128 then Some []
      else if n < 194 then None
      else if n < 224 then Some [t]
      else if n = 224 then Some [in_range 160 191, t]
      else if n = 237 then Some [in_range 128 159, t]
      else if n < 240 then Some [t, t]
      else if n = 240 then Some [in_range 144 191, t, t]
      else if n < 244 then Some [t, t, t]
      else if n = 244 then Some [in_range 128 143, t, t]
      else None)"

fun match_prefix :: "(char \<Rightarrow> bool) list \<Rightarrow> string \<Rightarrow> nat" where
  "match_prefix (p # ps) (c # s) = (if p c then Suc (match_prefix ps s) else 0)"
| "match_prefix _ _ = 0"

definition REPLACEMENT :: string where
  "REPLACEMENT = [CHR 0xEF, CHR 0xBF, CHR 0xBD]"

text \<open>Each maximal ill-formed part becomes one replacement character.\<close>

function decode_replace :: "string \<Rightarrow> string" where
  "decode_replace [] = []"
| "decode_replace (c # s) =
     (case followers c of
        None \<Rightarrow> REPLACEMENT @ decode_replace s
      | Some ps \<Rightarrow>
          let k = match_prefix ps s in
          (if k = length ps then c # take k s else REPLACEMENT) @ decode_replace (drop k s))"
  by pat_completeness auto
termination
  by (relation "measure length") auto

lemma decode_replace_ascii: "list_all (in_range 0 127) s \<Longrightarrow> decode_replace s = s"
  by (induction s) (simp_all add: followers_def in_range_def)

declare decode_replace.simps [simp del]

lemma decode_replace_Nil [simp]: "decode_replace [] = []"
  by (simp add: decode_replace.simps)

text \<open>Well-formed UTF-8, which decoding leaves alone.\<close>

function utf8 :: "string \<Rightarrow> bool" where
  "utf8 [] = True"
| "utf8 (c # s) =
     (case followers c of
        None \<Rightarrow> False
      | Some ps \<Rightarrow> match_prefix ps s = length ps \<and> utf8 (drop (length ps) s))"
  by pat_completeness auto
termination
  by (relation "measure length") auto

declare utf8.simps(2) [simp del]

lemma match_prefix_all:
  "match_prefix ps s = length ps \<Longrightarrow> match_prefix ps (s @ t) = length ps \<and> length ps \<le> length s"
  by (induction ps s rule: match_prefix.induct) (auto split: if_splits)

lemma utf8_append: "utf8 s \<Longrightarrow> utf8 t \<Longrightarrow> utf8 (s @ t)"
  by (induction s rule: utf8.induct) (auto simp: utf8.simps(2) match_prefix_all split: option.splits)

lemma utf8_decode: "utf8 s \<Longrightarrow> decode_replace (s @ t) = s @ decode_replace t"
  by (induction s rule: utf8.induct)
    (auto simp: utf8.simps(2) decode_replace.simps(2) match_prefix_all Let_def split: option.splits)

lemma utf8_ascii: "list_all (in_range 0 127) s \<Longrightarrow> utf8 s"
  by (induction s) (simp_all add: utf8.simps(2) followers_def in_range_def)

lemma utf8_concat: "list_all utf8 ws \<Longrightarrow> utf8 (concat ws)"
  by (induction ws) (simp_all add: utf8_append)

lemma utf8_id: "utf8 s \<Longrightarrow> decode_replace s = s"
  using utf8_decode [of s "[]"] by simp

section \<open>Base64\<close>

definition B64 :: string where
  "B64 = ''ABCDEFGHIJKLMNOPQRSTUVWXYZabcdefghijklmnopqrstuvwxyz0123456789+/''"

definition b64_char :: "nat \<Rightarrow> char" where
  "b64_char n = B64 ! n"

definition b64_val :: "char \<Rightarrow> nat option" where
  "b64_val c = map_of (zip B64 [0..<64]) c"

fun b64encode :: "string \<Rightarrow> string" where
  "b64encode (a # b # c # s) =
     (let n = of_char a * 65536 + of_char b * 256 + of_char c in
      [b64_char (n div 262144), b64_char (n div 4096 mod 64), b64_char (n div 64 mod 64),
       b64_char (n mod 64)] @ b64encode s)"
| "b64encode [a, b] =
     (let n = of_char a * 65536 + of_char b * 256 in
      [b64_char (n div 262144), b64_char (n div 4096 mod 64), b64_char (n div 64 mod 64), CHR ''=''])"
| "b64encode [a] =
     (let n = of_char a * 65536 in
      [b64_char (n div 262144), b64_char (n div 4096 mod 64), CHR ''='', CHR ''=''])"
| "b64encode [] = []"

text \<open>
  \<open>b64decode(s, validate=True)\<close>: groups of four, padding only in the last one; \<open>None\<close> is an error.
\<close>

definition b64_quad :: "nat \<Rightarrow> nat \<Rightarrow> nat \<Rightarrow> nat \<Rightarrow> string" where
  "b64_quad i j k l =
     (let n = i * 262144 + j * 4096 + k * 64 + l in
      [char_of (n div 65536), char_of (n div 256 mod 256), char_of (n mod 256)])"

fun b64decode :: "string \<Rightarrow> string option" where
  "b64decode [] = Some []"
| "b64decode (a # b # c # d # s) =
     (case (b64_val a, b64_val b) of
        (Some i, Some j) \<Rightarrow>
          if c = CHR ''='' \<and> d = CHR ''='' then (if s = [] then Some (take 1 (b64_quad i j 0 0)) else None)
          else (case b64_val c of
             None \<Rightarrow> None
           | Some k \<Rightarrow>
               if d = CHR ''='' then (if s = [] then Some (take 2 (b64_quad i j k 0)) else None)
               else (case b64_val d of
                  None \<Rightarrow> None
                | Some l \<Rightarrow> map_option (\<lambda>r. b64_quad i j k l @ r) (b64decode s)))
      | _ \<Rightarrow> None)"
| "b64decode _ = None"

lemma b64_table: "list_all (\<lambda>n. b64_val (b64_char n) = Some n \<and> b64_char n \<noteq> CHR ''='') [0..<64]"
  by code_simp

lemma b64_val_char [simp]: "n < 64 \<Longrightarrow> b64_val (b64_char n) = Some n" "n < 64 \<Longrightarrow> b64_char n \<noteq> CHR ''=''"
  using b64_table by (auto simp: list_all_iff)

lemma of_char_byte: "(of_char (c :: char) :: nat) < 256"
  by (cases c) (simp add: of_char_def horner_sum_foldr)

lemma quad_split:
  fixes n :: nat
  shows "n div 262144 * 262144 + n div 4096 mod 64 * 4096 + n div 64 mod 64 * 64 + n mod 64 = n"
proof -
  have q: "m div 64 * 64 + m mod 64 = m" for m :: nat by simp
  have e: "n div 4096 = n div 64 div 64" "n div 262144 = n div 64 div 64 div 64"
    by (simp_all add: div_mult2_eq [symmetric])
  show ?thesis
    unfolding e using q [of n] q [of "n div 64"] q [of "n div 64 div 64"] by linarith
qed

lemma bytes_split:
  fixes a b c :: nat
  assumes "a < 256" "b < 256" "c < 256"
  shows "(a * 65536 + b * 256 + c) div 65536 = a" "(a * 65536 + b * 256 + c) div 256 mod 256 = b"
    "(a * 65536 + b * 256 + c) mod 256 = c" "(a * 65536 + b * 256 + c) div 262144 < 64"
proof -
  have "b * 256 + c < 65536" using assms by linarith
  then have "(a * 65536 + (b * 256 + c)) div 65536 = a" by simp
  then show "(a * 65536 + b * 256 + c) div 65536 = a" by (simp add: add.assoc)
  have n: "a * 65536 + b * 256 + c = (a * 256 + b) * 256 + c" by simp
  have d: "(x * 256 + y) div 256 = x" "(x * 256 + y) mod 256 = y" if "y < 256" for x y :: nat
    using that by simp_all
  show "(a * 65536 + b * 256 + c) div 256 mod 256 = b" "(a * 65536 + b * 256 + c) mod 256 = c"
    unfolding n d [OF assms(3)] d [OF assms(2)] by (rule refl)+
  have "a * 65536 + b * 256 + c < 16777216" using assms by linarith
  then show "(a * 65536 + b * 256 + c) div 262144 < 64" by simp
qed

lemma b64_quad_join:
  assumes "a < 256" "b < 256" "c < 256" "n = a * 65536 + b * 256 + c"
  shows "b64_quad (n div 262144) (n div 4096 mod 64) (n div 64 mod 64) (n mod 64) =
    [char_of a, char_of b, char_of c]"
  using bytes_split [OF assms(1-3)] unfolding b64_quad_def quad_split Let_def assms(4) by simp

lemma b64_round_trip: "b64decode (b64encode s) = Some s"
proof (induction s rule: b64encode.induct)
  case (1 a b c s)
  note bytes = of_char_byte [of a] of_char_byte [of b] of_char_byte [of c]
  define n :: nat where "n = of_char a * 65536 + of_char b * 256 + of_char c"
  have "n div 262144 < 64" unfolding n_def by (rule bytes_split(4) [OF bytes])
  with 1 b64_quad_join [OF bytes n_def] show ?case
    by (simp add: Let_def flip: n_def)
next
  case (2 a b)
  note bytes = of_char_byte [of a] of_char_byte [of b]
  define n :: nat where "n = of_char a * 65536 + of_char b * 256"
  have n: "n = of_char a * 65536 + of_char b * 256 + 0" by (simp add: n_def)
  have "n = (of_char a * 1024 + of_char b * 4) * 64" by (simp add: n_def)
  then have "n mod 64 = 0" by simp
  moreover have "n div 262144 < 64" unfolding n by (rule bytes_split(4) [OF bytes]) simp
  ultimately show ?case using b64_quad_join [OF bytes _ n] by (simp add: Let_def flip: n_def)
next
  case (3 a)
  note bytes = of_char_byte [of a]
  define n :: nat where "n = of_char a * 65536"
  have n: "n = of_char a * 65536 + 0 * 256 + 0" by (simp add: n_def)
  have "n = of_char a * 1024 * 64" by (simp add: n_def)
  then have "n mod 64 = 0" "n div 64 = of_char a * 1024" by simp_all
  moreover have "of_char a * 1024 mod 64 = (0::nat)" by (simp add: mod_mult_left_eq mult.commute mod_mult_right_eq)
  moreover have "n div 262144 < 64" unfolding n by (rule bytes_split(4) [OF bytes]) simp_all
  ultimately show ?case using b64_quad_join [OF bytes _ _ n] by (simp add: Let_def flip: n_def)
qed simp

end
