(* ===== verification/Outside.thy ===== *)
theory Outside
  imports Models TextLib
begin

text \<open>
  What lies outside the program: the clock, random identifiers, the disk, the operator's
  scripts and the Docker SDK. All of it is one record of operations, the parameter \<open>E\<close> of the
  model. They act on a state of an arbitrary type \<open>'x\<close> that only they can see; an operation that
  can fail raises. Bytes and text are both \<open>string\<close>, text as its UTF-8 bytes.
\<close>

type_synonym labels = "(string \<times> string) list"

text \<open>Keyword arguments of \<open>containers.create\<close>.\<close>

record container_flags =
  f_image :: string
  f_name :: string
  f_detach :: bool
  f_read_only :: bool
  f_tmpfs :: "(string \<times> string) list"
  f_volumes :: "(string \<times> string \<times> string) list"
  f_user :: string
  f_working_dir :: string
  f_cap_drop :: "string list"
  f_security_opt :: "string list"
  f_pids_limit :: int
  f_mem_limit_mib :: int
  f_nano_cpus :: int
  f_network :: string
  f_environment :: "(string \<times> string) list"
  f_nofile :: "int \<times> int"
  f_entrypoint :: "string list"
  f_labels :: labels
  f_runtime :: "string option"

text \<open>Arguments of \<open>exec_create\<close> after the container.\<close>

record exec_opts =
  x_cmd :: "string list"
  x_env :: "(string \<times> string) list"
  x_workdir :: "string option"
  x_user :: string
  x_privileged :: bool
  x_stdin :: bool
  x_stdout :: bool
  x_stderr :: bool

text \<open>An element of \<open>containers.list\<close> or \<open>volumes.list\<close> and a member of a tar archive.\<close>

record resource =
  d_name :: string
  d_id :: string
  d_created_iso :: string
  d_labels :: labels

datatype member_kind = M_file | M_dir | M_other

record tar_member =
  m_name :: string
  m_size :: int
  m_mode :: int
  m_uid :: int
  m_gid :: int
  m_kind :: member_kind
  m_content :: string

text \<open>The part of a stats snapshot that \<open>container_stats\<close> reads, absent keys as \<open>None\<close>.\<close>

record raw_stats =
  q_cpu_total :: "int option"
  q_precpu_total :: "int option"
  q_sys_total :: "int option"
  q_presys_total :: "int option"
  q_online_cpus :: "int option"
  q_mem_usage :: "int option"
  q_mem_cache :: "int option"
  q_mem_limit :: "int option"
  q_blkio :: "(string \<times> int) list"

text \<open>
  A chunk of a demultiplexed output stream: the bytes of stdout and of stderr. A stream may break
  off: \<open>o_exec_stream\<close> returns the chunks it delivered and the exception that ended it, if any.
\<close>

type_synonym chunk = "string option \<times> string option"

record 'x sdk =
  o_ping :: "('x, exn, unit) M"
  o_runtimes :: "('x, exn, string list) M"
  o_network_get :: "string \<Rightarrow> ('x, exn, unit) M"
  o_network_create :: "string \<Rightarrow> labels \<Rightarrow> ('x, exn, unit) M"
  o_volume_create :: "string \<Rightarrow> (string \<times> string) list option \<Rightarrow> labels \<Rightarrow> ('x, exn, unit) M"
  o_volume_get :: "string \<Rightarrow> ('x, exn, unit) M"
  o_volume_remove :: "string \<Rightarrow> ('x, exn, unit) M"
  o_volumes_list :: "string \<Rightarrow> ('x, exn, resource list) M"
  o_container_get :: "string \<Rightarrow> ('x, exn, unit) M"
  o_container_create :: "container_flags \<Rightarrow> ('x, exn, string) M"
  o_container_start :: "string \<Rightarrow> ('x, exn, unit) M"
  o_container_stop :: "string \<Rightarrow> int \<Rightarrow> ('x, exn, unit) M"
  o_container_remove :: "string \<Rightarrow> ('x, exn, unit) M"
  o_container_stats :: "string \<Rightarrow> ('x, exn, raw_stats) M"
  o_containers_list :: "string \<Rightarrow> ('x, exn, resource list) M"
  o_exec_create :: "string \<Rightarrow> exec_opts \<Rightarrow> ('x, exn, string) M"
  o_exec_start :: "string \<Rightarrow> ('x, exn, string option \<times> string option) M"
  o_exec_stream :: "string \<Rightarrow> ('x, exn, chunk list \<times> exn option) M"
  o_exec_detach :: "string \<Rightarrow> ('x, exn, unit) M"
  o_exec_inspect :: "string \<Rightarrow> ('x, exn, int option) M"
  o_sock_open :: "string \<Rightarrow> ('x, exn, unit) M"
  o_sock_send :: "string \<Rightarrow> string \<Rightarrow> ('x, exn, unit) M"
  o_sock_frames :: "string \<Rightarrow> ('x, exn, (nat \<times> string) list) M"
  o_put_archive :: "string \<Rightarrow> string \<Rightarrow> tar_member \<Rightarrow> ('x, exn, unit) M"
  o_get_archive :: "string \<Rightarrow> string \<Rightarrow> ('x, exn, tar_member list) M"

text \<open>Lines of the audit log: a record of \<open>emit\<close>, or the heartbeat of a maintenance tick.\<close>

record audit_rec =
  a_ts :: ms
  a_kind :: string
  a_tenant :: string
  a_session :: "string option"
  a_actor :: "string option"
  a_payload :: json
  a_result :: string
  a_duration :: "int option"

datatype audit_line = Rec audit_rec | Heartbeat ms

text \<open>
  \<open>o_write\<close> appends one line to the audit log and says whether that succeeded; a failed append
  leaves the log as it was. \<open>o_fallback\<close> appends lines to the fallback file: \<open>None\<close> when all
  are written, \<open>Some k\<close> when an error comes after \<open>k\<close> of them. \<open>o_hash\<close> is the keyed hash of
  tokens, \<open>o_hook\<close> runs an operator script and returns its exit code; \<open>o_now\<close> is in milliseconds,
  \<open>o_mono\<close> in nanoseconds.
\<close>

record 'x ctx =
  cfg :: settings
  dk :: "'x sdk"
  o_now :: "'x \<Rightarrow> ms \<times> 'x"
  o_mono :: "'x \<Rightarrow> int \<times> 'x"
  o_sleep :: "int \<Rightarrow> 'x \<Rightarrow> 'x"
  o_ulid :: "'x \<Rightarrow> string \<times> 'x"
  o_secret :: "'x \<Rightarrow> string \<times> 'x"
  o_hash :: "string \<Rightarrow> string \<Rightarrow> string"
  o_write :: "audit_line \<Rightarrow> 'x \<Rightarrow> bool \<times> 'x"
  o_fallback :: "audit_line list \<Rightarrow> 'x \<Rightarrow> nat option \<times> 'x"
  o_hook :: "string \<Rightarrow> (string \<times> string) list \<Rightarrow> ('x, exn, int) M"
  o_mkdir :: "string \<Rightarrow> ('x, exn, unit) M"
  o_chown :: "string \<Rightarrow> int \<Rightarrow> ('x, exn, unit) M"
  o_chmod :: "string \<Rightarrow> int \<Rightarrow> ('x, exn, unit) M"

text \<open>An operation that cannot fail, as an effect.\<close>

definition readM :: "('s \<Rightarrow> 'a \<times> 's) \<Rightarrow> ('s, 'e, 'a) M" where
  "readM f s = (case f s of (x, s') \<Rightarrow> (Inr x, s'))"

text \<open>\<open>except NotFound: return\<close>.\<close>

definition ignore_not_found :: "('s, exn, unit) M \<Rightarrow> ('s, exn, unit) M" where
  "ignore_not_found m = tryM m (\<lambda>e. if is_docker_not_found e then ret () else raise e)"

end
