(* ===== verification/Testbed.thy ===== *)
theory Testbed
  imports Outside
begin

text \<open>
  One outside on which the examples run: a clock, counters for identifiers, an audit disk that
  works or not, and a Docker daemon that keeps the containers, volumes and files it was asked for and
  answers every execution with a fixed output. It only serves to exhibit concrete runs; nothing
  is proved about it and no property assumes it.
\<close>

record tb =
  tb_clock :: int
  tb_next :: nat
  tb_containers :: "string list"
  tb_volumes :: "string list"
  tb_disk :: bool
  tb_chunks :: "chunk list"
  tb_code :: int
  tb_reply :: string
  tb_files :: "((string \<times> string) \<times> tar_member) list"

definition tb_start :: tb where
  "tb_start = \<lparr>tb_clock = 1000, tb_next = 0, tb_containers = [], tb_volumes = [], tb_disk = True,
     tb_chunks = [(Some ''hi'', None)], tb_code = 0, tb_reply = ''1'', tb_files = []\<rparr>"

definition tb_fresh :: "string \<Rightarrow> tb \<Rightarrow> string \<times> tb" where
  "tb_fresh prefix x = (prefix @ replicate (Suc (tb_next x)) (CHR ''i''), x\<lparr>tb_next := Suc (tb_next x)\<rparr>)"

definition tb_find :: "(tb \<Rightarrow> string list) \<Rightarrow> string \<Rightarrow> (tb, exn, unit) M" where
  "tb_find f i x = (if i \<in> set (f x) then (Inr (), x) else (Inl DockerNotFound, x))"

definition tb_sdk :: "tb sdk" where
  "tb_sdk = \<lparr>
     o_ping = ret (),
     o_runtimes = ret [''runsc''],
     o_network_get = (\<lambda>n. ret ()),
     o_network_create = (\<lambda>n l. ret ()),
     o_volume_create = (\<lambda>v opts l. modifyM (\<lambda>x. x\<lparr>tb_volumes := v # tb_volumes x\<rparr>)),
     o_volume_get = tb_find tb_volumes,
     o_volume_remove = (\<lambda>v. modifyM (\<lambda>x. x\<lparr>tb_volumes := removeAll v (tb_volumes x)\<rparr>)),
     o_volumes_list = (\<lambda>l. ret []),
     o_container_get = tb_find tb_containers,
     o_container_create = (\<lambda>f x. (case tb_fresh ''c'' x of (i, x') \<Rightarrow>
       (Inr i, x'\<lparr>tb_containers := i # tb_containers x'\<rparr>))),
     o_container_start = (\<lambda>c. ret ()),
     o_container_stop = (\<lambda>c t. ret ()),
     o_container_remove = (\<lambda>c. modifyM (\<lambda>x. x\<lparr>tb_containers := removeAll c (tb_containers x)\<rparr>)),
     o_container_stats = (\<lambda>c. ret \<lparr>q_cpu_total = Some 30, q_precpu_total = Some 10,
       q_sys_total = Some 200, q_presys_total = Some 100, q_online_cpus = Some 2,
       q_mem_usage = Some 500, q_mem_cache = Some 100, q_mem_limit = Some 1000, q_blkio = []\<rparr>),
     o_containers_list = (\<lambda>l x. (Inr (map (\<lambda>c. \<lparr>d_name = c, d_id = c,
       d_created_iso = ''1970-01-01T00:00:00.5Z'', d_labels = [(l, c)]\<rparr>) (tb_containers x)), x)),
     o_exec_create = (\<lambda>c opts. thenM (tb_find tb_containers c) (ret ''exec'')),
     o_exec_start = (\<lambda>e. bindM (getsM tb_reply) (\<lambda>s. ret (Some s, None))),
     o_exec_stream = (\<lambda>e. bindM (getsM tb_chunks) (\<lambda>cs. ret (cs, None))),
     o_exec_detach = (\<lambda>e. ret ()),
     o_exec_inspect = (\<lambda>e. bindM (getsM tb_code) (\<lambda>c. ret (Some c))),
     o_sock_open = (\<lambda>e. ret ()),
     o_sock_send = (\<lambda>e b. ret ()),
     o_sock_frames = (\<lambda>e. ret [(1, ''hi'')]),
     o_put_archive = (\<lambda>c p m. modifyM (\<lambda>x. x\<lparr>tb_files := ((c, p @ ''/'' @ m_name m), m) # tb_files x\<rparr>)),
     o_get_archive = (\<lambda>c p. bindM (getsM (\<lambda>x. map_of (tb_files x) (c, p)))
       (\<lambda>found. case found of None \<Rightarrow> raise DockerNotFound | Some m \<Rightarrow> ret [m]))\<rparr>"

definition testbed :: "settings \<Rightarrow> tb ctx" where
  "testbed S = \<lparr>
     cfg = S, dk = tb_sdk,
     o_now = (\<lambda>x. (tb_clock x, x)),
     o_mono = (\<lambda>x. (tb_clock x * 1000000, x)),
     o_sleep = (\<lambda>d x. x\<lparr>tb_clock := tb_clock x + d\<rparr>),
     o_ulid = tb_fresh ''u'',
     o_secret = tb_fresh ''p'',
     o_hash = (\<lambda>pepper p. pepper @ ''#'' @ p),
     o_write = (\<lambda>l x. (tb_disk x, x)),
     o_fallback = (\<lambda>ls x. (None, x)),
     o_hook = (\<lambda>c env. ret 0),
     o_mkdir = (\<lambda>p. ret ()),
     o_chown = (\<lambda>p u. ret ()),
     o_chmod = (\<lambda>p m. ret ())\<rparr>"

end
