(* ===== verification/Paths.thy ===== *)
theory Paths
  imports Errors
begin

text \<open>
  Path and shell-word handling: \<open>resolve_workspace_path\<close> of \<open>api/files.py\<close> with the two
  functions of \<open>posixpath\<close> it uses, \<open>_is_safe_relative_cwd\<close> of \<open>api/processes.py\<close>, and
  \<open>_sh_quote\<close> of \<open>api/docker_client.py\<close>. The abstract specifications are a walk through a
  directory tree without symbolic links, and a POSIX shell's splitting of a line into words.
\<close>

section \<open>posixpath\<close>

definition posix_join :: "string \<Rightarrow> string \<Rightarrow> string" where
  "posix_join a b =
     (if take 1 b = ''/'' then b
      else if a = [] \<or> last a = CHR ''/'' then a @ b
      else a @ ''/'' @ b)"

text \<open>The loop of \<open>normpath\<close>; \<open>acc\<close> is \<open>new_comps\<close>, last component first.\<close>

fun norm_comps :: "bool \<Rightarrow> string list \<Rightarrow> string list \<Rightarrow> string list" where
  "norm_comps rooted acc [] = rev acc"
| "norm_comps rooted acc (c # cs) =
     (if c = [] \<or> c = ''.'' then norm_comps rooted acc cs
      else if c \<noteq> ''..'' \<or> (\<not> rooted \<and> acc = []) \<or> (acc \<noteq> [] \<and> hd acc = ''..'')
      then norm_comps rooted (c # acc) cs
      else norm_comps rooted (tl acc) cs)"

definition initial_slashes :: "string \<Rightarrow> nat" where
  "initial_slashes p =
     (if take 1 p \<noteq> ''/'' then 0
      else if take 2 p = ''//'' \<and> take 3 p \<noteq> ''///'' then 2 else 1)"

definition normpath :: "string \<Rightarrow> string" where
  "normpath p =
     (if p = [] then ''.''
      else let n = initial_slashes p;
               q = replicate n (CHR ''/'') @
                   join_with ''/'' (norm_comps (n \<noteq> 0) [] (split_on (CHR ''/'') p))
           in if q = [] then ''.'' else q)"

definition posix_basename :: "string \<Rightarrow> string" where
  "posix_basename p = rev (takeWhile (\<lambda>c. c \<noteq> CHR ''/'') (rev p))"

definition posix_dirname :: "string \<Rightarrow> string" where
  "posix_dirname p =
     (let head = rev (dropWhile (\<lambda>c. c \<noteq> CHR ''/'') (rev p)) in
      if head \<noteq> [] \<and> \<not> list_all (\<lambda>c. c = CHR ''/'') head
      then rev (dropWhile (\<lambda>c. c = CHR ''/'') (rev head)) else head)"

section \<open>Workspace paths\<close>

definition WORKSPACE :: string where
  "WORKSPACE = ''/workspace''"

definition resolve_workspace_path :: "string \<Rightarrow> bool \<Rightarrow> exn + string" where
  "resolve_workspace_path rel allow_root =
     (if rel = [] \<or> CHR 0x00 \<in> set rel then Inl (InvalidPath ''null_or_required'')
      else if take 1 rel = ''/'' then Inl (InvalidPath ''absolute_path'')
      else let p = normpath (posix_join WORKSPACE rel) in
        if p = WORKSPACE
        then (if allow_root then Inr p else Inl (InvalidPath ''workspace_root''))
        else if take (length WORKSPACE + 1) p \<noteq> WORKSPACE @ ''/''
        then Inl (InvalidPath ''escaped_workspace'')
        else Inr p)"

section \<open>A walk through directories\<close>

text \<open>
  A directory is the list of names that leads to it from the root. \<open>walk d cs\<close> follows the
  components \<open>cs\<close> of a path from \<open>d\<close> the way a kernel does when there are no symbolic links.
\<close>

definition step_dir :: "string list \<Rightarrow> string \<Rightarrow> string list" where
  "step_dir d c = (if c = [] \<or> c = ''.'' then d else if c = ''..'' then butlast d else d @ [c])"

definition walk :: "string list \<Rightarrow> string list \<Rightarrow> string list" where
  "walk d cs = foldl step_dir d cs"

definition path_of :: "string list \<Rightarrow> string" where
  "path_of d = concat (map (\<lambda>c. ''/'' @ c) d)"

definition proper_name :: "string \<Rightarrow> bool" where
  "proper_name c \<longleftrightarrow> c \<noteq> [] \<and> c \<noteq> ''.'' \<and> c \<noteq> ''..'' \<and> CHR ''/'' \<notin> set c"

lemma walk_simps [simp]: "walk d [] = d" "walk d (c # cs) = walk (step_dir d c) cs"
  by (simp_all add: walk_def)

lemma walk_proper:
  "list_all proper_name d \<Longrightarrow> (\<And>c. c \<in> set cs \<Longrightarrow> CHR ''/'' \<notin> set c) \<Longrightarrow>
    list_all proper_name (walk d cs)"
proof (induction cs arbitrary: d)
  case (Cons c cs)
  have "list_all proper_name (step_dir d c)"
    using Cons.prems by (auto simp: step_dir_def proper_name_def list_all_iff dest: in_set_butlastD)
  then show ?case using Cons by simp
qed simp

lemma walk_names: "list_all proper_name cs \<Longrightarrow> walk d cs = d @ cs"
  by (induction cs arbitrary: d) (auto simp: step_dir_def proper_name_def)

lemma norm_comps_walk:
  "''..'' \<notin> set acc \<Longrightarrow> norm_comps True acc cs = walk (rev acc) cs"
proof (induction True acc cs rule: norm_comps.induct)
  case (2 acc c cs)
  have "acc \<noteq> [] \<Longrightarrow> hd acc \<noteq> ''..''" using "2.prems" by (cases acc) auto
  moreover have "''..'' \<notin> set (tl acc)" using "2.prems" by (cases acc) auto
  moreover have "rev (tl acc) = butlast (rev acc)" by (cases acc) auto
  ultimately show ?case using "2" by (auto simp: step_dir_def)
qed simp

lemma path_of_Nil [simp]: "path_of [] = []" "path_of (c # d) = CHR ''/'' # c @ path_of d"
  by (simp_all add: path_of_def)

lemma split_path_of:
  "list_all proper_name d \<Longrightarrow> split_on (CHR ''/'') (path_of d) = [] # d"
proof (induction d)
  case (Cons c d)
  then have c: "CHR ''/'' \<notin> set c" and IH: "split_on (CHR ''/'') (path_of d) = [] # d"
    by (simp_all add: proper_name_def)
  show ?case
  proof (cases d)
    case Nil
    with c show ?thesis by (simp add: split_on_id)
  next
    case (Cons c' d')
    with c IH show ?thesis by (simp add: split_on_append_sep)
  qed
qed simp

lemma path_of_inj:
  "list_all proper_name d \<Longrightarrow> list_all proper_name d' \<Longrightarrow> path_of d = path_of d' \<Longrightarrow> d = d'"
  by (metis list.inject split_path_of)

lemma path_of_below:
  assumes "list_all proper_name d" "proper_name w" "path_of d = CHR ''/'' # w @ CHR ''/'' # rest"
  shows "\<exists>r. d = w # r \<and> r \<noteq> []"
proof -
  have "[] # d = split_on (CHR ''/'') (CHR ''/'' # w @ CHR ''/'' # rest)"
    using split_path_of [OF assms(1)] assms(3) by simp
  also have "\<dots> = [] # w # split_on (CHR ''/'') rest"
    using assms(2) by (simp add: split_on_append_sep proper_name_def)
  finally show ?thesis by simp
qed

lemma normpath_workspace:
  "normpath (CHR ''/'' # ''workspace'' @ CHR ''/'' # rel) =
    (let d = walk [''workspace''] (split_on (CHR ''/'') rel)
     in if d = [] then ''/'' else path_of d)"
proof -
  have s: "split_on (CHR ''/'') (CHR ''/'' # ''workspace'' @ CHR ''/'' # rel)
      = [] # ''workspace'' # split_on (CHR ''/'') rel"
    by simp
  have n: "norm_comps True [] ([] # ''workspace'' # split_on (CHR ''/'') rel) =
      walk [''workspace''] (split_on (CHR ''/'') rel)"
    by (subst norm_comps_walk) (simp_all add: step_dir_def)
  have j: "join_with ''/'' d = tl (path_of d)" if "d \<noteq> []" for d :: "string list"
    using join_with_flat [OF that, of "''/''"] that by (cases d) (auto simp: path_of_def)
  have "path_of d = CHR ''/'' # tl (path_of d)" if "d \<noteq> []" for d :: "string list"
    using that by (cases d) auto
  then show ?thesis
    unfolding normpath_def s Let_def
    by (simp add: initial_slashes_def n [simplified] j)
qed

lemma workspace_join:
  "take 1 rel \<noteq> ''/'' \<Longrightarrow> posix_join WORKSPACE rel = CHR ''/'' # ''workspace'' @ CHR ''/'' # rel"
  by (simp add: posix_join_def WORKSPACE_def)

lemma proper_workspace [simp]: "proper_name ''workspace''"
  by (simp add: proper_name_def)

lemma walk_workspace_proper:
  "list_all proper_name (walk [''workspace''] (split_on (CHR ''/'') rel))"
  by (rule walk_proper) (auto dest: split_on_free)

text \<open>What the validator accepts: the walk from the workspace must end in the workspace.\<close>

lemma resolve_iff_walk:
  assumes "rel \<noteq> []" "CHR 0x00 \<notin> set rel" "take 1 rel \<noteq> ''/''"
  defines "d \<equiv> walk [''workspace''] (split_on (CHR ''/'') rel)"
  shows "resolve_workspace_path rel allow =
    (if d = [''workspace'']
     then (if allow then Inr WORKSPACE else Inl (InvalidPath ''workspace_root''))
     else if take 1 d = [''workspace''] then Inr (path_of d)
     else Inl (InvalidPath ''escaped_workspace''))"
proof -
  let ?p = "if d = [] then ''/'' else path_of d"
  have d: "list_all proper_name d" unfolding d_def by (rule walk_workspace_proper)
  have p: "normpath (posix_join WORKSPACE rel) = ?p"
    by (simp only: workspace_join [OF assms(3)] normpath_workspace d_def Let_def)
  have root: "?p = WORKSPACE \<longleftrightarrow> d = [''workspace'']"
    using path_of_inj [OF d, of "[''workspace'']"] by (auto simp: WORKSPACE_def)
  have "take 11 ?p = WORKSPACE @ ''/'' \<Longrightarrow> \<exists>r. d = ''workspace'' # r \<and> r \<noteq> []"
  proof -
    assume t: "take 11 ?p = WORKSPACE @ ''/''"
    then have "?p = (WORKSPACE @ ''/'') @ drop 11 ?p" by (metis append_take_drop_id)
    moreover from t have "d \<noteq> []" by (auto simp: WORKSPACE_def)
    ultimately have "path_of d = CHR ''/'' # ''workspace'' @ CHR ''/'' # drop 11 ?p"
      by (simp add: WORKSPACE_def)
    then show ?thesis by (intro path_of_below [OF d]) simp_all
  qed
  moreover have "take 11 ?p = WORKSPACE @ ''/''" if "take 1 d = [''workspace'']" "d \<noteq> [''workspace'']"
  proof -
    from that obtain c r where "d = ''workspace'' # c # r"
      by (cases d; cases "tl d") auto
    then show ?thesis by (simp add: WORKSPACE_def)
  qed
  ultimately have below: "take (length WORKSPACE + 1) ?p = WORKSPACE @ ''/'' \<longleftrightarrow>
      take 1 d = [''workspace''] \<and> d \<noteq> [''workspace'']"
  proof -
    have "length WORKSPACE + 1 = 11" by (simp add: WORKSPACE_def)
    moreover from \<open>take 11 ?p = WORKSPACE @ ''/'' \<Longrightarrow> \<exists>r. d = ''workspace'' # r \<and> r \<noteq> []\<close>
    have "take 11 ?p = WORKSPACE @ ''/'' \<Longrightarrow> take 1 d = [''workspace''] \<and> d \<noteq> [''workspace'']"
      by (elim meta_impE exE conjE) simp_all
    ultimately show ?thesis
      using \<open>\<lbrakk>take 1 d = [''workspace'']; d \<noteq> [''workspace'']\<rbrakk> \<Longrightarrow> take 11 ?p = WORKSPACE @ ''/''\<close>
      by metis
  qed
  have "take 1 d = [''workspace''] \<Longrightarrow> ?p = path_of d" by auto
  then show ?thesis
    unfolding resolve_workspace_path_def p Let_def
    using assms(1-3) root below by (auto split: if_splits)
qed

lemma resolve_inside:
  assumes "resolve_workspace_path rel allow = Inr p"
  obtains d where "p = WORKSPACE @ path_of d" "list_all proper_name d" "d \<noteq> [] \<or> allow"
proof -
  from assms have r: "rel \<noteq> []" "CHR 0x00 \<notin> set rel" "take 1 rel \<noteq> ''/''"
    by (auto simp: resolve_workspace_path_def split: if_splits)
  let ?d = "walk [''workspace''] (split_on (CHR ''/'') rel)"
  show ?thesis
  proof (cases "?d = [''workspace'']")
    case True
    with assms r that [of "[]"] show ?thesis by (auto simp: resolve_iff_walk split: if_splits)
  next
    case False
    with assms r have "take 1 ?d = [''workspace'']" "p = path_of ?d"
      by (auto simp: resolve_iff_walk split: if_splits)
    with False walk_workspace_proper [of rel] obtain c q where "?d = ''workspace'' # c # q"
      "p = path_of ?d" by (cases ?d; cases "tl ?d") auto
    with walk_workspace_proper [of rel] that [of "c # q"] show ?thesis
      by (auto simp: WORKSPACE_def)
  qed
qed

lemma walk_append: "walk d (cs @ cs') = walk (walk d cs) cs'"
  by (simp add: walk_def)

lemma path_of_join: "d \<noteq> [] \<Longrightarrow> path_of d = CHR ''/'' # join_with ''/'' d"
  using join_with_flat [of d "''/''"] by (simp add: path_of_def)

text \<open>A resolved path is a fixed point: stripped of the workspace it resolves to itself.\<close>

lemma resolve_canonical:
  assumes "resolve_workspace_path rel allow = Inr p" "p \<noteq> WORKSPACE"
    and nul: "CHR 0x00 \<notin> set p"
  shows "resolve_workspace_path (drop 11 p) False = Inr p"
proof -
  from resolve_inside [OF assms(1)] obtain d where d: "p = WORKSPACE @ path_of d"
    "list_all proper_name d" by blast
  with assms(2) have "d \<noteq> []" by auto
  then have rel: "drop 11 p = join_with ''/'' d" using d(1) by (simp add: WORKSPACE_def path_of_join)
  from \<open>d \<noteq> []\<close> d(2) obtain c q where cq: "d = c # q" "proper_name c" by (cases d) auto
  have j: "join_with ''/'' d = c @ path_of q"
    using path_of_join [of "c # q"] by (simp add: cq(1))
  have ne: "join_with ''/'' d \<noteq> []" and abs: "take 1 (join_with ''/'' d) \<noteq> ''/''"
    using cq(2) by (cases c; auto simp: j proper_name_def)+
  have "CHR 0x00 \<notin> set (join_with ''/'' d)" using nul by (metis rel in_set_dropD)
  moreover have "split_on (CHR ''/'') (join_with ''/'' d) = d"
    using \<open>d \<noteq> []\<close> d(2) by (intro split_on_join) (auto simp: list_all_iff proper_name_def)
  moreover have "walk [''workspace''] d = ''workspace'' # d"
    by (simp add: walk_names [OF d(2)])
  ultimately show ?thesis
    using \<open>d \<noteq> []\<close> d(1) ne abs unfolding rel
    by (simp add: resolve_iff_walk) (simp add: WORKSPACE_def)
qed

section \<open>Working directories\<close>

definition is_safe_relative_cwd :: "string \<Rightarrow> bool" where
  "is_safe_relative_cwd cwd =
     (if cwd = [] \<or> take 1 cwd = ''/'' \<or> take 1 cwd = ''~'' then False
      else list_all (\<lambda>p. p \<noteq> ''..'') (filter (\<lambda>p. p \<noteq> []) (split_on (CHR ''/'') cwd)))"

lemma walk_no_dotdot:
  "list_all (\<lambda>p. p \<noteq> ''..'') cs \<Longrightarrow> \<exists>e. walk d cs = d @ e"
proof (induction cs arbitrary: d)
  case (Cons c cs)
  then obtain e where "walk (step_dir d c) cs = step_dir d c @ e" by fastforce
  with Cons.prems show ?case by (auto simp: step_dir_def)
qed simp

lemma safe_cwd_inside:
  assumes "is_safe_relative_cwd cwd"
  shows "\<exists>e. walk d (take n (split_on (CHR ''/'') cwd)) = d @ e"
proof (rule walk_no_dotdot)
  from assms have "list_all (\<lambda>p. p \<noteq> ''..'') (filter (\<lambda>p. p \<noteq> []) (split_on (CHR ''/'') cwd))"
    by (auto simp: is_safe_relative_cwd_def split: if_splits)
  then have "list_all (\<lambda>p. p \<noteq> ''..'') (split_on (CHR ''/'') cwd)"
    by (auto simp: list_all_iff)
  then show "list_all (\<lambda>p. p \<noteq> ''..'') (take n (split_on (CHR ''/'') cwd))"
    by (auto simp: list_all_iff dest: in_set_takeD)
qed

lemma safe_cwd_resolves:
  assumes "is_safe_relative_cwd cwd" "CHR 0x00 \<notin> set cwd"
  shows "\<exists>p. resolve_workspace_path cwd True = Inr p"
proof -
  from assms(1) have r: "cwd \<noteq> []" "take 1 cwd \<noteq> ''/''"
    by (auto simp: is_safe_relative_cwd_def split: if_splits)
  from safe_cwd_inside [OF assms(1), of "[''workspace'']" "length (split_on (CHR ''/'') cwd)"]
  obtain e where "walk [''workspace''] (split_on (CHR ''/'') cwd) = ''workspace'' # e" by auto
  then show ?thesis using r assms(2) by (simp add: resolve_iff_walk)
qed

section \<open>Shell quoting\<close>

definition sh_escape :: "string \<Rightarrow> string" where
  "sh_escape s =
     concat (map (\<lambda>c. if c = CHR 0x27 then [CHR 0x27, CHR 0x5C, CHR 0x27, CHR 0x27] else [c]) s)"

definition sh_quote :: "string \<Rightarrow> string" where
  "sh_quote s = CHR 0x27 # sh_escape s @ [CHR 0x27]"

text \<open>
  How a POSIX shell splits a line into words, for lines in which no other expansion takes
  place: blanks separate, single quotes take everything literally, a backslash takes the next
  character literally. Any unquoted character with a meaning of its own makes the result
  \<open>None\<close>, as do an unterminated quote and a trailing backslash.
\<close>

definition sh_special :: "char \<Rightarrow> bool" where
  "sh_special c \<longleftrightarrow> c \<in> set (''|&;<>()$*?[]#~=%!{}'' @ [CHR 0x60, CHR 0x22, CHR 0x09, CHR 0x0A])"

definition word_sofar :: "string option \<Rightarrow> string" where
  "word_sofar cur = (case cur of None \<Rightarrow> [] | Some w \<Rightarrow> w)"

function sh_plain :: "string option \<Rightarrow> string \<Rightarrow> string list option"
  and sh_quoted :: "string \<Rightarrow> string \<Rightarrow> string list option" where
  "sh_plain cur [] = Some (case cur of None \<Rightarrow> [] | Some w \<Rightarrow> [w])"
| "sh_plain cur (c # s) =
     (if c = CHR '' '' then
        (case cur of None \<Rightarrow> sh_plain None s | Some w \<Rightarrow> map_option ((#) w) (sh_plain None s))
      else if c = CHR 0x27 then sh_quoted (word_sofar cur) s
      else if c = CHR 0x5C then
        (case s of [] \<Rightarrow> None
         | e # s' \<Rightarrow> if e = CHR 0x0A then None else sh_plain (Some (word_sofar cur @ [e])) s')
      else if sh_special c then None
      else sh_plain (Some (word_sofar cur @ [c])) s)"
| "sh_quoted w [] = None"
| "sh_quoted w (c # s) = (if c = CHR 0x27 then sh_plain (Some w) s else sh_quoted (w @ [c]) s)"
  by pat_completeness auto
termination
  by (relation "measure (case_sum (length \<circ> snd) (length \<circ> snd))") auto

definition sh_words :: "string \<Rightarrow> string list option" where
  "sh_words s = sh_plain None s"

lemma sh_escape_simps [simp]:
  "sh_escape [] = []"
  "sh_escape (c # s) = (if c = CHR 0x27 then [CHR 0x27, CHR 0x5C, CHR 0x27, CHR 0x27] else [c])
     @ sh_escape s"
  by (simp_all add: sh_escape_def)

lemma sh_quoted_escape:
  "sh_quoted w (sh_escape s @ CHR 0x27 # rest) = sh_plain (Some (w @ s)) rest"
  by (induction s arbitrary: w) (simp_all add: word_sofar_def)

lemma sh_plain_quote: "sh_plain None (sh_quote s @ rest) = sh_plain (Some s) rest"
  by (simp add: sh_quote_def word_sofar_def sh_quoted_escape)

lemma sh_words_quoted: "sh_words (join_with '' '' (map sh_quote argv)) = Some argv"
proof -
  have "sh_plain None (join_with '' '' (map sh_quote argv)) = Some argv"
  proof (induction argv)
    case (Cons a argv)
    show ?case
    proof (cases argv)
      case Nil
      then show ?thesis using sh_plain_quote [of a "[]"] by simp
    next
      case (Cons b bs)
      with Cons.IH show ?thesis by (simp add: sh_plain_quote)
    qed
  qed simp
  then show ?thesis by (simp add: sh_words_def)
qed

section \<open>Properties\<close>

text \<open>
  C7: a path the validator accepts names something inside the workspace: it is \<open>/workspace\<close>
  followed by components that are neither empty nor \<open>.\<close> nor \<open>..\<close> and contain no slash, and it
  is \<open>/workspace\<close> itself only where the caller allows that. It is exactly where a walk from the
  workspace along the requested path ends, and resolving it again gives it back.
\<close>

theorem resolved_path_confined:
  assumes "resolve_workspace_path rel allow = Inr p"
  shows "(\<exists>d. p = WORKSPACE @ path_of d \<and> list_all proper_name d \<and> (d = [] \<longrightarrow> allow)) \<and>
    p = path_of (walk [''workspace''] (split_on (CHR ''/'') rel)) \<and>
    (p \<noteq> WORKSPACE \<and> CHR 0x00 \<notin> set p \<longrightarrow> resolve_workspace_path (drop 11 p) False = Inr p)"
proof (intro conjI impI)
  show "\<exists>d. p = WORKSPACE @ path_of d \<and> list_all proper_name d \<and> (d = [] \<longrightarrow> allow)"
    using resolve_inside [OF assms] by metis
  from assms have r: "rel \<noteq> []" "CHR 0x00 \<notin> set rel" "take 1 rel \<noteq> ''/''"
    by (auto simp: resolve_workspace_path_def split: if_splits)
  show "p = path_of (walk [''workspace''] (split_on (CHR ''/'') rel))"
    using assms unfolding resolve_iff_walk [OF r] by (auto simp: WORKSPACE_def split: if_splits)
next
  assume "p \<noteq> WORKSPACE \<and> CHR 0x00 \<notin> set p"
  then show "resolve_workspace_path (drop 11 p) False = Inr p"
    using resolve_canonical [OF assms] by blast
qed

lemma resolved_path_confined_witness:
  "resolve_workspace_path ''a/../b//./c'' False = Inr ''/workspace/b/c'' \<and>
   resolve_workspace_path (drop 11 ''/workspace/b/c'') False = Inr ''/workspace/b/c''"
proof -
  have "resolve_workspace_path ''a/../b//./c'' False = Inr ''/workspace/b/c''"
    by (simp add: resolve_iff_walk step_dir_def)
  from resolved_path_confined [OF this] this show ?thesis by (simp add: WORKSPACE_def step_dir_def)
qed

text \<open>
  C19: the validator is complete: it accepts a path exactly when it is not empty, has no NUL, is
  relative, and a walk from the workspace ends strictly below the workspace (or in it, where
  allowed); otherwise the error names the first of these rules that is broken.
\<close>

theorem resolve_complete:
  "resolve_workspace_path rel allow =
    (let d = walk [''workspace''] (split_on (CHR ''/'') rel) in
     if rel = [] \<or> CHR 0x00 \<in> set rel then Inl (InvalidPath ''null_or_required'')
     else if take 1 rel = ''/'' then Inl (InvalidPath ''absolute_path'')
     else if d = [''workspace''] then
       (if allow then Inr ''/workspace'' else Inl (InvalidPath ''workspace_root''))
     else if take 1 d = [''workspace''] then Inr (path_of d)
     else Inl (InvalidPath ''escaped_workspace''))"
proof (cases "rel = [] \<or> CHR 0x00 \<in> set rel \<or> take 1 rel = ''/''")
  case True
  then show ?thesis by (auto simp: resolve_workspace_path_def)
next
  case False
  then have "rel \<noteq> []" "CHR 0x00 \<notin> set rel" "take 1 rel \<noteq> ''/''" by auto
  from resolve_iff_walk [OF this, of allow] show ?thesis
    unfolding Let_def WORKSPACE_def using False by (auto split: if_splits)
qed

text \<open>
  A working directory that \<open>_is_safe_relative_cwd\<close> accepts never leaves the directory it
  starts from, at any point along the path, and is also acceptable as a workspace path.
\<close>

theorem safe_cwd_confined:
  assumes "is_safe_relative_cwd cwd"
  shows "(\<exists>e. walk d (take n (split_on (CHR ''/'') cwd)) = d @ e) \<and>
    (CHR 0x00 \<notin> set cwd \<longrightarrow> (\<exists>p. resolve_workspace_path cwd True = Inr p))"
  using safe_cwd_inside [OF assms] safe_cwd_resolves [OF assms] by blast

lemma safe_cwd_confined_witness:
  "is_safe_relative_cwd ''src/./lib'' \<and> (\<exists>p. resolve_workspace_path ''src/./lib'' True = Inr p)"
proof -
  have "is_safe_relative_cwd ''src/./lib''" by (simp add: is_safe_relative_cwd_def)
  with safe_cwd_confined [OF this] show ?thesis by simp
qed

end
