(* ===== verification/IsoTime.thy ===== *)
theory IsoTime
  imports TextLib
begin

text \<open>
  The time stamps Docker reports: \<open>_parse_docker_iso\<close> of \<open>api/docker_client.py\<close>, and the part of
  \<open>datetime.fromisoformat\<close> it relies on, the RFC 3339 form with an optional fraction and an
  optional \<open>Z\<close> or hour and minute offset. Epoch times are in microseconds.
\<close>

section \<open>The calendar\<close>

definition leap_year :: "nat \<Rightarrow> bool" where
  "leap_year y \<longleftrightarrow> 4 dvd y \<and> (\<not> 100 dvd y \<or> 400 dvd y)"

definition days_in_month :: "nat \<Rightarrow> nat \<Rightarrow> nat" where
  "days_in_month y m =
     (if m = 2 then (if leap_year y then 29 else 28)
      else if m = 4 \<or> m = 6 \<or> m = 9 \<or> m = 11 then 30 else 31)"

definition days_before_month :: "nat \<Rightarrow> nat \<Rightarrow> nat" where
  "days_before_month y m = sum_list (map (days_in_month y) [1..<m])"

definition days_before_year :: "nat \<Rightarrow> nat" where
  "days_before_year y = (let p = y - 1 in 365 * p + p div 4 - p div 100 + p div 400)"

definition valid_date :: "nat \<Rightarrow> nat \<Rightarrow> nat \<Rightarrow> bool" where
  "valid_date y m d \<longleftrightarrow> 1 \<le> y \<and> 1 \<le> m \<and> m \<le> 12 \<and> 1 \<le> d \<and> d \<le> days_in_month y m"

definition epoch_days :: "nat \<Rightarrow> nat \<Rightarrow> nat \<Rightarrow> int" where
  "epoch_days y m d = int (days_before_year y + days_before_month y m + d) - 719163"

definition valid_time :: "nat \<Rightarrow> nat \<Rightarrow> nat \<Rightarrow> bool" where
  "valid_time h mi s \<longleftrightarrow> h \<le> 23 \<and> mi \<le> 59 \<and> s \<le> 59"

definition epoch_us :: "nat \<Rightarrow> nat \<Rightarrow> nat \<Rightarrow> nat \<Rightarrow> nat \<Rightarrow> nat \<Rightarrow> nat \<Rightarrow> int" where
  "epoch_us y m d h mi s us =
     (epoch_days y m d * 86400 + int (h * 3600 + mi * 60 + s)) * 1000000 + int us"

section \<open>Parsing\<close>

text \<open>A field of exactly \<open>n\<close> digits and the rest of the text.\<close>

definition take_digits :: "nat \<Rightarrow> string \<Rightarrow> (nat \<times> string) option" where
  "take_digits n s =
     (if n \<le> length s \<and> list_all is_digit (take n s) then Some (digits_val 10 (take n s), drop n s)
      else None)"

definition expect :: "char \<Rightarrow> string \<Rightarrow> string option" where
  "expect c s = (case s of [] \<Rightarrow> None | x # r \<Rightarrow> if x = c then Some r else None)"

definition field_after :: "char \<Rightarrow> nat \<Rightarrow> string \<Rightarrow> (nat \<times> string) option" where
  "field_after c n s = Option.bind (expect c s) (take_digits n)"

text \<open>A fraction of one to six digits in microseconds; no fraction is zero.\<close>

definition parse_fraction :: "string \<Rightarrow> (nat \<times> string) option" where
  "parse_fraction s =
     (case s of
        [] \<Rightarrow> Some (0, [])
      | x # r \<Rightarrow>
          if x \<noteq> CHR ''.'' then Some (0, s)
          else let ds = takeWhile is_digit r in
            if ds = [] \<or> 6 < length ds then None
            else Some (digits_val 10 ds * 10 ^ (6 - length ds), dropWhile is_digit r))"

text \<open>The offset from UTC in minutes; \<open>None\<close> inside for a time without zone.\<close>

definition parse_zone :: "string \<Rightarrow> int option option" where
  "parse_zone s =
     (if s = [] then Some None
      else if s = ''Z'' then Some (Some 0)
      else
        let sign = (if hd s = CHR ''-'' then - 1 else 1) in
        if hd s \<noteq> CHR ''+'' \<and> hd s \<noteq> CHR ''-'' then None
        else case take_digits 2 (tl s) of
            None \<Rightarrow> None
          | Some (h, r) \<Rightarrow> (case field_after (CHR '':'') 2 r of
              None \<Rightarrow> None
            | Some (mi, r') \<Rightarrow>
                if r' = [] \<and> h \<le> 23 \<and> mi \<le> 59 then Some (Some (sign * int (h * 60 + mi))) else None))"

definition parse_date :: "string \<Rightarrow> ((nat \<times> nat \<times> nat) \<times> string) option" where
  "parse_date s =
     (case take_digits 4 s of None \<Rightarrow> None | Some (y, r1) \<Rightarrow>
      (case field_after (CHR ''-'') 2 r1 of None \<Rightarrow> None | Some (m, r2) \<Rightarrow>
      (case field_after (CHR ''-'') 2 r2 of None \<Rightarrow> None | Some (d, r3) \<Rightarrow>
       if valid_date y m d then Some ((y, m, d), r3) else None)))"

definition parse_clock :: "string \<Rightarrow> ((nat \<times> nat \<times> nat) \<times> string) option" where
  "parse_clock s =
     (case take_digits 2 s of None \<Rightarrow> None | Some (h, r1) \<Rightarrow>
      (case field_after (CHR '':'') 2 r1 of None \<Rightarrow> None | Some (mi, r2) \<Rightarrow>
      (case field_after (CHR '':'') 2 r2 of None \<Rightarrow> None | Some (sec, r3) \<Rightarrow>
       if valid_time h mi sec then Some ((h, mi, sec), r3) else None)))"

text \<open>\<open>datetime.fromisoformat(s)\<close>, taken as UTC when there is no zone; \<open>None\<close> is \<open>ValueError\<close>.\<close>

definition fromisoformat :: "string \<Rightarrow> int option" where
  "fromisoformat s =
     (case parse_date s of None \<Rightarrow> None | Some ((y, m, d), r1) \<Rightarrow>
      (case r1 of [] \<Rightarrow> None | sep # r2 \<Rightarrow>
      (case parse_clock r2 of None \<Rightarrow> None | Some ((h, mi, sec), r3) \<Rightarrow>
      (case parse_fraction r3 of None \<Rightarrow> None | Some (us, r4) \<Rightarrow>
      (case parse_zone r4 of None \<Rightarrow> None | Some zone \<Rightarrow>
       Some (epoch_us y m d h mi sec us - case_option 0 id zone * 60000000))))))"

text \<open>The loop that cuts a fraction to six digits.\<close>

definition trim_fraction :: "string \<Rightarrow> string" where
  "trim_fraction stamp =
     (if CHR ''.'' \<notin> set stamp then stamp
      else let before = takeWhile (\<lambda>c. c \<noteq> CHR ''.'') stamp;
               after = tl (dropWhile (\<lambda>c. c \<noteq> CHR ''.'') stamp);
               frac = takeWhile is_digit after
           in if 6 < length frac then before @ ''.'' @ take 6 frac @ dropWhile is_digit after
              else stamp)"

definition parse_docker_iso :: "string \<Rightarrow> int" where
  "parse_docker_iso stamp =
     (if stamp = [] then 0 else case_option 0 id (fromisoformat (trim_fraction stamp)))"

section \<open>The forms Docker writes\<close>

fun fixed :: "nat \<Rightarrow> nat \<Rightarrow> string" where
  "fixed 0 n = []"
| "fixed (Suc k) n = fixed k (n div 10) @ [digit_char (n mod 10)]"

definition iso_text :: "nat \<Rightarrow> nat \<Rightarrow> nat \<Rightarrow> nat \<Rightarrow> nat \<Rightarrow> nat \<Rightarrow> string" where
  "iso_text y m d h mi s =
     fixed 4 y @ ''-'' @ fixed 2 m @ ''-'' @ fixed 2 d @ ''T'' @
     fixed 2 h @ '':'' @ fixed 2 mi @ '':'' @ fixed 2 s"

definition zone_text :: "bool \<Rightarrow> nat \<Rightarrow> nat \<Rightarrow> string" where
  "zone_text west h mi = (if west then ''-'' else ''+'') @ fixed 2 h @ '':'' @ fixed 2 mi"

lemma length_fixed [simp]: "length (fixed k n) = k"
  by (induction k arbitrary: n) auto

lemma fixed_digits [simp]: "list_all is_digit (fixed k n)"
  by (induction k arbitrary: n) auto

lemma digits_val_snoc: "digits_val b (s @ [c]) = b * digits_val b s + digit_val c"
  by (simp add: digits_val_def)

lemma digits_val_fixed: "n < 10 ^ k \<Longrightarrow> digits_val 10 (fixed k n) = n"
proof (induction k arbitrary: n)
  case 0
  then show ?case by (simp add: digits_val_def)
next
  case (Suc k)
  then have "digits_val 10 (fixed k (n div 10)) = n div 10" by (intro Suc.IH) auto
  then show ?case by (simp add: digits_val_snoc)
qed

lemma take_digits_fixed: "n < 10 ^ k \<Longrightarrow> take_digits k (fixed k n @ r) = Some (n, r)"
  by (simp add: take_digits_def digits_val_fixed)

lemma field_after_fixed: "n < 10 ^ k \<Longrightarrow> field_after c k (c # fixed k n @ r) = Some (n, r)"
  by (simp add: field_after_def expect_def take_digits_fixed)

lemma valid_date_bounds: "valid_date y m d \<Longrightarrow> m < 100 \<and> d < 100"
  by (auto simp: valid_date_def days_in_month_def split: if_splits)

lemma parse_date_text:
  "valid_date y m d \<Longrightarrow> y \<le> 9999 \<Longrightarrow>
    parse_date (fixed 4 y @ CHR ''-'' # fixed 2 m @ CHR ''-'' # fixed 2 d @ r) = Some ((y, m, d), r)"
  using valid_date_bounds [of y m d]
  by (simp add: parse_date_def take_digits_fixed field_after_fixed del: fixed.simps)

lemma parse_clock_text:
  "valid_time h mi s \<Longrightarrow>
    parse_clock (fixed 2 h @ CHR '':'' # fixed 2 mi @ CHR '':'' # fixed 2 s @ r) =
      Some ((h, mi, s), r)"
  by (simp add: parse_clock_def valid_time_def take_digits_fixed field_after_fixed del: fixed.simps)

lemma is_digit_not: "\<not> is_digit (CHR ''.'')" "\<not> is_digit (CHR ''-'')" "\<not> is_digit (CHR '':'')"
  "\<not> is_digit (CHR ''T'')" "\<not> is_digit (CHR ''Z'')" "\<not> is_digit (CHR ''+'')"
  by (simp_all add: is_digit_def)

lemma fixed_no_dot: "CHR ''.'' \<notin> set (fixed k n)"
  using fixed_digits [of k n] is_digit_not(1) unfolding list_all_iff by blast

lemma iso_text_no_dot: "CHR ''.'' \<notin> set (iso_text y m d h mi s)"
  by (simp add: iso_text_def fixed_no_dot del: fixed.simps)

lemma takeWhile_fixed:
  "\<not> is_digit c \<Longrightarrow> takeWhile is_digit (fixed k n @ c # r) = fixed k n"
  "\<not> is_digit c \<Longrightarrow> dropWhile is_digit (fixed k n @ c # r) = c # r"
  using fixed_digits [of k n]
  by (simp_all add: takeWhile_append dropWhile_append list_all_iff)

lemma fromisoformat_text:
  assumes "valid_date y m d" "y \<le> 9999" "valid_time h mi s"
    and "parse_fraction r = Some (us, r')" "parse_zone r' = Some zone"
  shows "fromisoformat (iso_text y m d h mi s @ r) =
    Some (epoch_us y m d h mi s us - case_option 0 id zone * 60000000)"
  using assms
  by (simp add: fromisoformat_def iso_text_def parse_date_text parse_clock_text del: fixed.simps)

lemma take_fixed: "take k (fixed (k + j) n) = fixed k (n div 10 ^ j)"
  by (induction j arbitrary: n) (simp_all add: div_mult2_eq)

lemma trim_fraction_nano:
  "trim_fraction (iso_text y m d h mi s @ ''.'' @ fixed 9 ns @ ''Z'') =
    iso_text y m d h mi s @ ''.'' @ fixed 6 (ns div 1000) @ ''Z''"
proof -
  let ?a = "iso_text y m d h mi s" and ?b = "CHR ''.'' # fixed 9 ns @ ''Z''"
  have "takeWhile (\<lambda>c. c \<noteq> CHR ''.'') (?a @ ?b) = ?a"
    "dropWhile (\<lambda>c. c \<noteq> CHR ''.'') (?a @ ?b) = ?b"
    using iso_text_no_dot [of y m d h mi s]
    by (auto simp: takeWhile_append dropWhile_append)
  moreover have "take 6 (fixed 9 ns) = fixed 6 (ns div 1000)"
    using take_fixed [of 6 3 ns] by (simp del: fixed.simps)
  ultimately show ?thesis
    by (simp add: trim_fraction_def takeWhile_fixed is_digit_not del: fixed.simps)
qed

lemma parse_fraction_six:
  "us < 1000000 \<Longrightarrow> parse_fraction (''.'' @ fixed 6 us @ ''Z'') = Some (us, ''Z'')"
proof -
  assume "us < 1000000"
  moreover have "fixed 6 us \<noteq> []" by (metis length_fixed list.size(3) numeral_eq_Suc zero_neq_numeral)
  ultimately show ?thesis
    by (simp add: parse_fraction_def takeWhile_fixed is_digit_not digits_val_fixed del: fixed.simps)
qed

lemma parse_iso_container:
  assumes "valid_date y m d" "y \<le> 9999" "valid_time h mi s" "ns < 1000000000"
  shows "parse_docker_iso (iso_text y m d h mi s @ ''.'' @ fixed 9 ns @ ''Z'') =
    epoch_us y m d h mi s (ns div 1000)"
proof -
  have "ns div 1000 < 1000000" using assms(4) by simp
  from fromisoformat_text [OF assms(1-3) parse_fraction_six [OF this], of "Some 0"]
  show ?thesis
    unfolding parse_docker_iso_def trim_fraction_nano
    by (simp add: parse_zone_def iso_text_def del: fixed.simps)
qed

lemma parse_zone_text:
  "zh \<le> 23 \<Longrightarrow> zm \<le> 59 \<Longrightarrow>
    parse_zone (zone_text west zh zm) = Some (Some ((if west then - 1 else 1) * int (zh * 60 + zm)))"
  using field_after_fixed [of zm 2 "CHR '':''" "[]"]
  by (simp add: zone_text_def parse_zone_def take_digits_fixed del: fixed.simps)

lemma parse_iso_volume:
  assumes "valid_date y m d" "y \<le> 9999" "valid_time h mi s" "zh \<le> 23" "zm \<le> 59"
  shows "parse_docker_iso (iso_text y m d h mi s @ zone_text west zh zm) =
    epoch_us y m d h mi s 0 - (if west then - 1 else 1) * int (zh * 60 + zm) * 60000000"
proof -
  have "CHR ''.'' \<notin> set (zone_text west zh zm)"
    by (simp add: zone_text_def fixed_no_dot del: fixed.simps)
  then have "trim_fraction (iso_text y m d h mi s @ zone_text west zh zm) =
      iso_text y m d h mi s @ zone_text west zh zm"
    using iso_text_no_dot by (simp add: trim_fraction_def)
  moreover have "parse_fraction (zone_text west zh zm) = Some (0, zone_text west zh zm)"
    by (simp add: zone_text_def parse_fraction_def del: fixed.simps)
  from fromisoformat_text [OF assms(1-3) this parse_zone_text [OF assms(4,5)]]
  have "fromisoformat (iso_text y m d h mi s @ zone_text west zh zm) =
    Some (epoch_us y m d h mi s 0 - (if west then - 1 else 1) * int (zh * 60 + zm) * 60000000)"
    by simp
  moreover have "iso_text y m d h mi s \<noteq> []" by (simp add: iso_text_def)
  ultimately show ?thesis by (simp add: parse_docker_iso_def)
qed

text \<open>
  Both forms in which Docker reports a creation time are read as the same absolute clock:
  the container form, in UTC with nanoseconds, to the microsecond; the volume form, in the zone of
  the daemon with an offset, shifted by that offset in the right direction.
\<close>

theorem docker_time_absolute:
  assumes "valid_date y m d" "y \<le> 9999" "valid_time h mi s"
  shows "(ns < 1000000000 \<longrightarrow>
      parse_docker_iso (iso_text y m d h mi s @ ''.'' @ fixed 9 ns @ ''Z'') =
        epoch_us y m d h mi s (ns div 1000)) \<and>
    (zh \<le> 23 \<and> zm \<le> 59 \<longrightarrow>
      parse_docker_iso (iso_text y m d h mi s @ zone_text west zh zm) =
        epoch_us y m d h mi s 0 - (if west then - 1 else 1) * int (zh * 60 + zm) * 60000000)"
  using parse_iso_container [OF assms] parse_iso_volume [OF assms] by blast

lemma docker_time_absolute_witness:
  "parse_docker_iso (iso_text 2024 5 10 13 8 41 @ zone_text False 9 0) = 1715314121000000"
proof -
  have ok: "valid_date 2024 5 10" "(2024::nat) \<le> 9999" "valid_time 13 8 41"
    by (simp_all add: valid_date_def valid_time_def days_in_month_def)
  have "epoch_us 2024 5 10 13 8 41 0 = 1715346521000000"
    by (simp add: epoch_us_def epoch_days_def days_before_year_def days_before_month_def
        days_in_month_def leap_year_def upt_rec Let_def)
  with docker_time_absolute [OF ok, of 0 9 0 False] show ?thesis by simp
qed

end
