(* ===== verification/Docker.thy ===== *)
theory Docker
  imports Testbed Paths IsoTime
begin

text \<open>
  \<open>api/docker_client.py\<close>: the policy of container creation, and one definition per method of
  \<open>DockerClient\<close>. The methods only reach the outside: they are effects on its state.
\<close>

section \<open>Constants and helpers\<close>

definition OUTPUT_CAP_BYTES :: nat where
  "OUTPUT_CAP_BYTES = 8 * 1024 * 1024"

definition TIMEOUT_EXIT_CODE :: int where
  "TIMEOUT_EXIT_CODE = 124"

definition wrap_with_timeout :: "string list \<Rightarrow> int \<Rightarrow> string list" where
  "wrap_with_timeout argv timeout_s = [''/usr/bin/timeout'', str_int timeout_s] @ argv"

text \<open>\<open>truncated\<close> is the set of stream names, as a list without order.\<close>

definition append_capped ::
  "string \<Rightarrow> string \<Rightarrow> string \<Rightarrow> string list \<Rightarrow> string \<times> string list" where
  "append_capped buf chunk name truncated =
     (if name \<in> set truncated then (buf, truncated)
      else let remaining = int OUTPUT_CAP_BYTES - int (length buf) in
        if remaining \<le> 0 then (buf, name # truncated)
        else if int (length chunk) \<le> remaining then (buf @ chunk, truncated)
        else (buf @ take (nat remaining) chunk, name # truncated))"

text \<open>\<open>sorted(truncated)\<close> for the two stream names.\<close>

definition sort_streams :: "string list \<Rightarrow> string list" where
  "sort_streams truncated = filter (\<lambda>n. n \<in> set truncated) [''stderr'', ''stdout'']"

section \<open>Hardening\<close>

definition hardening_flags ::
  "string \<Rightarrow> string \<Rightarrow> string \<Rightarrow> limits \<Rightarrow> string \<Rightarrow> string \<Rightarrow> bool \<Rightarrow> string \<Rightarrow> container_flags" where
  "hardening_flags session_id tenant_id volume_name l img network dev proxy_url = \<lparr>
     f_image = img,
     f_name = ''sandbox-'' @ session_id,
     f_detach = True,
     f_read_only = True,
     f_tmpfs = [(''/tmp'', ''size=256m,mode=1777,noexec,nosuid,nodev'')],
     f_volumes = [(volume_name, ''/workspace'', ''rw'')],
     f_user = ''10001:10001'',
     f_working_dir = ''/workspace'',
     f_cap_drop = [''ALL''],
     f_security_opt = [''no-new-privileges:true'', ''seccomp=unconfined''],
     f_pids_limit = pids l,
     f_mem_limit_mib = memory_mib l,
     f_nano_cpus = vcpu l * 1000000000,
     f_network = network,
     f_environment = [(''HTTPS_PROXY'', proxy_url), (''HTTP_PROXY'', proxy_url), (''NO_PROXY'', []),
       (''HOME'', ''/workspace''), (''USER'', ''agent'')],
     f_nofile = (nofile l, nofile l),
     f_entrypoint = [''/usr/bin/sleep'', ''infinity''],
     f_labels = [(''sandbox.session_id'', session_id), (''sandbox.tenant_id'', tenant_id)],
     f_runtime = (if dev then None else Some ''runsc'')\<rparr>"

text \<open>
  What SPECIFICATION 401 asks of every container, as a policy on the arguments of
  \<open>containers.create\<close> that says nothing of how they are built.
\<close>

definition hardened :: "container_flags \<Rightarrow> bool" where
  "hardened f \<longleftrightarrow>
     f_read_only f \<and> f_cap_drop f = [''ALL''] \<and> ''no-new-privileges:true'' \<in> set (f_security_opt f) \<and>
     f_user f = ''10001:10001'' \<and> 0 < f_pids_limit f \<and> 0 < f_mem_limit_mib f \<and> 0 < f_nano_cpus f \<and>
     fst (f_nofile f) = snd (f_nofile f) \<and> 0 < snd (f_nofile f) \<and>
     map fst (f_tmpfs f) = [''/tmp''] \<and>
     (\<forall>v \<in> set (f_volumes f). fst (snd v) = ''/workspace'') \<and> length (f_volumes f) = 1"

lemma hardening_flags_hardened:
  "limits_ok l \<Longrightarrow> hardened (hardening_flags sid tn vol l img network dev proxy)"
  by (simp add: hardened_def hardening_flags_def limits_ok_def)

section \<open>Volumes, containers, networks\<close>

definition health :: "'x ctx \<Rightarrow> ('x, exn, bool) M" where
  "health E = tryM (thenM (o_ping (dk E)) (ret True)) (\<lambda>_. ret False)"

definition ensure_runtime :: "'x ctx \<Rightarrow> ('x, exn, unit) M" where
  "ensure_runtime E =
     (if dev_mode (cfg E) then ret ()
      else bindM (o_runtimes (dk E)) (\<lambda>rs. if ''runsc'' \<notin> set rs then raise RuntimeError else ret ()))"

definition ensure_network :: "'x ctx \<Rightarrow> ('x, exn, unit) M" where
  "ensure_network E =
     (let name = network_name (cfg E) in
      tryM (o_network_get (dk E) name)
        (\<lambda>e. if is_docker_not_found e
             then o_network_create (dk E) name [(''sandbox.managed'', ''true'')] else raise e))"

definition session_labels :: "string \<Rightarrow> string \<Rightarrow> labels" where
  "session_labels session_id tenant_id =
     [(''sandbox.session_id'', session_id), (''sandbox.tenant_id'', tenant_id)]"

definition create_volume :: "'x ctx \<Rightarrow> string \<Rightarrow> string \<Rightarrow> string \<Rightarrow> ('x, exn, unit) M" where
  "create_volume E volume_name session_id tenant_id =
     (let labels = session_labels session_id tenant_id; base = quota_volume_base (cfg E) in
      if base \<noteq> [] then
        let bind_path = posix_join base session_id in
        thenM (o_mkdir E bind_path)
       (thenM
         (case bind_volume_uid (cfg E) of
            Some uid \<Rightarrow>
              tryM (thenM (o_chown E bind_path uid) (o_chmod E bind_path 448))
                (\<lambda>e. if e = OSError then o_chmod E bind_path 511 else raise e)
          | None \<Rightarrow> o_chmod E bind_path 511)
        (o_volume_create (dk E) volume_name
          (Some [(''type'', ''none''), (''device'', bind_path), (''o'', ''bind'')]) labels))
      else o_volume_create (dk E) volume_name None labels)"

definition remove_volume :: "'x ctx \<Rightarrow> string \<Rightarrow> ('x, exn, unit) M" where
  "remove_volume E volume_name =
     ignore_not_found (thenM (o_volume_get (dk E) volume_name) (o_volume_remove (dk E) volume_name))"

definition create_container ::
  "'x ctx \<Rightarrow> string \<Rightarrow> string \<Rightarrow> string \<Rightarrow> limits \<Rightarrow> ('x, exn, string) M" where
  "create_container E session_id tenant_id volume_name l =
     o_container_create (dk E)
       (hardening_flags session_id tenant_id volume_name l (sandbox_image (cfg E))
         (network_name (cfg E)) (dev_mode (cfg E)) (egress_proxy_url (cfg E)))"

definition start_container :: "'x ctx \<Rightarrow> string \<Rightarrow> ('x, exn, unit) M" where
  "start_container E cid = thenM (o_container_get (dk E) cid) (o_container_start (dk E) cid)"

definition stop_container :: "'x ctx \<Rightarrow> string \<Rightarrow> ('x, exn, unit) M" where
  "stop_container E cid =
     ignore_not_found (thenM (o_container_get (dk E) cid) (o_container_stop (dk E) cid 5))"

definition remove_container :: "'x ctx \<Rightarrow> string \<Rightarrow> ('x, exn, unit) M" where
  "remove_container E cid =
     ignore_not_found (thenM (o_container_get (dk E) cid) (o_container_remove (dk E) cid))"

definition container_exists :: "'x ctx \<Rightarrow> string \<Rightarrow> ('x, exn, bool) M" where
  "container_exists E cid =
     tryM (thenM (o_container_get (dk E) cid) (ret True)) (\<lambda>e. ret (\<not> is_docker_not_found e))"

section \<open>Execution\<close>

definition agent_opts :: "string list \<Rightarrow> exec_opts" where
  "agent_opts cmd = \<lparr>x_cmd = cmd, x_env = [], x_workdir = Some ''/workspace'', x_user = ''10001:10001'',
     x_privileged = False, x_stdin = False, x_stdout = True, x_stderr = True\<rparr>"

definition exit_code_of :: "'x ctx \<Rightarrow> string \<Rightarrow> ('x, exn, int) M" where
  "exit_code_of E exec_id = bindM (o_exec_inspect (dk E) exec_id) (\<lambda>c. ret (case_option 0 id c))"

definition perm_fix :: "'x ctx \<Rightarrow> string \<Rightarrow> string list \<Rightarrow> ('x, exn, unit) M" where
  "perm_fix E cid argv =
     tryM
      (bindM (o_exec_create (dk E) cid
          \<lparr>x_cmd = argv, x_env = [], x_workdir = None, x_user = ''0:0'', x_privileged = True,
            x_stdin = False, x_stdout = True, x_stderr = True\<rparr>) (\<lambda>exec_id.
       thenM (thenM (o_exec_start (dk E) exec_id) (exit_code_of E exec_id)) (ret ())))
      (\<lambda>_. ret ())"

definition normalize_workspace_perms :: "'x ctx \<Rightarrow> string \<Rightarrow> ('x, exn, unit) M" where
  "normalize_workspace_perms E cid =
     forM [[''/bin/chown'', ''10001:10001'', ''/workspace''],
           [''/bin/chmod'', ''0700'', ''/workspace'']] (perm_fix E cid)"

definition exec_simple :: "'x ctx \<Rightarrow> string \<Rightarrow> string list \<Rightarrow> ('x, exn, string \<times> string \<times> int) M" where
  "exec_simple E cid argv =
     bindM (o_exec_create (dk E) cid (agent_opts argv)) (\<lambda>exec_id.
     bindM (o_exec_start (dk E) exec_id) (\<lambda>(out, err).
     bindM (exit_code_of E exec_id) (\<lambda>rc.
     ret (case_option [] id out, case_option [] id err, rc))))"

record exec_output =
  e_stdout :: string
  e_stderr :: string
  e_code :: int
  e_duration :: int
  e_truncated :: "string list"

text \<open>The state of the collecting loop: both buffers and the set of truncated streams.\<close>

type_synonym collected = "string \<times> string \<times> string list"

definition add_stdout :: "string \<Rightarrow> collected \<Rightarrow> collected" where
  "add_stdout chunk st = (case st of (so, se, tr) \<Rightarrow>
     (case append_capped so chunk ''stdout'' tr of (so', tr') \<Rightarrow> (so', se, tr')))"

definition add_stderr :: "string \<Rightarrow> collected \<Rightarrow> collected" where
  "add_stderr chunk st = (case st of (so, se, tr) \<Rightarrow>
     (case append_capped se chunk ''stderr'' tr of (se', tr') \<Rightarrow> (so, se', tr')))"

definition truthy :: "string option \<Rightarrow> bool" where
  "truthy c \<longleftrightarrow> c \<noteq> None \<and> c \<noteq> Some []"

fun collect_output :: "(string option \<times> string option) list \<Rightarrow> collected \<Rightarrow> collected" where
  "collect_output [] st = st"
| "collect_output ((o_chunk, e_chunk) # rest) st =
     (let st1 = (if truthy o_chunk then add_stdout (the o_chunk) st else st);
          st2 = (if truthy e_chunk then add_stderr (the e_chunk) st1 else st1)
      in collect_output rest st2)"

fun collect_frames :: "(nat \<times> string) list \<Rightarrow> collected \<Rightarrow> collected" where
  "collect_frames [] st = st"
| "collect_frames ((stream_type, payload) # rest) st =
     collect_frames rest
       (if payload = [] then st
        else if stream_type = 1 then add_stdout payload st
        else if stream_type = 2 then add_stderr payload st
        else st)"

definition exec_result :: "collected \<Rightarrow> int \<Rightarrow> int \<Rightarrow> exec_output" where
  "exec_result st code duration = (case st of (so, se, tr) \<Rightarrow>
     \<lparr>e_stdout = so, e_stderr = se, e_code = code, e_duration = duration,
      e_truncated = sort_streams tr\<rparr>)"

definition exec_opts_for :: "string list \<Rightarrow> (string \<times> string) list \<Rightarrow> int \<Rightarrow> exec_opts" where
  "exec_opts_for argv env timeout_s = (agent_opts (wrap_with_timeout argv timeout_s))\<lparr>x_env := env\<rparr>"

definition exec_with_stdin ::
  "'x ctx \<Rightarrow> string \<Rightarrow> string list \<Rightarrow> (string \<times> string) list \<Rightarrow> int \<Rightarrow> string \<Rightarrow>
    ('x, exn, exec_output) M" where
  "exec_with_stdin E cid argv env timeout_s stdin_bytes =
     bindM (o_exec_create (dk E) cid ((exec_opts_for argv env timeout_s)\<lparr>x_stdin := True\<rparr>))
      (\<lambda>exec_id.
     bindM (readM (o_mono E)) (\<lambda>start_ns.
     thenM (o_sock_open (dk E) exec_id)
    (thenM (tryM (o_sock_send (dk E) exec_id stdin_bytes)
        (\<lambda>e. if e = OSError then ret () else raise e))
    (bindM (o_sock_frames (dk E) exec_id) (\<lambda>frames.
     bindM (readM (o_mono E)) (\<lambda>end_ns.
     bindM (exit_code_of E exec_id) (\<lambda>code.
     ret (exec_result (collect_frames frames ([], [], [])) code
            ((end_ns - start_ns) div 1000000)))))))))"

definition exec_in_container ::
  "'x ctx \<Rightarrow> string \<Rightarrow> string list \<Rightarrow> (string \<times> string) list \<Rightarrow> int \<Rightarrow> string option \<Rightarrow>
    ('x, exn, exec_output) M" where
  "exec_in_container E cid argv env timeout_s stdin_bytes =
     (case stdin_bytes of
        Some bytes \<Rightarrow> exec_with_stdin E cid argv env timeout_s bytes
      | None \<Rightarrow>
         bindM (o_exec_create (dk E) cid (exec_opts_for argv env timeout_s)) (\<lambda>exec_id.
         bindM (readM (o_mono E)) (\<lambda>start_ns.
         bindM (o_exec_stream (dk E) exec_id) (\<lambda>(chunks, err).
         case err of
           Some e \<Rightarrow> raise e
         | None \<Rightarrow>
            bindM (readM (o_mono E)) (\<lambda>end_ns.
            bindM (exit_code_of E exec_id) (\<lambda>code.
            ret (exec_result (collect_output chunks ([], [], [])) code
                   ((end_ns - start_ns) div 1000000))))))))"

datatype stream_event = Ev_stdout string | Ev_stderr string | Ev_exit int | Ev_error

text \<open>
  The generator, run to its end: the events it yields, and the exception that ended it. The live
  chunks come first, the exit code last.
\<close>

fun stream_events :: "chunk list \<Rightarrow> stream_event list" where
  "stream_events [] = []"
| "stream_events ((o_chunk, e_chunk) # rest) =
     (if truthy o_chunk then [Ev_stdout (the o_chunk)] else []) @
     (if truthy e_chunk then [Ev_stderr (the e_chunk)] else []) @ stream_events rest"

definition exec_stream_in_container ::
  "'x ctx \<Rightarrow> string \<Rightarrow> string list \<Rightarrow> (string \<times> string) list \<Rightarrow> int \<Rightarrow>
    ('x, exn, stream_event list \<times> exn option) M" where
  "exec_stream_in_container E cid argv env timeout_s =
     tryM
      (bindM (o_exec_create (dk E) cid (exec_opts_for argv env timeout_s)) (\<lambda>exec_id.
       bindM (o_exec_stream (dk E) exec_id) (\<lambda>(chunks, err).
       case err of
         Some e \<Rightarrow> ret (stream_events chunks, Some e)
       | None \<Rightarrow>
          tryM (bindM (exit_code_of E exec_id) (\<lambda>code. ret (stream_events chunks @ [Ev_exit code], None)))
            (\<lambda>e. ret (stream_events chunks, Some e)))))
      (\<lambda>e. ret ([], Some e))"

section \<open>Supervised processes\<close>

definition NL :: string where
  "NL = [CHR 0x0A]"

text \<open>The script of the supervisor.\<close>

definition supervisor_script ::
  "string list \<Rightarrow> (string \<times> string) list \<Rightarrow> string \<Rightarrow> string \<Rightarrow> string \<Rightarrow> string \<Rightarrow> string" where
  "supervisor_script argv env cwd pid_path exit_path log_path =
     (let argv_quoted = join_with '' '' (map sh_quote argv);
          env_lines = concat (map (\<lambda>(k, v). ''export '' @ k @ ''='' @ sh_quote v @ NL) env);
          q = [CHR 0x22]
      in ''set +e'' @ NL @
         ''mkdir -p '' @ sh_quote (posix_dirname pid_path) @ NL @
         ''cd '' @ sh_quote cwd @ NL @
         env_lines @
         ''( exec '' @ argv_quoted @ '' > '' @ sh_quote log_path @ '' 2>&1 ) &'' @ NL @
         ''CHILD_PID=$!'' @ NL @
         ''echo '' @ q @ ''$CHILD_PID'' @ q @ '' > '' @ sh_quote pid_path @ NL @
         ''wait '' @ q @ ''$CHILD_PID'' @ q @ NL @
         ''echo $? > '' @ sh_quote exit_path @ NL)"

definition spawn_supervised ::
  "'x ctx \<Rightarrow> string \<Rightarrow> string list \<Rightarrow> (string \<times> string) list option \<Rightarrow> string \<Rightarrow> string \<Rightarrow> string \<Rightarrow>
    string \<Rightarrow> ('x, exn, string) M" where
  "spawn_supervised E cid argv env cwd pid_path exit_path log_path =
     bindM (o_exec_create (dk E) cid
       ((agent_opts [''/bin/bash'', ''-c'',
          supervisor_script argv (case_option [] id env) cwd pid_path exit_path log_path])
        \<lparr>x_stdout := False, x_stderr := False\<rparr>)) (\<lambda>exec_id.
     thenM (o_exec_detach (dk E) exec_id) (ret exec_id))"

definition pid_alive :: "'x ctx \<Rightarrow> string \<Rightarrow> int \<Rightarrow> ('x, exn, bool) M" where
  "pid_alive E cid ospid =
     bindM (exec_simple E cid [''/bin/kill'', ''-0'', str_int ospid]) (\<lambda>(_, _, rc). ret (rc = 0))"

definition signal_pid :: "'x ctx \<Rightarrow> string \<Rightarrow> int \<Rightarrow> int \<Rightarrow> ('x, exn, unit) M" where
  "signal_pid E cid ospid sig =
     thenM (exec_simple E cid [''/bin/kill'', ''-'' @ str_int sig, str_int ospid]) (ret ())"

definition read_text_in_container :: "'x ctx \<Rightarrow> string \<Rightarrow> string \<Rightarrow> ('x, exn, string option) M" where
  "read_text_in_container E cid abs_path =
     bindM (exec_simple E cid [''/bin/cat'', ''--'', abs_path]) (\<lambda>(out, _, rc).
     ret (if rc \<noteq> 0 then None else Some (decode_replace out)))"

definition tail_text_in_container ::
  "'x ctx \<Rightarrow> string \<Rightarrow> string \<Rightarrow> int \<Rightarrow> ('x, exn, string \<times> bool) M" where
  "tail_text_in_container E cid abs_path n =
     bindM (exec_simple E cid [''/usr/bin/tail'', ''-n'', str_int n, ''--'', abs_path]) (\<lambda>(out, _, rc).
     ret (if rc \<noteq> 0 then ([], False)
          else let truncated = OUTPUT_CAP_BYTES < length out;
                   kept = (if truncated then drop (length out - OUTPUT_CAP_BYTES) out else out)
               in (decode_replace kept, truncated)))"

definition stream_log_lines ::
  "'x ctx \<Rightarrow> string \<Rightarrow> string \<Rightarrow> ('x, exn, string list \<times> exn option) M" where
  "stream_log_lines E cid abs_path =
     tryM
      (bindM (o_exec_create (dk E) cid
          ((agent_opts [''/usr/bin/tail'', ''-n'', ''+1'', ''-F'', ''--'', abs_path])\<lparr>x_stderr := False\<rparr>))
        (\<lambda>exec_id.
       bindM (o_exec_stream (dk E) exec_id) (\<lambda>(chunks, err).
       ret (filter (\<lambda>c. c \<noteq> []) (map (\<lambda>(c, _). case_option [] id c) chunks), err))))
      (\<lambda>e. ret ([], Some e))"

section \<open>Files\<close>

definition put_archive_file ::
  "'x ctx \<Rightarrow> string \<Rightarrow> string \<Rightarrow> string \<Rightarrow> int \<Rightarrow> ('x, exn, unit) M" where
  "put_archive_file E cid abs_path content mode =
     (let parent = posix_dirname abs_path; name = posix_basename abs_path in
      bindM (exec_simple E cid [''/bin/mkdir'', ''-p'', ''--'', parent]) (\<lambda>(_, _, rc).
      if rc \<noteq> 0 then raise RuntimeError
      else o_put_archive (dk E) cid parent
        \<lparr>m_name = name, m_size = int (length content), m_mode = mode mod 512, m_uid = 10001,
         m_gid = 10001, m_kind = M_file, m_content = content\<rparr>))"

definition get_archive_file :: "'x ctx \<Rightarrow> string \<Rightarrow> string \<Rightarrow> ('x, exn, string \<times> int) M" where
  "get_archive_file E cid abs_path =
     bindM (tryM (o_get_archive (dk E) cid abs_path)
       (\<lambda>e. raise (if is_docker_not_found e then FileNotFoundError else e))) (\<lambda>members.
     case members of
       [] \<Rightarrow> raise FileNotFoundError
     | m # _ \<Rightarrow> (case m_kind m of
         M_dir \<Rightarrow> raise IsADirectoryError
       | M_other \<Rightarrow> raise IsADirectoryError
       | M_file \<Rightarrow> ret (m_content m, m_mode m)))"

section \<open>Inventory and statistics\<close>

record listed =
  v_name :: string
  v_created_us :: int
  v_labels :: labels

definition listed_of :: "resource \<Rightarrow> listed" where
  "listed_of d = \<lparr>v_name = d_name d, v_created_us = parse_docker_iso (d_created_iso d),
     v_labels = d_labels d\<rparr>"

text \<open>A failing list is an empty one.\<close>

definition list_containers_with_label :: "'x ctx \<Rightarrow> string \<Rightarrow> ('x, exn, listed list) M" where
  "list_containers_with_label E label_key =
     tryM (bindM (o_containers_list (dk E) label_key) (\<lambda>cs. ret (map listed_of cs))) (\<lambda>_. ret [])"

definition list_volumes_with_label :: "'x ctx \<Rightarrow> string \<Rightarrow> ('x, exn, listed list) M" where
  "list_volumes_with_label E label_key =
     tryM (bindM (o_volumes_list (dk E) label_key) (\<lambda>vs. ret (map listed_of vs))) (\<lambda>_. ret [])"

record stats =
  cpu_hundredths :: int
  memory_bytes :: int
  memory_limit_bytes :: int
  blkio_read_bytes :: int
  blkio_write_bytes :: int

definition or_zero :: "int option \<Rightarrow> int" where
  "or_zero x = case_option 0 id x"

text \<open>\<open>round\<close> to the nearest integer of \<open>a / b\<close> for \<open>0 < b\<close>, ties to even.\<close>

definition round_half_even :: "int \<Rightarrow> int \<Rightarrow> int" where
  "round_half_even a b =
     (let q = a div b; r = a mod b in
      if 2 * r < b then q else if b < 2 * r then q + 1 else if even q then q else q + 1)"

text \<open>The percentage in hundredths, where the source rounds a float to two digits.\<close>

definition stats_of :: "raw_stats \<Rightarrow> stats" where
  "stats_of q =
     (let online = (if or_zero (q_online_cpus q) = 0 then 1 else or_zero (q_online_cpus q));
          cpu_delta = or_zero (q_cpu_total q) - or_zero (q_precpu_total q);
          sys_delta = or_zero (q_sys_total q) - or_zero (q_presys_total q);
          total = (\<lambda>ops. sum_list (map snd (filter (\<lambda>e. fst e \<in> ops) (q_blkio q))))
      in \<lparr>cpu_hundredths =
            (if 0 < sys_delta then round_half_even (cpu_delta * online * 10000) sys_delta else 0),
          memory_bytes = max 0 (or_zero (q_mem_usage q) - or_zero (q_mem_cache q)),
          memory_limit_bytes = or_zero (q_mem_limit q),
          blkio_read_bytes = total {''Read'', ''read''},
          blkio_write_bytes = total {''Write'', ''write''}\<rparr>)"

text \<open>\<open>None\<close> is the empty dictionary of a container that is gone.\<close>

definition container_stats :: "'x ctx \<Rightarrow> string \<Rightarrow> ('x, exn, stats option) M" where
  "container_stats E cid =
     tryM (thenM (o_container_get (dk E) cid)
            (bindM (o_container_stats (dk E) cid) (\<lambda>q. ret (Some (stats_of q)))))
       (\<lambda>e. if is_docker_not_found e then ret None else raise e)"

section \<open>The output cap\<close>

lemma append_capped_buf:
  "length buf \<le> OUTPUT_CAP_BYTES \<Longrightarrow>
    fst (append_capped buf chunk name tr) =
      (if name \<in> set tr then buf else take OUTPUT_CAP_BYTES (buf @ chunk))"
  by (auto simp: append_capped_def Let_def nat_diff_distrib' nat_int)

lemma append_capped_flag:
  "length buf \<le> OUTPUT_CAP_BYTES \<Longrightarrow>
    set (snd (append_capped buf chunk name tr)) =
      (if name \<in> set tr \<or> OUTPUT_CAP_BYTES = length buf \<or> OUTPUT_CAP_BYTES < length (buf @ chunk)
       then insert name (set tr) else set tr)"
  by (auto simp: append_capped_def Let_def)

text \<open>The chunks of one stream that the loops look at.\<close>

definition stdout_bytes :: "chunk list \<Rightarrow> string list" where
  "stdout_bytes cs = map (the \<circ> fst) (filter (truthy \<circ> fst) cs)"

definition stderr_bytes :: "chunk list \<Rightarrow> string list" where
  "stderr_bytes cs = map (the \<circ> snd) (filter (truthy \<circ> snd) cs)"

text \<open>
  What the loop should have collected after a prefix of chunks with contents \<open>so\<close> and \<open>se\<close>: the
  first bytes of each stream, and a mark on each stream that lost a byte.
\<close>

definition capped_view :: "string \<Rightarrow> string \<Rightarrow> collected \<Rightarrow> bool" where
  "capped_view so se st \<longleftrightarrow>
     (case st of (a, b, tr) \<Rightarrow>
        a = take OUTPUT_CAP_BYTES so \<and> b = take OUTPUT_CAP_BYTES se \<and>
        set tr = (if OUTPUT_CAP_BYTES < length so then {''stdout''} else {}) \<union>
                 (if OUTPUT_CAP_BYTES < length se then {''stderr''} else {}))"

lemma add_stdout_view:
  "capped_view so se st \<Longrightarrow> chunk \<noteq> [] \<Longrightarrow> capped_view (so @ chunk) se (add_stdout chunk st)"
  by (cases st) (auto simp: capped_view_def add_stdout_def append_capped_def Let_def min_def
      nat_diff_distrib' split: if_splits)

lemma add_stderr_view:
  "capped_view so se st \<Longrightarrow> chunk \<noteq> [] \<Longrightarrow> capped_view so (se @ chunk) (add_stderr chunk st)"
  by (cases st) (auto simp: capped_view_def add_stderr_def append_capped_def Let_def min_def
      nat_diff_distrib' split: if_splits)

lemma truthy_the: "truthy c \<Longrightarrow> the c \<noteq> []"
  by (auto simp: truthy_def)

lemma collect_output_view:
  "capped_view so se st \<Longrightarrow>
    capped_view (so @ concat (stdout_bytes cs)) (se @ concat (stderr_bytes cs)) (collect_output cs st)"
proof (induction cs st arbitrary: so se rule: collect_output.induct)
  case (2 oc ec rest st)
  let ?so = "so @ (if truthy oc then the oc else [])" and ?se = "se @ (if truthy ec then the ec else [])"
  let ?st1 = "if truthy oc then add_stdout (the oc) st else st"
  let ?st2 = "if truthy ec then add_stderr (the ec) ?st1 else ?st1"
  have "capped_view ?so se ?st1"
    using 2(2) add_stdout_view [of so se st "the oc"] by (simp add: truthy_the)
  then have "capped_view ?so ?se ?st2"
    using add_stderr_view [of ?so se ?st1 "the ec"] by (simp add: truthy_the)
  from 2(1) [OF refl refl this] show ?case
    by (cases "truthy oc"; cases "truthy ec") (simp_all add: stdout_bytes_def stderr_bytes_def)
qed (simp add: stdout_bytes_def stderr_bytes_def)

lemma capped_view_start: "capped_view [] [] ([], [], [])"
  by (simp add: capped_view_def)

lemma exec_result_capped:
  assumes "capped_view so se st"
  shows "e_stdout (exec_result st code d) = take OUTPUT_CAP_BYTES so"
    and "e_stderr (exec_result st code d) = take OUTPUT_CAP_BYTES se"
    and "e_truncated (exec_result st code d) =
      (if OUTPUT_CAP_BYTES < length se then [''stderr''] else []) @
      (if OUTPUT_CAP_BYTES < length so then [''stdout''] else [])"
  using assms by (cases st; simp add: capped_view_def exec_result_def sort_streams_def)+

section \<open>Properties\<close>

text \<open>
  C18: every container the service asks for has the hardening of SPECIFICATION 401, whatever the
  caller asks for within valid limits: read-only root, no capabilities, no privilege gain, the
  unprivileged user, positive limits on processes, memory, processor and files, one writable
  volume at the workspace; outside development mode it runs under \<open>runsc\<close>.
\<close>

theorem containers_hardened:
  assumes "limits_ok l"
  shows "\<exists>f. create_container E sid tn vol l = o_container_create (dk E) f \<and> hardened f \<and>
    (\<not> dev_mode (cfg E) \<longrightarrow> f_runtime f = Some ''runsc'') \<and> f_labels f = session_labels sid tn"
  unfolding create_container_def
  by (rule exI, rule conjI [OF refl], rule conjI [OF hardening_flags_hardened [OF assms]])
    (simp add: hardening_flags_def session_labels_def)

lemma containers_hardened_witness:
  "\<exists>l f. limits_ok l \<and> hardened f \<and>
    create_container (testbed default_settings) ''s'' ''t'' ''v'' l = o_container_create tb_sdk f"
proof -
  let ?l = "\<lparr>vcpu = 2, memory_mib = 2048, workspace_mib = 1024, pids = 256, nofile = 1024,
    exec_timeout_s = 60, max_processes = 8\<rparr>"
  have "limits_ok ?l" by (simp add: limits_ok_def)
  from containers_hardened [OF this, of "testbed default_settings" "''s''" "''t''" "''v''"] this
  show ?thesis by (auto simp: testbed_def)
qed

text \<open>
  C17: the output of an execution is the first 8 MiB of each stream, whatever the chunks it came in
  and however the two streams are interleaved, and a stream is reported as truncated exactly when
  it lost a byte.
\<close>

theorem output_capped:
  "e_stdout (exec_result (collect_output cs ([], [], [])) code d) =
     take OUTPUT_CAP_BYTES (concat (stdout_bytes cs)) \<and>
   e_stderr (exec_result (collect_output cs ([], [], [])) code d) =
     take OUTPUT_CAP_BYTES (concat (stderr_bytes cs)) \<and>
   e_truncated (exec_result (collect_output cs ([], [], [])) code d) =
     (if OUTPUT_CAP_BYTES < length (concat (stderr_bytes cs)) then [''stderr''] else []) @
     (if OUTPUT_CAP_BYTES < length (concat (stdout_bytes cs)) then [''stdout''] else [])"
  using exec_result_capped [OF collect_output_view [OF capped_view_start, of cs]] by simp

text \<open>
  C16: the line of the supervisor's script that starts the process splits, in a POSIX shell, into
  exactly the requested argument vector, whatever characters the arguments contain.
\<close>

theorem supervised_argv_exact:
  "\<exists>before after. supervisor_script argv env cwd pid_path exit_path log_path =
      before @ ''( exec '' @ join_with '' '' (map sh_quote argv) @ '' > '' @ sh_quote log_path @
        '' 2>&1 ) &'' @ NL @ after \<and>
    sh_words (join_with '' '' (map sh_quote argv)) = Some argv \<and>
    sh_words (sh_quote log_path) = Some [log_path]"
proof -
  have "sh_words (sh_quote log_path) = Some [log_path]"
    using sh_words_quoted [of "[log_path]"] by simp
  moreover have "\<exists>before after. supervisor_script argv env cwd pid_path exit_path log_path =
      before @ ''( exec '' @ join_with '' '' (map sh_quote argv) @ '' > '' @ sh_quote log_path @
        '' 2>&1 ) &'' @ NL @ after"
    unfolding supervisor_script_def Let_def
    by (intro exI [of _ "''set +e'' @ NL @ ''mkdir -p '' @ sh_quote (posix_dirname pid_path) @ NL @
        ''cd '' @ sh_quote cwd @ NL @
        concat (map (\<lambda>(k, v). ''export '' @ k @ ''='' @ sh_quote v @ NL) env)"] exI)
      (simp only: append.assoc)
  ultimately show ?thesis using sh_words_quoted [of argv] by blast
qed

end
