(* ===== verification/World.thy ===== *)
theory World
  imports RegSessions RegTenants RegIdempotency RegProcesses Docker
begin

text \<open>
  The state the service works on: the tables of the registry, the audit emitter and its files,
  and the outside. Then the operations of the registry and of the Docker client as effects on
  this state; a registry method is one atomic step.
\<close>

record audit_st =
  primary :: "audit_line list"
  fallback_file :: "audit_line list"
  buffer :: "audit_line list"
  unhealthy_since :: "int option"

record 'x world =
  w_sess :: sessions
  w_tenants :: tenants
  w_tokens :: tokens
  w_procs :: processes
  w_idem :: idem_table
  w_audit :: audit_st
  w_out :: 'x

type_synonym ('x, 'a) W = "('x world, exn, 'a) M"

section \<open>Lifting\<close>

definition outM :: "('x, exn, 'a) M \<Rightarrow> ('x, 'a) W" where
  "outM m w = (case m (w_out w) of (r, x) \<Rightarrow> (r, w\<lparr>w_out := x\<rparr>))"

definition tryTable :: "('x world \<Rightarrow> exn + 'x world) \<Rightarrow> ('x, unit) W" where
  "tryTable f w = (case f w of Inl e \<Rightarrow> (Inl e, w) | Inr w' \<Rightarrow> (Inr (), w'))"

definition now_ms :: "'x ctx \<Rightarrow> ('x, ms) W" where
  "now_ms E = outM (readM (o_now E))"

definition monotonic_ns :: "'x ctx \<Rightarrow> ('x, int) W" where
  "monotonic_ns E = outM (readM (o_mono E))"

definition new_ulid :: "'x ctx \<Rightarrow> ('x, string) W" where
  "new_ulid E = outM (readM (o_ulid E))"

section \<open>The registry\<close>

definition r_get :: "string \<Rightarrow> string \<Rightarrow> ('x, session option) W" where
  "r_get sid tenant = getsM (\<lambda>w. get_session sid tenant (w_sess w))"

definition r_get_unscoped :: "string \<Rightarrow> ('x, session option) W" where
  "r_get_unscoped sid = getsM (\<lambda>w. get_unscoped sid (w_sess w))"

definition r_insert :: "'x ctx \<Rightarrow> string \<Rightarrow> string \<Rightarrow> string \<Rightarrow> limits \<Rightarrow> ('x, unit) W" where
  "r_insert E sid tenant vol l =
     bindM (now_ms E) (\<lambda>ts. tryTable (\<lambda>w. map_sum id (\<lambda>t. w\<lparr>w_sess := t\<rparr>)
       (insert_session ts sid tenant vol l (w_sess w))))"

definition r_set_container :: "string \<Rightarrow> string \<Rightarrow> ('x, unit) W" where
  "r_set_container sid cid = modifyM (\<lambda>w. w\<lparr>w_sess := set_container sid cid (w_sess w)\<rparr>)"

definition r_transition :: "'x ctx \<Rightarrow> string \<Rightarrow> status \<Rightarrow> ('x, unit) W" where
  "r_transition E sid new =
     bindM (now_ms E) (\<lambda>ts. tryTable (\<lambda>w. map_sum id (\<lambda>t. w\<lparr>w_sess := t\<rparr>)
       (transition ts sid new (w_sess w))))"

definition r_touch_activity :: "'x ctx \<Rightarrow> string \<Rightarrow> ('x, unit) W" where
  "r_touch_activity E sid =
     bindM (now_ms E) (\<lambda>ts. modifyM (\<lambda>w. w\<lparr>w_sess := touch_activity ts sid (w_sess w)\<rparr>))"

definition r_transition_orphaned :: "'x ctx \<Rightarrow> string \<Rightarrow> ('x, unit) W" where
  "r_transition_orphaned E sid =
     bindM (now_ms E) (\<lambda>ts. modifyM (\<lambda>w. w\<lparr>w_sess := transition_orphaned ts sid (w_sess w)\<rparr>))"

definition r_insert_process :: "process \<Rightarrow> ('x, unit) W" where
  "r_insert_process p =
     tryTable (\<lambda>w. map_sum id (\<lambda>t. w\<lparr>w_procs := t\<rparr>) (insert_process p (w_procs w)))"

definition r_get_process :: "string \<Rightarrow> string \<Rightarrow> string \<Rightarrow> ('x, process option) W" where
  "r_get_process sid pid tenant = getsM (\<lambda>w. get_process sid pid (Some tenant) (w_procs w))"

definition r_mark_process_exited ::
  "'x ctx \<Rightarrow> string \<Rightarrow> int option \<Rightarrow> ('x, unit) W" where
  "r_mark_process_exited E pid code =
     bindM (now_ms E) (\<lambda>ts.
       modifyM (\<lambda>w. w\<lparr>w_procs := mark_process_exited ts pid code None (w_procs w)\<rparr>))"

definition r_touch_process_polled :: "'x ctx \<Rightarrow> string \<Rightarrow> ('x, unit) W" where
  "r_touch_process_polled E pid =
     bindM (now_ms E) (\<lambda>ts.
       modifyM (\<lambda>w. w\<lparr>w_procs := touch_process_polled ts pid (w_procs w)\<rparr>))"

definition r_delete_process :: "string \<Rightarrow> string \<Rightarrow> ('x, unit) W" where
  "r_delete_process sid pid = modifyM (\<lambda>w. w\<lparr>w_procs := delete_process sid pid (w_procs w)\<rparr>)"

definition r_insert_token ::
  "'x ctx \<Rightarrow> string \<Rightarrow> string \<Rightarrow> string \<Rightarrow> scope list option \<Rightarrow> string option \<Rightarrow> ('x, unit) W" where
  "r_insert_token E kid tenant h scopes note =
     bindM (now_ms E) (\<lambda>ts. tryTable (\<lambda>w. map_sum id (\<lambda>t. w\<lparr>w_tokens := t\<rparr>)
       (insert_token ts kid tenant h scopes note (w_tokens w))))"

definition r_revoke_token :: "string \<Rightarrow> ms \<Rightarrow> ('x, unit) W" where
  "r_revoke_token kid at = modifyM (\<lambda>w. w\<lparr>w_tokens := revoke_token kid at (w_tokens w)\<rparr>)"

definition r_create_tenant ::
  "'x ctx \<Rightarrow> string \<Rightarrow> string \<Rightarrow> tenant_limits \<Rightarrow> string list option \<Rightarrow> ('x, unit) W" where
  "r_create_tenant E tid name l egress =
     bindM (now_ms E) (\<lambda>ts.
       modifyM (\<lambda>w. w\<lparr>w_tenants := create_tenant ts tid name l egress (w_tenants w)\<rparr>))"

section \<open>What a step leaves alone\<close>

text \<open>
  \<open>frame I\<close>: the invariant \<open>I\<close> does not look at the outside, so every effect on the outside
  keeps it.
\<close>

definition frame :: "('x world \<Rightarrow> bool) \<Rightarrow> bool" where
  "frame I \<longleftrightarrow> (\<forall>w x. I (w\<lparr>w_out := x\<rparr>) = I w)"

lemma frameI: "(\<And>w x. I (w\<lparr>w_out := x\<rparr>) = I w) \<Longrightarrow> frame I"
  by (simp add: frame_def)

lemma outM_frame: "frame I \<Longrightarrow> I (snd (outM m w)) = I w"
  by (simp add: frame_def outM_def split: prod.splits)

lemma keeps_out: "frame I \<Longrightarrow> keeps I (outM m)"
  by (simp add: keeps_def outM_frame)

lemma outM_simps [simp]:
  "w_sess (snd (outM m w)) = w_sess w" "w_procs (snd (outM m w)) = w_procs w"
  "w_tokens (snd (outM m w)) = w_tokens w" "w_audit (snd (outM m w)) = w_audit w"
  "w_tenants (snd (outM m w)) = w_tenants w" "w_idem (snd (outM m w)) = w_idem w"
  by (simp_all add: outM_def split: prod.splits)

lemma outM_eq:
  assumes "outM m w = (r, w')"
  shows "w_sess w' = w_sess w" "w_procs w' = w_procs w" "w_tokens w' = w_tokens w"
    "w_audit w' = w_audit w" "w_tenants w' = w_tenants w" "w_idem w' = w_idem w"
  using assms by (auto simp: outM_def split: prod.splits)

lemma outM_read: "outM (readM f) w = (case f (w_out w) of (v, x) \<Rightarrow> (Inr v, w\<lparr>w_out := x\<rparr>))"
  by (simp add: outM_def readM_def split: prod.splits)

lemma keeps_now [keeps_rules]: "frame I \<Longrightarrow> keeps I (now_ms E)"
  unfolding now_ms_def by (rule keeps_out)

lemma keeps_mono [keeps_rules]: "frame I \<Longrightarrow> keeps I (monotonic_ns E)"
  unfolding monotonic_ns_def by (rule keeps_out)

lemma keeps_ulid [keeps_rules]: "frame I \<Longrightarrow> keeps I (new_ulid E)"
  unfolding new_ulid_def by (rule keeps_out)

lemma keeps_tryTable:
  "(\<And>w w'. I w \<Longrightarrow> f w = Inr w' \<Longrightarrow> I w') \<Longrightarrow> keeps I (tryTable f)"
  by (auto simp: keeps_def tryTable_def split: sum.splits)

lemma keeps_r_reads [keeps_rules]:
  "keeps I (r_get sid tenant)" "keeps I (r_get_unscoped sid)" "keeps I (r_get_process sid pid tenant)"
  by (simp_all add: r_get_def r_get_unscoped_def r_get_process_def keeps_gets)

end
