(* ===== verification/AuditLog.thy ===== *)
theory AuditLog
  imports World
begin

text \<open>
  The audit emitter (\<open>api/audit.py\<close>): its buffer, its health, and the two files it writes. The
  locale \<open>audit_sink\<close> states what the services rely on; it is interpreted on the emitter.
\<close>

section \<open>The emitter\<close>

definition is_healthy :: "'x world \<Rightarrow> bool" where
  "is_healthy w \<longleftrightarrow> unhealthy_since (w_audit w) = None"

definition precheck :: "('x, unit) W" where
  "precheck = bindM (getsM is_healthy) (\<lambda>b. guardM b AuditUnhealthy)"

definition upd_audit :: "(audit_st \<Rightarrow> audit_st) \<Rightarrow> ('x, unit) W" where
  "upd_audit f = modifyM (\<lambda>w. w\<lparr>w_audit := f (w_audit w)\<rparr>)"

definition write_line :: "'x ctx \<Rightarrow> audit_line \<Rightarrow> ('x, unit) W" where
  "write_line E line =
     bindM (outM (readM (o_write E line))) (\<lambda>ok.
     if ok then upd_audit (\<lambda>a. a\<lparr>primary := primary a @ [line]\<rparr>) else raise OSError)"

text \<open>
  The loop of \<open>_drain_buffer_locked\<close>: how many lines reached the log, and whether all did.
\<close>

primrec drain_loop :: "'x ctx \<Rightarrow> audit_line list \<Rightarrow> ('x, nat \<times> bool) W" where
  "drain_loop E [] = ret (0, True)"
| "drain_loop E (line # ls) =
     bindM (tryM (thenM (write_line E line) (ret True)) (\<lambda>_. ret False)) (\<lambda>ok.
     if ok then bindM (drain_loop E ls) (\<lambda>(n, all). ret (Suc n, all)) else ret (0, False))"

definition drain_buffer :: "'x ctx \<Rightarrow> ('x, unit) W" where
  "drain_buffer E =
     bindM (getsM (buffer \<circ> w_audit)) (\<lambda>ls.
     bindM (drain_loop E ls) (\<lambda>(drained, all).
     thenM (upd_audit (\<lambda>a. a\<lparr>buffer := drop drained (buffer a)\<rparr>))
       (if all then ret () else raise OSError)))"

definition maybe_flush_to_fallback :: "'x ctx \<Rightarrow> ('x, unit) W" where
  "maybe_flush_to_fallback E =
     bindM (getsM w_audit) (\<lambda>a.
     case unhealthy_since a of
       None \<Rightarrow> raise AssertionError
     | Some since \<Rightarrow>
         bindM (monotonic_ns E) (\<lambda>now.
         if now - since < audit_buffer_timeout_ms (cfg E) * 1000000 then ret ()
         else if buffer a = [] then ret ()
         else bindM (outM (readM (o_fallback E (buffer a)))) (\<lambda>failed_after.
           case failed_after of
             None \<Rightarrow> upd_audit (\<lambda>a. a\<lparr>fallback_file := fallback_file a @ buffer a, buffer := []\<rparr>)
           | Some k \<Rightarrow> upd_audit (\<lambda>a. a\<lparr>fallback_file := fallback_file a @ take k (buffer a)\<rparr>))))"

record event =
  ev_kind :: string
  ev_tenant :: string
  ev_session :: "string option"
  ev_payload :: json
  ev_result :: string
  ev_duration :: "int option"

definition event_line :: "ms \<Rightarrow> event \<Rightarrow> audit_line" where
  "event_line ts ev = Rec \<lparr>a_ts = ts, a_kind = ev_kind ev, a_tenant = ev_tenant ev,
     a_session = ev_session ev, a_actor = None, a_payload = ev_payload ev,
     a_result = ev_result ev, a_duration = ev_duration ev\<rparr>"

text \<open>Calls of \<open>emit\<close> that leave \<open>result\<close> and \<open>duration_ms\<close> at their defaults.\<close>

definition ok_event :: "string \<Rightarrow> string \<Rightarrow> string \<Rightarrow> json \<Rightarrow> event" where
  "ok_event kind tenant sid payload = \<lparr>ev_kind = kind, ev_tenant = tenant, ev_session = Some sid,
     ev_payload = payload, ev_result = ''ok'', ev_duration = None\<rparr>"

definition go_unhealthy :: "'x ctx \<Rightarrow> ('x, unit) W" where
  "go_unhealthy E =
     bindM (getsM is_healthy) (\<lambda>b.
     if b then bindM (monotonic_ns E) (\<lambda>now. upd_audit (\<lambda>a. a\<lparr>unhealthy_since := Some now\<rparr>))
     else ret ())"

definition emit :: "'x ctx \<Rightarrow> event \<Rightarrow> ('x, unit) W" where
  "emit E ev =
     bindM (now_ms E) (\<lambda>ts. let line = event_line ts ev in
     tryM
      (thenM (drain_buffer E)
      (thenM (write_line E line)
             (upd_audit (\<lambda>a. a\<lparr>unhealthy_since := None\<rparr>))))
      (\<lambda>e. if e = OSError then
              thenM (go_unhealthy E)
             (thenM (upd_audit (\<lambda>a. a\<lparr>buffer := buffer a @ [line]\<rparr>))
                    (maybe_flush_to_fallback E))
            else raise e))"

definition maintenance_tick :: "'x ctx \<Rightarrow> ('x, unit) W" where
  "maintenance_tick E =
     bindM (getsM is_healthy) (\<lambda>b.
     if b then ret ()
     else bindM (now_ms E) (\<lambda>ts.
       tryM
        (thenM (write_line E (Heartbeat ts))
        (thenM (drain_buffer E)
               (upd_audit (\<lambda>a. a\<lparr>unhealthy_since := None\<rparr>))))
        (\<lambda>e. if e = OSError then maybe_flush_to_fallback E else raise e)))"

section \<open>What each operation does\<close>

lemma upd_audit_run [simp]: "upd_audit f w = (Inr (), w\<lparr>w_audit := f (w_audit w)\<rparr>)"
  by (simp add: upd_audit_def)

lemma precheck_run: "precheck w = (if is_healthy w then (Inr (), w) else (Inl AuditUnhealthy, w))"
  by (simp add: precheck_def guardM_def)

lemma write_line_run:
  "write_line E line w = (r, w') \<Longrightarrow>
    r = Inr () \<and> w_audit w' = (w_audit w)\<lparr>primary := primary (w_audit w) @ [line]\<rparr> \<or>
    r = Inl OSError \<and> w_audit w' = w_audit w"
  by (auto simp: write_line_def bindM_def outM_read split: prod.splits if_splits)

lemma drain_loop_run:
  "drain_loop E ls w = (r, w') \<Longrightarrow>
    \<exists>n. n \<le> length ls \<and> r = Inr (n, n = length ls) \<and>
      w_audit w' = (w_audit w)\<lparr>primary := primary (w_audit w) @ take n ls\<rparr>"
proof (induction ls arbitrary: w r w')
  case Nil
  then show ?case by simp
next
  case (Cons line ls)
  obtain q w1 where q: "write_line E line w = (q, w1)" by fastforce
  from write_line_run [OF this] show ?case
  proof (elim disjE conjE)
    assume ok: "q = Inr ()" and
      a: "w_audit w1 = (w_audit w)\<lparr>primary := primary (w_audit w) @ [line]\<rparr>"
    obtain q2 w2 where q2: "drain_loop E ls w1 = (q2, w2)" by fastforce
    from Cons.IH [OF this] obtain n where n: "n \<le> length ls" "q2 = Inr (n, n = length ls)"
      "w_audit w2 = (w_audit w1)\<lparr>primary := primary (w_audit w1) @ take n ls\<rparr>" by blast
    from Cons.prems q ok q2 n(2) have "r = Inr (Suc n, Suc n = length (line # ls))" "w' = w2"
      by (auto simp: bindM_def thenM_def tryM_def)
    then show ?thesis using n a by (intro exI [of _ "Suc n"]) simp
  next
    assume "q = Inl OSError" "w_audit w1 = w_audit w"
    then show ?thesis using Cons.prems q
      by (intro exI [of _ 0]) (auto simp: bindM_def thenM_def tryM_def)
  qed
qed

lemma drain_buffer_run:
  assumes "drain_buffer E w = (r, w')"
  obtains n where "n \<le> length (buffer (w_audit w))"
    "r = (if n = length (buffer (w_audit w)) then Inr () else Inl OSError)"
    "w_audit w' = (w_audit w)\<lparr>primary := primary (w_audit w) @ take n (buffer (w_audit w)),
       buffer := drop n (buffer (w_audit w))\<rparr>"
proof -
  obtain q w1 where q: "drain_loop E (buffer (w_audit w)) w = (q, w1)" by fastforce
  from drain_loop_run [OF this] obtain n where n: "n \<le> length (buffer (w_audit w))"
    "q = Inr (n, n = length (buffer (w_audit w)))"
    "w_audit w1 = (w_audit w)\<lparr>primary := primary (w_audit w) @ take n (buffer (w_audit w))\<rparr>" by blast
  show ?thesis
    using assms q n that [of n]
    by (auto simp: drain_buffer_def bindM_def thenM_def split: if_splits)
qed

lemma ex_take_same [simp]: "\<exists>k. take j xs = take k xs"
  by blast

lemma maybe_flush_run:
  assumes "maybe_flush_to_fallback E w = (r, w')" "unhealthy_since (w_audit w) \<noteq> None"
  shows "r = Inr () \<and> primary (w_audit w') = primary (w_audit w) \<and>
    unhealthy_since (w_audit w') = unhealthy_since (w_audit w) \<and>
    (buffer (w_audit w') = buffer (w_audit w) \<and>
       (\<exists>k. fallback_file (w_audit w') = fallback_file (w_audit w) @ take k (buffer (w_audit w))) \<or>
     buffer (w_audit w') = [] \<and>
       fallback_file (w_audit w') = fallback_file (w_audit w) @ buffer (w_audit w))"
  using assms
  by (auto simp: maybe_flush_to_fallback_def bindM_def monotonic_ns_def outM_read
      split: prod.splits if_splits option.splits)

lemma go_unhealthy_run:
  assumes "go_unhealthy E w = (r, w')"
  shows "r = Inr () \<and> unhealthy_since (w_audit w') \<noteq> None \<and>
    primary (w_audit w') = primary (w_audit w) \<and> buffer (w_audit w') = buffer (w_audit w) \<and>
    fallback_file (w_audit w') = fallback_file (w_audit w)"
  using assms
  by (auto simp: go_unhealthy_def bindM_def monotonic_ns_def outM_read is_healthy_def
      split: prod.splits if_splits)

text \<open>
  The two ways an \<open>emit\<close> ends. Either everything, backlog first, is in the log; or a prefix of
  the backlog is, and the rest with the new line is in the buffer or in the fallback file.
\<close>

definition all_written :: "audit_st \<Rightarrow> audit_line list \<Rightarrow> audit_st \<Rightarrow> bool" where
  "all_written a new a' \<longleftrightarrow> unhealthy_since a' = None \<and> buffer a' = [] \<and>
     primary a' = primary a @ new \<and> fallback_file a' = fallback_file a"

definition part_written :: "audit_st \<Rightarrow> audit_line list \<Rightarrow> audit_st \<Rightarrow> bool" where
  "part_written a new a' \<longleftrightarrow> unhealthy_since a' \<noteq> None \<and>
     (\<exists>n. primary a' = primary a @ take n new \<and>
       (buffer a' = drop n new \<and> (\<exists>k. fallback_file a' = fallback_file a @ take k (drop n new)) \<or>
        buffer a' = [] \<and> fallback_file a' = fallback_file a @ drop n new))"

lemma part_writtenI:
  assumes "unhealthy_since a' \<noteq> None" "primary a' = primary a @ take n new"
    and "buffer a' = drop n new \<and> (\<exists>k. fallback_file a' = fallback_file a @ take k (drop n new)) \<or>
      buffer a' = [] \<and> fallback_file a' = fallback_file a @ drop n new"
  shows "part_written a new a'"
  unfolding part_written_def using assms by blast

lemma emit_fails:
  assumes "unhealthy_since (w_audit w1) = unhealthy_since (w_audit w)"
    and "primary (w_audit w1) = primary (w_audit w) @ take n (buffer (w_audit w))"
    and "buffer (w_audit w1) = drop n (buffer (w_audit w))" "n \<le> length (buffer (w_audit w))"
    and "fallback_file (w_audit w1) = fallback_file (w_audit w)"
    and run: "thenM (go_unhealthy E) (thenM (upd_audit (\<lambda>a. a\<lparr>buffer := buffer a @ [line]\<rparr>))
      (maybe_flush_to_fallback E)) w1 = (r, w')"
  shows "r = Inr () \<and> part_written (w_audit w) (buffer (w_audit w) @ [line]) (w_audit w')"
proof -
  obtain q w2 where q: "go_unhealthy E w1 = (q, w2)" by fastforce
  note g = go_unhealthy_run [OF q]
  let ?w3 = "w2\<lparr>w_audit := (w_audit w2)\<lparr>buffer := buffer (w_audit w2) @ [line]\<rparr>\<rparr>"
  from run q g have m: "maybe_flush_to_fallback E ?w3 = (r, w')"
    by (simp add: thenM_def bindM_def)
  have "unhealthy_since (w_audit ?w3) \<noteq> None" using g by simp
  note f = maybe_flush_run [OF m this]
  let ?new = "buffer (w_audit w) @ [line]"
  have b: "buffer (w_audit ?w3) = drop n ?new" using g assms(3,4) by simp
  have p: "primary (w_audit w') = primary (w_audit w) @ take n ?new" "unhealthy_since (w_audit w') \<noteq> None"
    using f g assms(2,4) by auto
  have c: "fallback_file (w_audit ?w3) = fallback_file (w_audit w)" using g assms(5) by simp
  have "buffer (w_audit w') = drop n ?new \<and>
       (\<exists>k. fallback_file (w_audit w') = fallback_file (w_audit w) @ take k (drop n ?new)) \<or>
     buffer (w_audit w') = [] \<and> fallback_file (w_audit w') = fallback_file (w_audit w) @ drop n ?new"
    using f unfolding b c by blast
  with p f show ?thesis unfolding part_written_def by blast
qed

lemma emit_run:
  assumes "emit E ev w = (r, w')"
  obtains ts where "r = Inr ()"
    "all_written (w_audit w) (buffer (w_audit w) @ [event_line ts ev]) (w_audit w') \<or>
     part_written (w_audit w) (buffer (w_audit w) @ [event_line ts ev]) (w_audit w')"
proof -
  obtain ts x where now: "o_now E (w_out w) = (ts, x)" by fastforce
  let ?w = "w\<lparr>w_out := x\<rparr>" and ?line = "event_line ts ev"
  let ?h = "\<lambda>e. if e = OSError then thenM (go_unhealthy E)
    (thenM (upd_audit (\<lambda>a. a\<lparr>buffer := buffer a @ [?line]\<rparr>)) (maybe_flush_to_fallback E)) else raise e"
  obtain q w1 where q: "drain_buffer E ?w = (q, w1)" by fastforce
  obtain q2 w2 where q2: "write_line E ?line w1 = (q2, w2)" by fastforce
  from drain_buffer_run [OF q] obtain n where n: "n \<le> length (buffer (w_audit w))"
    "q = (if n = length (buffer (w_audit w)) then Inr () else Inl OSError)"
    "w_audit w1 = (w_audit w)\<lparr>primary := primary (w_audit w) @ take n (buffer (w_audit w)),
       buffer := drop n (buffer (w_audit w))\<rparr>" by auto
  have e: "emit E ev w = (case thenM (drain_buffer E) (thenM (write_line E ?line)
      (upd_audit (\<lambda>a. a\<lparr>unhealthy_since := None\<rparr>))) ?w of
      (Inl e, s) \<Rightarrow> ?h e s | (Inr y, s) \<Rightarrow> (Inr y, s))"
    by (simp add: emit_def bindM_def now_ms_def outM_read now Let_def tryM_def)
  show ?thesis
  proof (cases "n = length (buffer (w_audit w))")
    case True
    note full = this
    from write_line_run [OF q2] show ?thesis
    proof (elim disjE conjE)
      assume "q2 = Inr ()" "w_audit w2 = (w_audit w1)\<lparr>primary := primary (w_audit w1) @ [?line]\<rparr>"
      with e q q2 n full assms show ?thesis
        by (intro that [of ts]) (auto simp: thenM_def bindM_def all_written_def)
    next
      assume f: "q2 = Inl OSError" "w_audit w2 = w_audit w1"
      with e q q2 n full assms have "?h OSError w2 = (r, w')"
        by (auto simp: thenM_def bindM_def)
      with emit_fails [of w2 w n E ?line r w'] f n full show ?thesis
        by (intro that [of ts]) auto
    qed
  next
    case False
    with e q n assms have "?h OSError w1 = (r, w')" by (auto simp: thenM_def bindM_def)
    with emit_fails [of w1 w n E ?line r w'] n show ?thesis by (intro that [of ts]) auto
  qed
qed

lemma maintenance_run:
  assumes "maintenance_tick E w = (r, w')"
  shows "r = Inr () \<and>
    (is_healthy w \<and> w' = w \<or>
     \<not> is_healthy w \<and> (\<exists>ts.
       all_written (w_audit w) (Heartbeat ts # buffer (w_audit w)) (w_audit w') \<or>
       part_written (w_audit w) (Heartbeat ts # buffer (w_audit w)) (w_audit w') \<or>
       part_written (w_audit w) (buffer (w_audit w)) (w_audit w')))"
proof (cases "is_healthy w")
  case True
  with assms show ?thesis by (simp add: maintenance_tick_def)
next
  case False
  obtain ts x where now: "o_now E (w_out w) = (ts, x)" by fastforce
  let ?w = "w\<lparr>w_out := x\<rparr>"
  obtain q w1 where q: "write_line E (Heartbeat ts) ?w = (q, w1)" by fastforce
  have since: "unhealthy_since (w_audit w) \<noteq> None" using False by (simp add: is_healthy_def)
  have run: "(case thenM (write_line E (Heartbeat ts)) (thenM (drain_buffer E)
      (upd_audit (\<lambda>a. a\<lparr>unhealthy_since := None\<rparr>))) ?w of
      (Inl e, s) \<Rightarrow> (if e = OSError then maybe_flush_to_fallback E else raise e) s
    | (Inr y, s) \<Rightarrow> (Inr y, s)) = (r, w')"
    using assms False by (simp add: maintenance_tick_def bindM_def now_ms_def outM_read now tryM_def)
  from write_line_run [OF q] show ?thesis
  proof (elim disjE conjE)
    assume f: "q = Inl OSError" "w_audit w1 = w_audit ?w"
    with run q have "maybe_flush_to_fallback E w1 = (r, w')" by (simp add: thenM_def bindM_def)
    from maybe_flush_run [OF this] since f(2) have "part_written (w_audit w) (buffer (w_audit w)) (w_audit w')" "r = Inr ()"
      by (auto intro: part_writtenI [where n = 0])
    with False show ?thesis by blast
  next
    assume ok: "q = Inr ()" "w_audit w1 = (w_audit ?w)\<lparr>primary := primary (w_audit ?w) @ [Heartbeat ts]\<rparr>"
    obtain q2 w2 where q2: "drain_buffer E w1 = (q2, w2)" by fastforce
    from drain_buffer_run [OF q2] obtain n where n: "n \<le> length (buffer (w_audit w))"
      "q2 = (if n = length (buffer (w_audit w)) then Inr () else Inl OSError)"
      "w_audit w2 = (w_audit w1)\<lparr>primary := primary (w_audit w1) @ take n (buffer (w_audit w)),
         buffer := drop n (buffer (w_audit w))\<rparr>" using ok(2) by auto
    show ?thesis
    proof (cases "n = length (buffer (w_audit w))")
      case True
      with run q q2 n ok False show ?thesis
        by (auto simp: thenM_def bindM_def all_written_def)
    next
      case notall: False
      with run q q2 n ok have m: "maybe_flush_to_fallback E w2 = (r, w')"
        by (simp add: thenM_def bindM_def)
      have s2: "unhealthy_since (w_audit w2) \<noteq> None" using since n(3) ok(2) by simp
      note fl = maybe_flush_run [OF m s2]
      have eqs: "primary (w_audit w2) = primary (w_audit w) @ [Heartbeat ts] @ take n (buffer (w_audit w))"
        "buffer (w_audit w2) = drop n (buffer (w_audit w))"
        "fallback_file (w_audit w2) = fallback_file (w_audit w)"
        using n(3) ok(2) by simp_all
      have "part_written (w_audit w) (Heartbeat ts # buffer (w_audit w)) (w_audit w')"
        using fl s2 unfolding eqs by (intro part_writtenI [where n = "Suc n"]) auto
      with fl False show ?thesis by blast
    qed
  qed
qed

section \<open>Invariants\<close>

text \<open>While the emitter is healthy nothing waits in its buffer.\<close>

definition audit_ok :: "'x world \<Rightarrow> bool" where
  "audit_ok w \<longleftrightarrow> (is_healthy w \<longrightarrow> buffer (w_audit w) = [])"

definition recorded :: "'x world \<Rightarrow> audit_line set" where
  "recorded w = set (primary (w_audit w)) \<union> set (buffer (w_audit w)) \<union> set (fallback_file (w_audit w))"

lemma take_or_drop: "x \<in> set xs \<Longrightarrow> x \<notin> set (drop n xs) \<Longrightarrow> x \<in> set (take n xs)"
  by (metis append_take_drop_id Un_iff set_append)

lemma part_written_covers:
  assumes "part_written a new a'"
  shows "set (primary a) \<union> set new \<union> set (fallback_file a) \<subseteq>
    set (primary a') \<union> set (buffer a') \<union> set (fallback_file a')"
  using assms unfolding part_written_def by (auto dest: take_or_drop)

lemma written_covers:
  assumes "all_written a new a' \<or> part_written a new a'"
  shows "set (primary a) \<union> set new \<union> set (fallback_file a) \<subseteq>
    set (primary a') \<union> set (buffer a') \<union> set (fallback_file a')"
  using assms part_written_covers [of a new a'] by (auto simp: all_written_def)

lemma emit_records:
  assumes "emit E ev w = (r, w')"
  shows "r = Inr () \<and> recorded w \<subseteq> recorded w' \<and> (\<exists>ts. event_line ts ev \<in> recorded w') \<and> audit_ok w'"
  using assms
proof (rule emit_run)
  fix ts
  assume r: "r = Inr ()" and w: "all_written (w_audit w) (buffer (w_audit w) @ [event_line ts ev]) (w_audit w')
    \<or> part_written (w_audit w) (buffer (w_audit w) @ [event_line ts ev]) (w_audit w')"
  have "recorded w \<subseteq> recorded w' \<and> event_line ts ev \<in> recorded w'"
    using written_covers [OF w] by (auto simp: recorded_def)
  moreover from w have "audit_ok w'"
    by (auto simp: audit_ok_def is_healthy_def all_written_def part_written_def)
  ultimately show ?thesis using r by blast
qed

lemma emit_ok [simp]: "fst (emit E ev w) = Inr ()"
  using emit_records [of E ev w] by (cases "emit E ev w") auto

lemma maintenance_records:
  assumes "maintenance_tick E w = (r, w')" "audit_ok w"
  shows "r = Inr () \<and> recorded w \<subseteq> recorded w' \<and> audit_ok w'"
proof -
  have "recorded w \<subseteq> recorded w' \<and> audit_ok w'"
    using maintenance_run [OF assms(1)]
  proof (elim conjE disjE exE)
    fix ts assume "all_written (w_audit w) (Heartbeat ts # buffer (w_audit w)) (w_audit w')"
    then show ?thesis by (auto simp: recorded_def all_written_def audit_ok_def)
  next
    fix ts assume p: "part_written (w_audit w) (Heartbeat ts # buffer (w_audit w)) (w_audit w')"
    then show ?thesis using part_written_covers [OF p]
      by (auto simp: recorded_def audit_ok_def is_healthy_def part_written_def)
  next
    assume p: "part_written (w_audit w) (buffer (w_audit w)) (w_audit w')"
    then show ?thesis using part_written_covers [OF p]
      by (auto simp: recorded_def audit_ok_def is_healthy_def part_written_def)
  qed (use assms(2) in simp)
  then show ?thesis using maintenance_run [OF assms(1)] by blast
qed

text \<open>\<open>quiet I\<close>: the invariant \<open>I\<close> looks neither at the audit emitter nor at the outside.\<close>

definition quiet :: "('x world \<Rightarrow> bool) \<Rightarrow> bool" where
  "quiet I \<longleftrightarrow> (\<forall>w a. I (w\<lparr>w_audit := a\<rparr>) = I w) \<and> frame I"

lemma quiet_frame [simp]: "quiet I \<Longrightarrow> frame I"
  by (simp add: quiet_def)

lemma quiet_simps [simp]:
  "quiet (\<lambda>w. w_sess w = c1)" "quiet (\<lambda>w. w_procs w = c2)" "quiet (\<lambda>w. w_tokens w = c3)"
  "quiet (\<lambda>w. w_tenants w = c4)" "quiet (\<lambda>w. w_idem w = c5)"
  "quiet (\<lambda>w. sessions_wf (w_sess w))" "quiet (\<lambda>w. processes_wf (w_procs w))"
  "quiet (\<lambda>w. tokens_wf (w_tokens w))"
  by (simp_all add: quiet_def frame_def)

lemma keeps_upd_audit [keeps_rules]: "quiet I \<Longrightarrow> keeps I (upd_audit f)"
  by (simp add: keeps_def quiet_def)

lemma keeps_write_line [keeps_rules]: "quiet I \<Longrightarrow> keeps I (write_line E line)"
  unfolding write_line_def by (intro keeps_rules keeps_out) simp_all

lemma keeps_drain_loop: "quiet I \<Longrightarrow> keeps I (drain_loop E ls)"
  by (induction ls) (auto intro!: keeps_rules)

lemma keeps_flush: "quiet I \<Longrightarrow> keeps I (maybe_flush_to_fallback E)"
  unfolding maybe_flush_to_fallback_def by (intro keeps_rules keeps_out) simp_all

lemma keeps_emit [keeps_rules]: "quiet I \<Longrightarrow> keeps I (emit E ev)"
  unfolding emit_def drain_buffer_def go_unhealthy_def
  by (intro keeps_rules keeps_drain_loop keeps_flush) simp_all

lemma keeps_maintenance [keeps_rules]: "quiet I \<Longrightarrow> keeps I (maintenance_tick E)"
  unfolding maintenance_tick_def drain_buffer_def
  by (intro keeps_rules keeps_drain_loop keeps_flush) simp_all

lemma keeps_precheck [keeps_rules]: "keeps I precheck"
  unfolding precheck_def by (intro keeps_rules)

lemma emit_tables [simp]:
  "w_sess (snd (emit E ev w)) = w_sess w" "w_procs (snd (emit E ev w)) = w_procs w"
  "w_tokens (snd (emit E ev w)) = w_tokens w" "w_tenants (snd (emit E ev w)) = w_tenants w"
  "w_idem (snd (emit E ev w)) = w_idem w"
  using keepsD [OF keeps_emit, of "\<lambda>v. w_sess v = w_sess w" w]
    keepsD [OF keeps_emit, of "\<lambda>v. w_procs v = w_procs w" w]
    keepsD [OF keeps_emit, of "\<lambda>v. w_tokens v = w_tokens w" w]
    keepsD [OF keeps_emit, of "\<lambda>v. w_tenants v = w_tenants w" w]
    keepsD [OF keeps_emit, of "\<lambda>v. w_idem v = w_idem w" w]
  by simp_all

lemma emit_audit_ok: "audit_ok (snd (emit E ev w))"
  using emit_records [of E ev w] by (cases "emit E ev w") auto

lemma keeps_emit_ok [keeps_rules]: "keeps audit_ok (emit E ev)"
  by (simp add: keeps_def emit_audit_ok)

lemma keeps_maintenance_ok [keeps_rules]: "keeps audit_ok (maintenance_tick E)"
  by (rule keepsI) (metis maintenance_records prod.collapse)

lemma bind_emit: "bindM (emit E ev) f w = f () (snd (emit E ev w))"
  using emit_ok [of E ev w] by (cases "emit E ev w") (simp add: bindM_def)

lemma then_emit: "thenM (emit E ev) n w = n (snd (emit E ev w))"
  by (simp add: thenM_def bind_emit)

section \<open>The interface of the services\<close>

text \<open>
  What a service relies on: \<open>check\<close> refuses and changes nothing while the sink is unhealthy, and
  is free otherwise; \<open>put\<close> always returns, and nothing that was recorded is lost.
\<close>

locale audit_sink =
  fixes healthy :: "'s \<Rightarrow> bool"
    and check :: "('s, exn, unit) M"
    and put :: "'v \<Rightarrow> ('s, exn, unit) M"
    and seen :: "'s \<Rightarrow> 'l set"
    and line_for :: "'v \<Rightarrow> 'l \<Rightarrow> bool"
  assumes check_unhealthy: "\<not> healthy s \<Longrightarrow> check s = (Inl AuditUnhealthy, s)"
    and check_healthy: "healthy s \<Longrightarrow> check s = (Inr (), s)"
    and put_total: "\<exists>s'. put v s = (Inr (), s') \<and> seen s \<subseteq> seen s' \<and> (\<exists>l \<in> seen s'. line_for v l)"
begin

lemma guarded_refused: "\<not> healthy s \<Longrightarrow> thenM check m s = (Inl AuditUnhealthy, s)"
  by (simp add: thenM_def bindM_def check_unhealthy)

lemma guarded_open: "healthy s \<Longrightarrow> thenM check m s = m s"
  by (simp add: thenM_def bindM_def check_healthy)

text \<open>An operation that changes something and then reports it.\<close>

lemma reported:
  assumes "m s = (Inr x, s1)"
  shows "\<exists>s2. bindM m (\<lambda>x. thenM (put (f x)) (ret x)) s = (Inr x, s2) \<and> seen s1 \<subseteq> seen s2 \<and>
    (\<exists>l \<in> seen s2. line_for (f x) l)"
proof -
  from put_total [of "f x" s1] obtain s2 where "put (f x) s1 = (Inr (), s2)"
    "seen s1 \<subseteq> seen s2" "\<exists>l \<in> seen s2. line_for (f x) l" by blast
  with assms show ?thesis by (auto simp: bindM_def thenM_def)
qed

lemma guarded_done:
  assumes "thenM check m s = (r, s')" "r \<noteq> Inl AuditUnhealthy"
  shows "healthy s \<and> m s = (r, s')"
  using assms by (cases "healthy s") (auto simp: guarded_refused guarded_open)

end

definition line_of_event :: "event \<Rightarrow> audit_line \<Rightarrow> bool" where
  "line_of_event ev l \<longleftrightarrow> (\<exists>ts. l = event_line ts ev)"

interpretation log: audit_sink is_healthy precheck "emit E" recorded line_of_event for E
proof unfold_locales
  fix s :: "'a world" and v
  obtain r s' where "emit E v s = (r, s')" by fastforce
  with emit_records [OF this]
  show "\<exists>s'. emit E v s = (Inr (), s') \<and> recorded s \<subseteq> recorded s' \<and>
      (\<exists>l \<in> recorded s'. line_of_event v l)"
    by (auto simp: line_of_event_def)
qed (simp_all add: precheck_run)

section \<open>Properties\<close>


text \<open>
  A maintenance tick never raises, keeps every record, leaves a healthy emitter alone, and a
  healthy emitter never has records waiting in its buffer.
\<close>

theorem maintenance_keeps_records:
  assumes "audit_ok w"
  shows "\<exists>w'. maintenance_tick E w = (Inr (), w') \<and> recorded w \<subseteq> recorded w' \<and> audit_ok w' \<and>
    (is_healthy w \<longrightarrow> w' = w)"
proof -
  obtain r w' where run: "maintenance_tick E w = (r, w')" by fastforce
  from maintenance_records [OF this assms] maintenance_run [OF this] run show ?thesis by blast
qed

definition start_world :: "'x \<Rightarrow> 'x world" where
  "start_world x = \<lparr>w_sess = [], w_tenants = [], w_tokens = [], w_procs = [], w_idem = [],
     w_audit = \<lparr>primary = [], fallback_file = [], buffer = [], unhealthy_since = None\<rparr>,
     w_out = x\<rparr>"

definition failing_world :: "tb world" where
  "failing_world = snd (emit (testbed default_settings) (ok_event ''k'' ''t'' ''s'' JNull)
     (start_world (tb_start\<lparr>tb_disk := False\<rparr>)))"

lemma maintenance_keeps_records_witness:
  "\<not> is_healthy failing_world \<and> buffer (w_audit failing_world) \<noteq> [] \<and>
   (\<exists>w'. maintenance_tick (testbed default_settings) failing_world = (Inr (), w') \<and>
     recorded failing_world \<subseteq> recorded w')"
proof -
  have "\<not> is_healthy failing_world \<and> buffer (w_audit failing_world) \<noteq> []"
    by (simp add: failing_world_def start_world_def emit_def bindM_def thenM_def tryM_def now_ms_def
        outM_read testbed_def tb_start_def drain_buffer_def write_line_def go_unhealthy_def
        monotonic_ns_def is_healthy_def maybe_flush_to_fallback_def default_settings_def Let_def)
  moreover have "audit_ok failing_world" by (simp add: failing_world_def emit_audit_ok)
  ultimately show ?thesis
    using maintenance_keeps_records [of failing_world "testbed default_settings"] by blast
qed

end
