(* ===== verification/Sessions.thy ===== *)
theory Sessions
  imports AuditLog
begin

text \<open>
  The session service (\<open>api/sessions.py\<close>) with the quota hooks (\<open>api/quota.py\<close>). Each handler is
  one effect on the whole state. The per-session lock makes a handler run without another one of
  the same session in between, so it has no counterpart here; handlers that do not take it are
  studied in \<open>Interleaving\<close>.
\<close>

section \<open>Quota hooks\<close>

definition run_hook :: "'x ctx \<Rightarrow> string \<Rightarrow> (string \<times> string) list \<Rightarrow> ('x, unit) W" where
  "run_hook E cmd env = thenM (outM (o_hook E cmd env)) (ret ())"

definition run_setup :: "'x ctx \<Rightarrow> string \<Rightarrow> string \<Rightarrow> string \<Rightarrow> int \<Rightarrow> ('x, unit) W" where
  "run_setup E session_id tenant_id volume_name ws_mib =
     (let cmd = quota_setup_cmd (cfg E); base = quota_volume_base (cfg E) in
      if cmd = [] then ret ()
      else run_hook E cmd
        [(''SESSION_ID'', session_id), (''TENANT_ID'', tenant_id), (''VOLUME_NAME'', volume_name),
         (''VOLUME_PATH'', posix_join base session_id), (''VOLUME_BASE'', base),
         (''WORKSPACE_MIB'', str_int ws_mib)])"

definition run_teardown :: "'x ctx \<Rightarrow> string \<Rightarrow> string \<Rightarrow> string \<Rightarrow> ('x, unit) W" where
  "run_teardown E session_id tenant_id volume_name =
     (let cmd = quota_teardown_cmd (cfg E); base = quota_volume_base (cfg E) in
      if cmd = [] then ret ()
      else run_hook E cmd
        [(''SESSION_ID'', session_id), (''TENANT_ID'', tenant_id), (''VOLUME_NAME'', volume_name),
         (''VOLUME_PATH'', posix_join base session_id), (''VOLUME_BASE'', base)])"

section \<open>Limits and deadlines\<close>

definition TENANT_MAX :: "((limits \<Rightarrow> int) \<times> int) list" where
  "TENANT_MAX = [(vcpu, 4), (memory_mib, 8192), (workspace_mib, 10240), (pids, 1024),
     (nofile, 4096), (exec_timeout_s, 600)]"

definition validate_limits :: "limits \<Rightarrow> ('s, exn, unit) M" where
  "validate_limits l =
     forM TENANT_MAX (\<lambda>(field, cap). if cap < field l then raise InvalidLimits else ret ())"

text \<open>Constructing \<open>Limits\<close> from settings outside its constraints raises.\<close>

definition default_limits :: "settings \<Rightarrow> ('s, exn, limits) M" where
  "default_limits S =
     (let l = \<lparr>vcpu = default_vcpu S, memory_mib = default_memory_mib S, workspace_mib = default_workspace_mib S,
         pids = default_pids S, nofile = default_nofile S, exec_timeout_s = default_exec_timeout_s S, max_processes = 8\<rparr> in
      if limits_ok l then ret l else raise ValueError)"

definition compute_etas :: "session \<Rightarrow> settings \<Rightarrow> ms option \<times> ms" where
  "compute_etas row S =
     ((if live (s_status row) then Some (s_last row + idle_stop_minutes S * 60 * 1000) else None),
      s_last row + hard_destroy_hours S * 60 * 60 * 1000)"

section \<open>Handlers\<close>

definition bump_activity :: "'x ctx \<Rightarrow> string \<Rightarrow> ('x, unit) W" where
  "bump_activity E sid = (if \<not> pin_on_activity (cfg E) then ret () else r_touch_activity E sid)"

text \<open>\<open>assert x is not None\<close> and the check of \<open>get\<close>.\<close>

definition assert_some :: "'a option \<Rightarrow> ('s, exn, 'a) M" where
  "assert_some x = (case x of None \<Rightarrow> raise AssertionError | Some v \<Rightarrow> ret v)"

definition get_row :: "string \<Rightarrow> string \<Rightarrow> ('x, session) W" where
  "get_row sid tenant =
     bindM (r_get sid tenant) (\<lambda>row. case row of None \<Rightarrow> raise SessionNotFound | Some r \<Rightarrow> ret r)"

definition provision ::
  "'x ctx \<Rightarrow> string \<Rightarrow> string \<Rightarrow> string \<Rightarrow> limits \<Rightarrow> ('x, unit) W" where
  "provision E sid tenant vol l =
     thenM (outM (create_volume E vol sid tenant))
    (thenM (run_setup E sid tenant vol (workspace_mib l))
    (bindM (outM (create_container E sid tenant vol l)) (\<lambda>cid.
     thenM (r_set_container sid cid)
    (thenM (outM (start_container E cid))
    (thenM (outM (normalize_workspace_perms E cid))
           (r_transition E sid RUNNING))))))"

definition rollback :: "'x ctx \<Rightarrow> string \<Rightarrow> string \<Rightarrow> ('x, unit) W" where
  "rollback E sid vol =
     thenM (outM (remove_volume E vol))
       (tryM (thenM (r_transition E sid DESTROYING) (r_transition E sid DESTROYED)) (\<lambda>_. ret ()))"

definition create_session :: "'x ctx \<Rightarrow> string \<Rightarrow> limits option \<Rightarrow> ('x, session) W" where
  "create_session E tenant lim =
     thenM precheck
    (bindM (getsM (\<lambda>w. count_concurrent tenant (w_sess w))) (\<lambda>n.
     if tenant_max_concurrent (cfg E) \<le> n then raise LimitExceeded
     else bindM (case lim of Some l \<Rightarrow> ret l | None \<Rightarrow> default_limits (cfg E)) (\<lambda>l.
     thenM (validate_limits l)
    (bindM (new_ulid E) (\<lambda>sid.
     let vol = ''sandbox-vol-'' @ sid in
     thenM (r_insert E sid tenant vol l)
    (thenM (tryM (provision E sid tenant vol l) (\<lambda>e. thenM (rollback E sid vol) (raise e)))
    (bindM (r_get sid tenant) (\<lambda>row.
     bindM (assert_some row) (\<lambda>row.
     thenM (emit E (ok_event ''session.create'' tenant sid (JObj [(''limits'', limits_json l)])))
       (ret row))))))))))"

definition stop_session :: "'x ctx \<Rightarrow> string \<Rightarrow> string \<Rightarrow> ('x, session) W" where
  "stop_session E sid tenant =
     thenM precheck
    (bindM (get_row sid tenant) (\<lambda>row.
     if \<not> live (s_status row) then raise InvalidState
     else bindM (assert_some (s_container row)) (\<lambda>cid.
     thenM (outM (stop_container E cid))
    (thenM (r_transition E sid STOPPED)
    (thenM (emit E (ok_event ''session.stop'' tenant sid JNull))
           (get_row sid tenant))))))"

definition resume_session :: "'x ctx \<Rightarrow> string \<Rightarrow> string \<Rightarrow> ('x, session) W" where
  "resume_session E sid tenant =
     thenM precheck
    (bindM (get_row sid tenant) (\<lambda>row.
     if s_status row \<notin> {STOPPED, IDLE} then raise InvalidState
     else bindM (assert_some (s_container row)) (\<lambda>cid.
     thenM (outM (start_container E cid))
    (thenM (r_transition E sid RUNNING)
    (thenM (emit E (ok_event ''session.resume'' tenant sid JNull))
           (get_row sid tenant))))))"

text \<open>\<open>if row.container_id:\<close>, where an empty id counts as none.\<close>

definition container_of :: "session \<Rightarrow> string option" where
  "container_of row = (case s_container row of Some c \<Rightarrow> (if c = [] then None else Some c) | None \<Rightarrow> None)"

definition remove_container_of :: "'x ctx \<Rightarrow> session \<Rightarrow> ('x, unit) W" where
  "remove_container_of E row =
     (case container_of row of None \<Rightarrow> ret () | Some c \<Rightarrow> outM (remove_container E c))"

text \<open>\<open>hook\<close> is the destroy hook, \<open>\<lambda>_. ret ()\<close> when none is set.\<close>

definition destroy_locked ::
  "'x ctx \<Rightarrow> (session \<Rightarrow> ('x, unit) W) \<Rightarrow> session \<Rightarrow> string \<Rightarrow> ('x, unit) W" where
  "destroy_locked E hook row reason =
     thenM (r_transition E (s_id row) DESTROYING)
    (thenM
      (finallyM
        (thenM (tryM (hook row) (\<lambda>_. ret ()))
        (thenM (remove_container_of E row)
        (thenM (run_teardown E (s_id row) (s_tenant row) (s_volume row))
               (outM (remove_volume E (s_volume row))))))
        (r_transition E (s_id row) DESTROYED))
      (emit E (ok_event ''session.destroy'' (s_tenant row) (s_id row)
        (JObj [(''reason'', JStr reason)]))))"

definition destroy_session ::
  "'x ctx \<Rightarrow> (session \<Rightarrow> ('x, unit) W) \<Rightarrow> string \<Rightarrow> string \<Rightarrow> ('x, unit) W" where
  "destroy_session E hook sid tenant =
     thenM precheck
    (bindM (get_row sid tenant) (\<lambda>row. destroy_locked E hook row ''api''))"

definition reap_stop :: "'x ctx \<Rightarrow> session \<Rightarrow> string \<Rightarrow> ('x, unit) W" where
  "reap_stop E row reason =
     bindM (r_get_unscoped (s_id row)) (\<lambda>current.
     case current of
       None \<Rightarrow> ret ()
     | Some c \<Rightarrow>
         if \<not> live (s_status c) then ret ()
         else bindM (assert_some (s_container c)) (\<lambda>cid.
         thenM (outM (stop_container E cid))
        (thenM (r_transition E (s_id row) STOPPED)
               (emit E (ok_event ''session.stop'' (s_tenant row) (s_id row)
                 (JObj [(''reason'', JStr reason)]))))))"

definition reap_destroy ::
  "'x ctx \<Rightarrow> (session \<Rightarrow> ('x, unit) W) \<Rightarrow> session \<Rightarrow> string \<Rightarrow> ('x, unit) W" where
  "reap_destroy E hook row reason =
     bindM (r_get_unscoped (s_id row)) (\<lambda>current.
     case current of
       None \<Rightarrow> ret ()
     | Some c \<Rightarrow> if terminal (s_status c) then ret () else destroy_locked E hook c reason)"

section \<open>Reconciliation at start-up\<close>

definition reconciled :: "session \<Rightarrow> string \<Rightarrow> event" where
  "reconciled row action = ok_event ''session.reconciled'' (s_tenant row) (s_id row)
     (JObj [(''action'', JStr action)])"

definition finish_destroy :: "'x ctx \<Rightarrow> session \<Rightarrow> ('x, unit) W" where
  "finish_destroy E row =
     thenM (remove_container_of E row)
    (thenM (run_teardown E (s_id row) (s_tenant row) (s_volume row))
    (thenM (outM (remove_volume E (s_volume row)))
    (thenM (r_transition E (s_id row) DESTROYED)
           (emit E (reconciled row ''finish_destroy'')))))"

primrec finish_destroys :: "'x ctx \<Rightarrow> session list \<Rightarrow> ('x, nat) W" where
  "finish_destroys E [] = ret 0"
| "finish_destroys E (row # rows) =
     bindM (tryM (thenM (finish_destroy E row) (ret 1)) (\<lambda>_. ret 0)) (\<lambda>n.
     bindM (finish_destroys E rows) (\<lambda>m. ret (n + m)))"

definition orphan_row :: "'x ctx \<Rightarrow> session \<Rightarrow> ('x, nat) W" where
  "orphan_row E row =
     (case container_of row of
        None \<Rightarrow>
          thenM (r_transition_orphaned E (s_id row))
         (thenM (emit E (reconciled row ''orphaned_no_container'')) (ret 1))
      | Some cid \<Rightarrow>
          bindM (outM (container_exists E cid)) (\<lambda>present.
          if \<not> present \<and> s_status row \<noteq> STOPPED then
            thenM (r_transition_orphaned E (s_id row))
           (thenM (emit E (reconciled row ''orphaned_missing_container'')) (ret 1))
          else ret 0))"

primrec orphan_rows :: "'x ctx \<Rightarrow> session list \<Rightarrow> ('x, nat) W" where
  "orphan_rows E [] = ret 0"
| "orphan_rows E (row # rows) =
     bindM (orphan_row E row) (\<lambda>n. bindM (orphan_rows E rows) (\<lambda>m. ret (n + m)))"

definition reconcile_on_startup :: "'x ctx \<Rightarrow> ('x, nat \<times> nat) W" where
  "reconcile_on_startup E =
     bindM (getsM (\<lambda>w. list_pending_destroy (w_sess w))) (\<lambda>pending.
     bindM (finish_destroys E pending) (\<lambda>finished.
     bindM (getsM (\<lambda>w. list_non_terminal (w_sess w))) (\<lambda>rows.
     bindM (orphan_rows E rows) (\<lambda>orphaned. ret (finished, orphaned)))))"

section \<open>Invariants of the sessions table\<close>

text \<open>
  \<open>sess_closed I\<close>: \<open>I\<close> looks neither at the audit emitter nor at the outside, and every registry
  call on the sessions table but \<open>insert\<close> keeps it. Every handler but \<open>create\<close> keeps such an
  invariant, and \<open>create\<close> does if \<open>insert\<close> does.
\<close>

fun is_insert :: "sess_op \<Rightarrow> bool" where
  "is_insert (Op_insert ts sid tenant vol l) = True"
| "is_insert _ = False"

definition sess_closed :: "('x world \<Rightarrow> bool) \<Rightarrow> bool" where
  "sess_closed I \<longleftrightarrow> quiet I \<and>
     (\<forall>w x t. I w \<longrightarrow> \<not> is_insert x \<longrightarrow> apply_sess_op x (w_sess w) = Inr t \<longrightarrow>
        I (w\<lparr>w_sess := t\<rparr>))"

definition insert_closed :: "('x world \<Rightarrow> bool) \<Rightarrow> bool" where
  "insert_closed I \<longleftrightarrow> quiet I \<and>
     (\<forall>w x t. I w \<longrightarrow> is_insert x \<longrightarrow> apply_sess_op x (w_sess w) = Inr t \<longrightarrow> I (w\<lparr>w_sess := t\<rparr>))"

lemma sess_closed_quiet [simp]:
  "sess_closed I \<Longrightarrow> quiet I" "sess_closed I \<Longrightarrow> frame I"
  "insert_closed I \<Longrightarrow> quiet I" "insert_closed I \<Longrightarrow> frame I"
  by (simp_all add: sess_closed_def insert_closed_def)

lemma sess_closedD:
  "sess_closed I \<Longrightarrow> I w \<Longrightarrow> \<not> is_insert x \<Longrightarrow> apply_sess_op x (w_sess w) = Inr t \<Longrightarrow>
    I (w\<lparr>w_sess := t\<rparr>)"
  by (simp add: sess_closed_def)

lemma insert_closedD:
  "insert_closed I \<Longrightarrow> I w \<Longrightarrow> is_insert x \<Longrightarrow> apply_sess_op x (w_sess w) = Inr t \<Longrightarrow>
    I (w\<lparr>w_sess := t\<rparr>)"
  by (simp add: insert_closed_def)

lemma map_sum_Inr: "map_sum id f s = Inr y \<Longrightarrow> \<exists>x. s = Inr x \<and> y = f x"
  by (cases s) auto

lemma keeps_r_insert [keeps_rules]: "insert_closed I \<Longrightarrow> keeps I (r_insert E sid tn vol l)"
  unfolding r_insert_def
  by (intro keeps_rules keeps_tryTable)
    (auto dest!: map_sum_Inr intro: insert_closedD [where x = "Op_insert _ _ _ _ _"])

lemma keeps_r_set_container [keeps_rules]: "sess_closed I \<Longrightarrow> keeps I (r_set_container sid cid)"
  unfolding r_set_container_def
  by (rule keeps_modify) (rule sess_closedD [where x = "Op_container sid cid"], simp_all)

lemma keeps_r_transition [keeps_rules]: "sess_closed I \<Longrightarrow> keeps I (r_transition E sid st)"
  unfolding r_transition_def
  by (intro keeps_rules keeps_tryTable)
    (auto dest!: map_sum_Inr intro: sess_closedD [where x = "Op_transition _ _ _"])

lemma keeps_r_touch [keeps_rules]: "sess_closed I \<Longrightarrow> keeps I (r_touch_activity E sid)"
  unfolding r_touch_activity_def
  by (intro keeps_rules keeps_modify)
    (auto intro: sess_closedD [where x = "Op_touch _ _"])

lemma keeps_r_orphaned [keeps_rules]: "sess_closed I \<Longrightarrow> keeps I (r_transition_orphaned E sid)"
  unfolding r_transition_orphaned_def
  by (intro keeps_rules keeps_modify)
    (auto intro: sess_closedD [where x = "Op_orphan _ _"])

lemma keeps_assert [keeps_rules]: "keeps I (assert_some x)"
  unfolding assert_some_def by (intro keeps_rules)

lemma keeps_get_row [keeps_rules]: "keeps I (get_row sid tenant)"
  unfolding get_row_def by (intro keeps_rules)

lemma keeps_validate_limits [keeps_rules]: "keeps I (validate_limits l)"
  unfolding validate_limits_def by (intro keeps_rules)

lemma keeps_default_limits [keeps_rules]: "keeps I (default_limits S)"
  unfolding default_limits_def by (intro keeps_rules)

lemma keeps_hooks [keeps_rules]:
  "frame I \<Longrightarrow> keeps I (run_setup E sid tn vol mib)"
  "frame I \<Longrightarrow> keeps I (run_teardown E sid tn vol)"
  unfolding run_setup_def run_teardown_def run_hook_def by (intro keeps_rules keeps_out; assumption)+

lemma keeps_remove_container_of [keeps_rules]: "frame I \<Longrightarrow> keeps I (remove_container_of E row)"
  unfolding remove_container_of_def by (intro keeps_rules keeps_out)

lemma keeps_bump [keeps_rules]: "sess_closed I \<Longrightarrow> keeps I (bump_activity E sid)"
  unfolding bump_activity_def by (intro keeps_rules)

lemma keeps_provision [keeps_rules]: "sess_closed I \<Longrightarrow> keeps I (provision E sid tenant vol l)"
  unfolding provision_def by (intro keeps_rules keeps_out) simp_all

lemma keeps_rollback [keeps_rules]: "sess_closed I \<Longrightarrow> keeps I (rollback E sid vol)"
  unfolding rollback_def by (intro keeps_rules keeps_out) simp_all

lemma keeps_create_session [keeps_rules]:
  "sess_closed I \<Longrightarrow> insert_closed I \<Longrightarrow> keeps I (create_session E tenant lim)"
  unfolding create_session_def by (intro keeps_rules keeps_out) simp_all

lemma keeps_stop_session [keeps_rules]: "sess_closed I \<Longrightarrow> keeps I (stop_session E sid tenant)"
  unfolding stop_session_def by (intro keeps_rules keeps_out) simp_all

lemma keeps_resume_session [keeps_rules]: "sess_closed I \<Longrightarrow> keeps I (resume_session E sid tenant)"
  unfolding resume_session_def by (intro keeps_rules keeps_out) simp_all

lemma keeps_destroy_locked [keeps_rules]:
  "sess_closed I \<Longrightarrow> (\<And>r. keeps I (hook r)) \<Longrightarrow> keeps I (destroy_locked E hook row reason)"
  unfolding destroy_locked_def by (intro keeps_rules keeps_out) simp_all

lemma keeps_destroy_session [keeps_rules]:
  "sess_closed I \<Longrightarrow> (\<And>r. keeps I (hook r)) \<Longrightarrow> keeps I (destroy_session E hook sid tenant)"
  unfolding destroy_session_def by (intro keeps_rules)

lemma keeps_reap_stop [keeps_rules]: "sess_closed I \<Longrightarrow> keeps I (reap_stop E row reason)"
  unfolding reap_stop_def by (intro keeps_rules keeps_out) simp_all

lemma keeps_reap_destroy [keeps_rules]:
  "sess_closed I \<Longrightarrow> (\<And>r. keeps I (hook r)) \<Longrightarrow> keeps I (reap_destroy E hook row reason)"
  unfolding reap_destroy_def by (intro keeps_rules)

lemma keeps_finish_destroys: "sess_closed I \<Longrightarrow> keeps I (finish_destroys E rows)"
  by (induction rows) (simp_all add: finish_destroy_def, (intro keeps_rules keeps_out; simp?)+)

lemma keeps_orphan_rows: "sess_closed I \<Longrightarrow> keeps I (orphan_rows E rows)"
  by (induction rows) (simp_all add: orphan_row_def, (intro keeps_rules keeps_out; simp?)+)

lemma keeps_reconcile [keeps_rules]: "sess_closed I \<Longrightarrow> keeps I (reconcile_on_startup E)"
  unfolding reconcile_on_startup_def
  by (intro keeps_rules keeps_finish_destroys keeps_orphan_rows)

lemma closed_wf: "sess_closed (\<lambda>w. sessions_wf (w_sess w))" "insert_closed (\<lambda>w. sessions_wf (w_sess w))"
  by (auto simp: sess_closed_def insert_closed_def intro: apply_sess_op_wf)

lemma closed_other:
  "sess_closed (\<lambda>w. w_procs w = c1)" "insert_closed (\<lambda>w. w_procs w = c1)"
  "sess_closed (\<lambda>w. w_tokens w = c2)" "insert_closed (\<lambda>w. w_tokens w = c2)"
  "sess_closed (\<lambda>w. w_tenants w = c3)" "insert_closed (\<lambda>w. w_tenants w = c3)"
  "sess_closed (\<lambda>w. w_idem w = c4)" "insert_closed (\<lambda>w. w_idem w = c4)"
  by (simp_all add: sess_closed_def insert_closed_def)

text \<open>
  \<open>evolved t w\<close>: every row of the earlier table \<open>t\<close> is still there, with its owner, volume,
  limits and creation time, and its status has moved along the lifecycle only.
\<close>

definition evolved :: "sessions \<Rightarrow> 'x world \<Rightarrow> bool" where
  "evolved t w \<longleftrightarrow> (\<forall>i r. get_unscoped i t = Some r \<longrightarrow>
     (\<exists>r'. get_unscoped i (w_sess w) = Some r' \<and> row_fixed r r' \<and>
        row_step\<^sup>*\<^sup>* (s_status r) (s_status r')))"

lemma evolved_start: "evolved (w_sess w) w"
  by (auto simp: evolved_def row_fixed_def)

lemma evolved_op:
  assumes "evolved t w" "apply_sess_op x (w_sess w) = Inr t'"
  shows "evolved t (w\<lparr>w_sess := t'\<rparr>)"
  unfolding evolved_def
proof (intro allI impI)
  fix i r assume "get_unscoped i t = Some r"
  with assms(1) obtain q where q: "get_unscoped i (w_sess w) = Some q" "row_fixed r q"
    "row_step\<^sup>*\<^sup>* (s_status r) (s_status q)" unfolding evolved_def by blast
  from apply_sess_op_row [OF assms(2) q(1)] obtain r' where "get_unscoped i t' = Some r'"
    "row_fixed q r'" "s_status r' = s_status q \<or> row_step (s_status q) (s_status r')" by blast
  with q show "\<exists>r'. get_unscoped i (w_sess (w\<lparr>w_sess := t'\<rparr>)) = Some r' \<and> row_fixed r r' \<and>
      row_step\<^sup>*\<^sup>* (s_status r) (s_status r')"
    by (auto simp: row_fixed_def intro: rtranclp.rtrancl_into_rtrancl)
qed

lemma closed_evolved: "sess_closed (evolved t)" "insert_closed (evolved t)"
proof -
  have "quiet (evolved t)" by (simp add: quiet_def frame_def evolved_def)
  then show "sess_closed (evolved t)" "insert_closed (evolved t)"
    unfolding sess_closed_def insert_closed_def using evolved_op by blast+
qed

section \<open>The limit on concurrent sessions\<close>

definition within_cap :: "int \<Rightarrow> string \<Rightarrow> 'x world \<Rightarrow> bool" where
  "within_cap M tenant w \<longleftrightarrow> sessions_wf (w_sess w) \<and> count_concurrent tenant (w_sess w) \<le> M"

lemma count_t_upd_le:
  "(\<And>r. r \<in> set t \<Longrightarrow> P r \<Longrightarrow> s_tenant (f r) = s_tenant r \<and> (terminal (s_status r) \<longrightarrow> terminal (s_status (f r))))
    \<Longrightarrow> count_concurrent tenant (t_upd P f t) \<le> count_concurrent tenant t"
  by (induction t) (auto simp: count_concurrent_def)

lemma count_op_le:
  assumes "sessions_wf t" "apply_sess_op x t = Inr t'" "\<not> is_insert x"
  shows "count_concurrent tenant t' \<le> count_concurrent tenant t"
proof (cases x)
  case (Op_transition ts i b)
  with assms have tr: "transition ts i b t = Inr t'" by simp
  from reg.moved [OF tr] obtain a where a: "sess_status t i = Some a" "lifecycle a b" by blast
  have t': "t' = write_status ts i b t"
    using tr by (auto simp: transition_def split: option.splits if_splits)
  have "s_status r = a" if "r \<in> set t" "s_id r = i" for r
    using assms(1) a(1) that
    by (auto simp: sessions_wf_def sess_status_def get_unscoped_def dest: t_get_keyed)
  moreover have "terminal a \<Longrightarrow> terminal b" using a(2) by (auto simp: terminal_def)
  ultimately show ?thesis unfolding t' write_status_def by (intro count_t_upd_le) auto
qed (use assms in \<open>auto simp: set_container_def touch_activity_def transition_orphaned_def
    terminal_def intro!: count_t_upd_le\<close>)

lemma closed_cap: "sess_closed (within_cap M tenant)"
proof -
  have "quiet (within_cap M tenant)" by (simp add: quiet_def frame_def within_cap_def)
  moreover have "within_cap M tenant (w\<lparr>w_sess := t\<rparr>)"
    if "within_cap M tenant w" "\<not> is_insert x" "apply_sess_op x (w_sess w) = Inr t" for w :: "'b world" and x t
    using that count_op_le [of "w_sess w" x t tenant] apply_sess_op_wf [of "w_sess w" x t]
    by (simp add: within_cap_def)
  ultimately show ?thesis by (auto simp: sess_closed_def)
qed

lemma insert_within_cap:
  "yields (within_cap (M - 1) tenant) (r_insert E sid tenant' vol l)
     (\<lambda>_. within_cap M tenant) (\<lambda>_. within_cap M tenant)"
proof -
  have "within_cap M tenant (w\<lparr>w_out := x, w_sess := t\<rparr>)"
    if "within_cap (M - 1) tenant w" "insert_session ts sid tenant' vol l (w_sess w) = Inr t"
    for w :: "'a world" and x ts t
  proof -
    have "sessions_wf t"
      using that apply_sess_op_wf [of "w_sess w" "Op_insert ts sid tenant' vol l" t]
      by (simp add: within_cap_def)
    moreover have "count_concurrent tenant t \<le> count_concurrent tenant (w_sess w) + 1"
      using that(2) by (auto simp: insert_session_def count_concurrent_def split: if_splits)
    ultimately show ?thesis using that(1) by (simp add: within_cap_def)
  qed
  moreover have "within_cap M tenant (w\<lparr>w_out := x\<rparr>)" if "within_cap (M - 1) tenant w"
    for w :: "'a world" and x
    using that by (simp add: within_cap_def)
  ultimately show ?thesis
    by (auto simp: yields_def r_insert_def bindM_def now_ms_def outM_read tryTable_def
        split: prod.splits sum.splits dest!: map_sum_Inr)
qed

lemma within_cap_mono: "within_cap M tenant w \<Longrightarrow> M \<le> M' \<Longrightarrow> within_cap M' tenant w"
  by (simp add: within_cap_def)

lemma yields_prefix:
  assumes "keeps (within_cap (M - 1) tenant) m"
    and "\<And>x. yields (within_cap (M - 1) tenant) (f x) Q (\<lambda>_. within_cap M tenant)"
  shows "yields (within_cap (M - 1) tenant) (bindM m f) Q (\<lambda>_. within_cap M tenant)"
proof (rule yields_bind)
  show "yields (within_cap (M - 1) tenant) m (\<lambda>_. within_cap (M - 1) tenant)
      (\<lambda>_. within_cap M tenant)"
    using assms(1) unfolding keeps_yields
    by (rule yields_weaken) (auto intro: within_cap_mono)
qed (rule assms(2))

lemma keeps_gets_if:
  "(\<And>w. I w \<Longrightarrow> \<not> b (g w) \<Longrightarrow> I (snd (m w))) \<Longrightarrow>
    keeps I (bindM (getsM g) (\<lambda>n. if b n then raise e else m))"
  by (simp add: keeps_def)

lemma create_within_cap:
  "keeps (within_cap (tenant_max_concurrent (cfg E)) tenant) (create_session E tenant lim)"
proof -
  let ?M = "tenant_max_concurrent (cfg E)"
  let ?I = "within_cap ?M tenant" and ?J = "within_cap (?M - 1) tenant"
  let ?tail = "\<lambda>sid vol l. thenM (tryM (provision E sid tenant vol l) (\<lambda>e. thenM (rollback E sid vol) (raise e)))
    (bindM (r_get sid tenant) (\<lambda>row. bindM (assert_some row) (\<lambda>row.
     thenM (emit E (ok_event ''session.create'' tenant sid (JObj [(''limits'', limits_json l)])))
       (ret row))))"
  let ?rest = "bindM (case lim of Some l \<Rightarrow> ret l | None \<Rightarrow> default_limits (cfg E)) (\<lambda>l.
     thenM (validate_limits l) (bindM (new_ulid E) (\<lambda>sid.
     let vol = ''sandbox-vol-'' @ sid in thenM (r_insert E sid tenant vol l) (?tail sid vol l))))"
  have q: "sess_closed ?I" "sess_closed ?J" by (rule closed_cap)+
  have tail: "yields ?I (?tail sid vol l) (\<lambda>_. ?I) (\<lambda>_. ?I)" for sid vol l
    unfolding keeps_yields [symmetric] by (intro keeps_rules) (simp_all add: q)
  have dl: "keeps ?J (case lim of Some l \<Rightarrow> ret l | None \<Rightarrow> default_limits (cfg E))"
    by (cases lim) (auto intro: keeps_rules)
  have vl: "keeps ?J (validate_limits l)" for l by (rule keeps_rules)
  have ul: "keeps ?J (new_ulid E)" by (rule keeps_rules) (simp add: q)
  have ins: "yields ?J (bindM (new_ulid E) (\<lambda>sid. thenM (r_insert E sid tenant (''sandbox-vol-'' @ sid) l)
      (?tail sid (''sandbox-vol-'' @ sid) l))) (\<lambda>_. ?I) (\<lambda>_. ?I)" for l
    by (rule yields_prefix [OF ul], rule yields_then, rule insert_within_cap, rule tail)
  have rest: "yields ?J ?rest (\<lambda>_. ?I) (\<lambda>_. ?I)"
    unfolding thenM_def [of "validate_limits _"] Let_def
    by (rule yields_prefix [OF dl], rule yields_prefix [OF vl], rule ins)
  have "keeps ?I (bindM (getsM (\<lambda>w. count_concurrent tenant (w_sess w))) (\<lambda>n.
      if ?M \<le> n then raise LimitExceeded else ?rest))"
  proof (rule keeps_gets_if)
    fix w :: "'a world"
    assume "?I w" "\<not> ?M \<le> count_concurrent tenant (w_sess w)"
    then have "?J w" by (simp add: within_cap_def)
    then show "?I (snd (?rest w))" by (rule yields_snd [OF rest])
  qed
  then show ?thesis unfolding create_session_def by (rule keeps_then [OF keeps_precheck])
qed

section \<open>What the handlers do\<close>

lemma r_transition_run:
  assumes "r_transition E sid st w = (r, w')"
  shows "(\<exists>ts. r = Inr () \<and> transition ts sid st (w_sess w) = Inr (w_sess w')) \<or>
    (\<exists>ts e. r = Inl e \<and> transition ts sid st (w_sess w) = Inl e \<and> w_sess w' = w_sess w)"
proof -
  obtain ts x where "o_now E (w_out w) = (ts, x)" by fastforce
  with assms show ?thesis
    by (cases "transition ts sid st (w_sess w)")
      (auto simp: r_transition_def bindM_def now_ms_def outM_read tryTable_def)
qed

text \<open>A step that leaves the sessions table alone.\<close>

definition same_sess :: "('x, 'a) W \<Rightarrow> bool" where
  "same_sess m \<longleftrightarrow> (\<forall>c. keeps (\<lambda>w. w_sess w = c) m)"

lemma same_sessD: "same_sess m \<Longrightarrow> m w = (r, w') \<Longrightarrow> w_sess w' = w_sess w"
  unfolding same_sess_def keeps_def by (metis snd_conv)

lemma quiet_sess: "quiet (\<lambda>w. w_sess w = c)" "frame (\<lambda>w. w_sess w = c)"
  by (simp_all add: quiet_def frame_def)

lemma same_sess_simps [simp]:
  "same_sess (outM m)" "same_sess (run_setup E sid tn vol mib)" "same_sess (emit E ev)"
  "same_sess (run_teardown E sid tn vol)" "same_sess (remove_container_of E row)"
  "same_sess (new_ulid E)" "same_sess precheck" "same_sess (now_ms E)"
  unfolding same_sess_def by (intro allI keeps_rules keeps_out quiet_sess)+

lemma r_set_container_run [simp]:
  "r_set_container sid cid w = (Inr (), w\<lparr>w_sess := set_container sid cid (w_sess w)\<rparr>)"
  by (simp add: r_set_container_def)

lemma provision_done:
  assumes "provision E sid tenant vol l w = (Inr u, w')"
  obtains cid ts where "transition ts sid RUNNING (set_container sid cid (w_sess w)) = Inr (w_sess w')"
proof -
  from assms obtain w1 w2 w3 w4 w5 cid x1 x2 x3 x4 where
    "outM (create_volume E vol sid tenant) w = (Inr x1, w1)"
    "run_setup E sid tenant vol (workspace_mib l) w1 = (Inr x2, w2)"
    "outM (create_container E sid tenant vol l) w2 = (Inr cid, w3)"
    "outM (start_container E cid) (w3\<lparr>w_sess := set_container sid cid (w_sess w3)\<rparr>) = (Inr x3, w4)"
    "outM (normalize_workspace_perms E cid) w4 = (Inr x4, w5)"
    and t: "r_transition E sid RUNNING w5 = (Inr u, w')"
    unfolding provision_def by (auto elim!: bindM_InrE thenM_InrE)
  then have "w_sess w5 = set_container sid cid (w_sess w)"
    by (metis same_sessD same_sess_simps(1,2) world.select_convs(1) world.update_convs(1) world.surjective)
  with r_transition_run [OF t] that show ?thesis by auto
qed

lemma transition_legal:
  "sess_status t sid = Some a \<Longrightarrow> lifecycle a b \<Longrightarrow> transition ts sid b t = Inr (write_status ts sid b t)"
  by (auto simp: transition_def sess_status_def get_unscoped_def transitions_lifecycle)

lemma r_transition_legal:
  assumes "sess_status (w_sess w) sid = Some a" "lifecycle a b" "r_transition E sid b w = (r, w')"
  shows "r = Inr () \<and> (\<exists>ts. w_sess w' = write_status ts sid b (w_sess w))"
  using r_transition_run [OF assms(3)] transition_legal [OF assms(1,2)] by (auto dest: sym)

lemma sess_status_simps [simp]:
  "sess_status (set_container j cid t) = sess_status t"
  by (rule ext) (simp add: sess_status_def sess_simps option.map_comp comp_def)

lemma sess_status_write [simp]:
  "sess_status (write_status ts j st t) i =
    (if i = j then map_option (\<lambda>_. st) (sess_status t i) else sess_status t i)"
  by (simp add: sess_status_def sess_simps option.map_comp comp_def)

text \<open>Only the row of \<open>sid\<close> differs.\<close>

definition only_row :: "string \<Rightarrow> sessions \<Rightarrow> sessions \<Rightarrow> bool" where
  "only_row sid t t' \<longleftrightarrow> (\<forall>j. j \<noteq> sid \<longrightarrow> get_unscoped j t' = get_unscoped j t)"

lemma only_row_simps [simp]:
  "only_row sid t t" "only_row sid t (set_container sid cid t)" "only_row sid t (write_status ts sid st t)"
  by (simp_all add: only_row_def sess_simps)

lemma only_row_trans: "only_row sid a b \<Longrightarrow> only_row sid b c \<Longrightarrow> only_row sid a c"
  by (simp add: only_row_def)

lemma yields_keeps: "keeps I m \<Longrightarrow> yields I m (\<lambda>_. I) (\<lambda>_. I)"
  by (simp add: keeps_yields)

lemma r_transition_yields: "frame I \<Longrightarrow> yields I (r_transition E sid st) (\<lambda>_ _. True) (\<lambda>_. I)"
  by (auto simp: yields_def r_transition_def bindM_def now_ms_def outM_read tryTable_def frame_def
      split: prod.splits sum.splits)

definition creating :: "string \<Rightarrow> sessions \<Rightarrow> 'x world \<Rightarrow> bool" where
  "creating sid t w \<longleftrightarrow> sess_status (w_sess w) sid = Some CREATING \<and> only_row sid t (w_sess w)"

lemma frame_creating: "frame (creating sid t)"
  by (simp add: frame_def creating_def)

lemma keeps_creating_container: "keeps (creating sid t) (r_set_container sid cid)"
  by (auto simp: keeps_def creating_def intro: only_row_trans)

lemma provision_failed:
  "yields (creating sid t) (provision E sid tenant vol l) (\<lambda>_ _. True) (\<lambda>_. creating sid t)"
  unfolding provision_def
  by (intro yields_then [OF yields_keeps] yields_bind [OF yields_keeps] keeps_rules keeps_out
      keeps_creating_container r_transition_yields frame_creating)

lemma rollback_run:
  assumes "rollback E sid vol w = (r, w')" "creating sid t w"
  shows "only_row sid t (w_sess w') \<and>
    (case r of Inl e \<Rightarrow> fst (remove_volume E vol (w_out w)) = Inl e \<and> sess_status (w_sess w') sid = Some CREATING
     | Inr _ \<Rightarrow> sess_status (w_sess w') sid = Some DESTROYED)"
proof -
  obtain q x where q: "remove_volume E vol (w_out w) = (q, x)" by fastforce
  let ?w = "w\<lparr>w_out := x\<rparr>"
  show ?thesis
  proof (cases q)
    case (Inl e)
    with q assms show ?thesis
      by (auto simp: rollback_def thenM_def bindM_def outM_def creating_def)
  next
    case (Inr u)
    have st: "sess_status (w_sess ?w) sid = Some CREATING" "only_row sid t (w_sess ?w)"
      using assms(2) by (simp_all add: creating_def)
    obtain r1 w1 where 1: "r_transition E sid DESTROYING ?w = (r1, w1)" by fastforce
    obtain r2 w2 where 2: "r_transition E sid DESTROYED w1 = (r2, w2)" by fastforce
    from r_transition_legal [OF st(1) _ 1] obtain ts where w1: "r1 = Inr ()"
      "w_sess w1 = write_status ts sid DESTROYING (w_sess ?w)" by (auto simp: lifecycle_simps)
    with st have "sess_status (w_sess w1) sid = Some DESTROYING" by simp
    from r_transition_legal [OF this _ 2] obtain ts' where w2: "r2 = Inr ()"
      "w_sess w2 = write_status ts' sid DESTROYED (w_sess w1)" by (auto simp: lifecycle_simps)
    have "rollback E sid vol w = (Inr (), w2)"
      using q Inr 1 2 w1 w2 by (simp add: rollback_def thenM_def bindM_def outM_def tryM_def)
    moreover have "only_row sid t (w_sess w2)"
      using st(2) w1(2) w2(2) by (metis only_row_simps(3) only_row_trans)
    moreover have "sess_status (w_sess w2) sid = Some DESTROYED" using w1 w2 st by simp
    ultimately show ?thesis using assms(1) by auto
  qed
qed

lemma get_session_of:
  "get_unscoped sid t = Some r \<Longrightarrow> s_tenant r = tn \<Longrightarrow> s_status r \<noteq> DESTROYED \<Longrightarrow>
    get_session sid tn t = Some r"
  by (induction t) (auto simp: get_unscoped_def get_session_def split: if_splits)

lemma get_session_found:
  "get_session sid tn t = Some r \<Longrightarrow>
    r \<in> set t \<and> s_id r = sid \<and> s_tenant r = tn \<and> s_status r \<noteq> DESTROYED"
  by (induction t) (auto simp: get_session_def split: if_splits)

lemma get_session_unscoped:
  "sessions_wf t \<Longrightarrow> get_session sid tn t = Some r \<Longrightarrow> get_unscoped sid t = Some r"
  using get_session_found [of sid tn t r]
  by (auto simp: sessions_wf_def get_unscoped_def dest: t_get_keyed)

definition within_max :: "limits \<Rightarrow> bool" where
  "within_max l \<longleftrightarrow> vcpu l \<le> 4 \<and> memory_mib l \<le> 8192 \<and> workspace_mib l \<le> 10240 \<and> pids l \<le> 1024 \<and>
     nofile l \<le> 4096 \<and> exec_timeout_s l \<le> 600"

lemma validate_limits_run:
  "validate_limits l w = ((if within_max l then Inr () else Inl InvalidLimits), w)"
  by (auto simp: validate_limits_def TENANT_MAX_def thenM_def bindM_def within_max_def)

lemma r_insert_run:
  assumes "r_insert E sid tn vol l w = (r, w')"
  shows "(\<exists>ts. r = Inr () \<and> insert_session ts sid tn vol l (w_sess w) = Inr (w_sess w')) \<or>
    r = Inl IntegrityError \<and> w_sess w' = w_sess w"
proof -
  obtain ts x where "o_now E (w_out w) = (ts, x)" by fastforce
  with assms show ?thesis
    by (cases "insert_session ts sid tn vol l (w_sess w)")
      (auto simp: r_insert_def bindM_def now_ms_def outM_read tryTable_def insert_session_def
        split: if_splits)
qed

lemma inserted:
  assumes "insert_session ts sid tn vol l t = Inr t'"
  shows "get_unscoped sid t = None" "get_unscoped sid t' = Some (new_session ts sid tn vol l)"
    "only_row sid t t'" "sess_status t' sid = Some CREATING"
  using assms get_unscoped_insert [OF assms] 
  by (auto simp: insert_session_def get_unscoped_def only_row_def sess_status_def new_session_def
      split: if_splits)

text \<open>The part of \<open>create\<close> that follows the insertion of the row.\<close>

definition create_tail :: "'x ctx \<Rightarrow> string \<Rightarrow> string \<Rightarrow> string \<Rightarrow> limits \<Rightarrow> ('x, session) W" where
  "create_tail E sid tenant vol l =
     thenM (tryM (provision E sid tenant vol l) (\<lambda>e. thenM (rollback E sid vol) (raise e)))
    (bindM (r_get sid tenant) (\<lambda>row.
     bindM (assert_some row) (\<lambda>row.
     thenM (emit E (ok_event ''session.create'' tenant sid (JObj [(''limits'', limits_json l)])))
       (ret row))))"

lemma create_tail_done:
  assumes "create_tail E sid tenant vol l w = (Inr row, w')"
    and t: "get_unscoped sid (w_sess w) = Some (new_session ts sid tenant vol l)"
  shows "get_session sid tenant (w_sess w') = Some row \<and> s_id row = sid \<and> s_status row = RUNNING \<and>
    s_container row \<noteq> None \<and> s_limits row = l \<and> s_volume row = vol \<and>
    only_row sid (w_sess w) (w_sess w') \<and>
    (\<exists>ts. event_line ts (ok_event ''session.create'' tenant sid (JObj [(''limits'', limits_json l)]))
       \<in> recorded w')"
proof -
  from assms(1) obtain u w1 where p: "provision E sid tenant vol l w = (Inr u, w1)"
    and row: "get_session sid tenant (w_sess w1) = Some row"
    and e: "emit E (ok_event ''session.create'' tenant sid (JObj [(''limits'', limits_json l)])) w1 = (Inr (), w')"
    unfolding create_tail_def
    by (auto elim!: thenM_InrE tryM_InrE simp: r_get_def assert_some_def split: option.splits)
  from provision_done [OF p] obtain cid ts' where
    "transition ts' sid RUNNING (set_container sid cid (w_sess w)) = Inr (w_sess w1)" .
  then have w1: "w_sess w1 = write_status ts' sid RUNNING (set_container sid cid (w_sess w))"
    by (auto simp: transition_def split: option.splits if_splits)
  have "get_unscoped sid (w_sess w1) =
      Some (with_status ts' RUNNING (new_session ts sid tenant vol l\<lparr>s_container := Some cid\<rparr>))"
    using t by (simp add: w1 sess_simps)
  from get_session_of [OF this] row
  have "row = with_status ts' RUNNING (new_session ts sid tenant vol l\<lparr>s_container := Some cid\<rparr>)"
    by (simp add: new_session_def)
  moreover have "only_row sid (w_sess w) (w_sess w1)"
    unfolding w1 by (metis only_row_simps(2,3) only_row_trans)
  moreover have "w_sess w' = w_sess w1" using e by (rule same_sessD [OF same_sess_simps(3)])
  ultimately show ?thesis
    using row emit_records [OF e] by (simp add: new_session_def)
qed

lemma create_tail_failed:
  assumes "create_tail E sid tenant vol l w = (Inl e, w')"
    and t: "get_unscoped sid (w_sess w) = Some (new_session ts sid tenant vol l)"
  shows "only_row sid (w_sess w) (w_sess w') \<and>
    (sess_status (w_sess w') sid = Some DESTROYED \<or> sess_status (w_sess w') sid = Some CREATING)"
proof -
  have c: "creating sid (w_sess w) w"
    using t by (simp add: creating_def sess_status_def new_session_def)
  have "\<exists>e1 w1. provision E sid tenant vol l w = (Inl e1, w1) \<and>
      (rollback E sid vol w1 = (Inl e, w') \<or> (\<exists>u. rollback E sid vol w1 = (Inr u, w')))"
    using assms(1) unfolding create_tail_def
  proof (elim thenM_InlE tryM_InlE)
    fix y w1
    assume p: "tryM (provision E sid tenant vol l) (\<lambda>e. thenM (rollback E sid vol) (raise e)) w = (Inr y, w1)"
      and r: "bindM (r_get sid tenant) (\<lambda>row. bindM (assert_some row) (\<lambda>row. thenM (emit E
        (ok_event ''session.create'' tenant sid (JObj [(''limits'', limits_json l)]))) (ret row))) w1 = (Inl e, w')"
    from p obtain u where "provision E sid tenant vol l w = (Inr u, w1)" by (auto elim!: tryM_InrE)
    from provision_done [OF this] obtain cid ts' where
      "transition ts' sid RUNNING (set_container sid cid (w_sess w)) = Inr (w_sess w1)" .
    then have w1: "w_sess w1 = write_status ts' sid RUNNING (set_container sid cid (w_sess w))"
      by (auto simp: transition_def split: option.splits if_splits)
    then have "get_session sid tenant (w_sess w1) \<noteq> None"
      using get_session_of [of sid "w_sess w1" _ tenant] t by (simp add: sess_simps new_session_def)
    with r show ?thesis by (auto simp: r_get_def assert_some_def then_emit)
  qed auto
  then obtain e1 w1 r where p: "provision E sid tenant vol l w = (Inl e1, w1)"
    and r: "rollback E sid vol w1 = (r, w')" by blast
  from yieldsD_Inl [OF provision_failed c p] have "creating sid (w_sess w) w1" .
  from rollback_run [OF r this] show ?thesis by (cases r) auto
qed

lemma create_session_outcome:
  assumes "create_session E tn lim w = (r, w')"
  shows "case r of
      Inr row \<Rightarrow> is_healthy w \<and> count_concurrent tn (w_sess w) < tenant_max_concurrent (cfg E) \<and>
        within_max (s_limits row) \<and> (lim \<noteq> None \<longrightarrow> lim = Some (s_limits row)) \<and>
        get_unscoped (s_id row) (w_sess w) = None \<and>
        get_session (s_id row) tn (w_sess w') = Some row \<and> s_status row = RUNNING \<and>
        s_container row \<noteq> None \<and> only_row (s_id row) (w_sess w) (w_sess w') \<and>
        (\<exists>ts. event_line ts (ok_event ''session.create'' tn (s_id row)
          (JObj [(''limits'', limits_json (s_limits row))])) \<in> recorded w')
    | Inl e \<Rightarrow> w_sess w' = w_sess w \<or>
        (\<exists>sid. get_unscoped sid (w_sess w) = None \<and> only_row sid (w_sess w) (w_sess w') \<and>
          (sess_status (w_sess w') sid = Some DESTROYED \<or> sess_status (w_sess w') sid = Some CREATING))"
proof (cases "is_healthy w \<and> count_concurrent tn (w_sess w) < tenant_max_concurrent (cfg E)")
  case False
  with assms show ?thesis
    by (cases "is_healthy w") (auto simp: create_session_def thenM_def bindM_def precheck_run)
next
  case True
  let ?rest = "\<lambda>l. bindM (new_ulid E) (\<lambda>sid. thenM (r_insert E sid tn (''sandbox-vol-'' @ sid) l)
      (create_tail E sid tn (''sandbox-vol-'' @ sid) l))"
  let ?dl = "case lim of Some l \<Rightarrow> ret l | None \<Rightarrow> default_limits (cfg E)"
  have run: "bindM ?dl (\<lambda>l. thenM (validate_limits l) (?rest l)) w = (r, w')"
    using assms True
    by (simp add: create_session_def create_tail_def Let_def thenM_def bindM_def precheck_run)
  have "\<exists>q. ?dl w = (q, w) \<and> (\<forall>l. lim = Some l \<longrightarrow> q = Inr l)"
    by (cases lim) (auto simp: default_limits_def Let_def)
  then obtain q where q: "?dl w = (q, w)" "\<And>l. lim = Some l \<Longrightarrow> q = Inr l" by blast
  show ?thesis
  proof (cases q)
    case (Inl e)
    with run q have "r = Inl e \<and> w' = w" by (auto simp: bindM_def)
    then show ?thesis by simp
  next
    case (Inr l)
    show ?thesis
    proof (cases "within_max l")
      case False
      with run q Inr have "r = Inl InvalidLimits \<and> w' = w"
        by (auto simp: bindM_def thenM_def validate_limits_run)
      then show ?thesis by simp
    next
      case max: True
      obtain sid x where u: "o_ulid E (w_out w) = (sid, x)" by fastforce
      let ?w = "w\<lparr>w_out := x\<rparr>"
      obtain q1 w1 where i: "r_insert E sid tn (''sandbox-vol-'' @ sid) l ?w = (q1, w1)" by fastforce
      have r: "(case q1 of Inl e \<Rightarrow> (Inl e, w1) | Inr _ \<Rightarrow> create_tail E sid tn (''sandbox-vol-'' @ sid) l w1) = (r, w')"
        using run q(1) Inr max u i
        by (auto simp: bindM_def thenM_def validate_limits_run new_ulid_def outM_read split: sum.splits)
      from r_insert_run [OF i] show ?thesis
      proof (elim disjE exE conjE)
        fix ts assume "q1 = Inr ()" and ins: "insert_session ts sid tn (''sandbox-vol-'' @ sid) l (w_sess ?w) = Inr (w_sess w1)"
        with r have tail: "create_tail E sid tn (''sandbox-vol-'' @ sid) l w1 = (r, w')" by simp
        note n = inserted [OF ins]
        show ?thesis
        proof (cases r)
          case (Inl e)
          with create_tail_failed [OF tail [unfolded Inl] n(2)] n(1,3) show ?thesis
            using only_row_trans [of sid "w_sess w" "w_sess w1" "w_sess w'"] by auto
        next
          case (Inr row)
          with create_tail_done [OF tail [unfolded Inr] n(2)] n(1,3) True max q(2) \<open>q = Inr l\<close>
          show ?thesis
            using only_row_trans [of sid "w_sess w" "w_sess w1" "w_sess w'"] by (cases lim) auto
        qed
      next
        assume "q1 = Inl IntegrityError" "w_sess w1 = w_sess ?w"
        with r show ?thesis by auto
      qed
    qed
  qed
qed

end
