(* ===== verification/SessionResults.thy ===== *)
theory SessionResults
  imports Sessions
begin

text \<open>
  What \<open>stop\<close>, \<open>resume\<close>, \<open>destroy\<close> and the reconciliation of the session service do to the
  sessions table, on every branch; then the properties of the session service.
\<close>

section \<open>Moves\<close>

text \<open>One legal move of one session; everything else in the table stays.\<close>

definition moved_to :: "string \<Rightarrow> status \<Rightarrow> sessions \<Rightarrow> sessions \<Rightarrow> bool" where
  "moved_to sid st t t' \<longleftrightarrow> only_row sid t t' \<and>
     (\<exists>r r'. get_unscoped sid t = Some r \<and> get_unscoped sid t' = Some r' \<and> s_status r' = st \<and>
        row_fixed r r' \<and> s_container r' = s_container r)"

lemma moved_write: "get_unscoped sid t = Some r \<Longrightarrow> moved_to sid st t (write_status ts sid st t)"
  by (simp add: moved_to_def sess_simps row_fixed_def)

lemma moved_to_trans: "moved_to sid a t t' \<Longrightarrow> moved_to sid b t' t'' \<Longrightarrow> moved_to sid b t t''"
  by (auto simp: moved_to_def row_fixed_def intro: only_row_trans)

lemma moved_to_status: "moved_to sid st t t' \<Longrightarrow> sess_status t' sid = Some st"
  by (auto simp: moved_to_def sess_status_def)

lemma r_transition_moves:
  assumes "get_unscoped sid (w_sess w) = Some r" "lifecycle (s_status r) b"
    and "r_transition E sid b w = (q, w')"
  shows "q = Inr () \<and> moved_to sid b (w_sess w) (w_sess w')"
proof -
  have "sess_status (w_sess w) sid = Some (s_status r)" using assms(1) by (simp add: sess_status_def)
  from r_transition_legal [OF this assms(2,3)] moved_write [OF assms(1)] show ?thesis by metis
qed

lemma outM_sess: "outM m w = (r, w') \<Longrightarrow> w_sess w' = w_sess w"
  by (rule same_sessD [OF same_sess_simps(1)])

lemma get_row_run:
  "get_row sid tenant w =
    (case get_session sid tenant (w_sess w) of None \<Rightarrow> (Inl SessionNotFound, w) | Some r \<Rightarrow> (Inr r, w))"
  by (simp add: get_row_def r_get_def split: option.splits)

lemma assert_some_run: "assert_some x w = (case x of None \<Rightarrow> (Inl AssertionError, w) | Some v \<Rightarrow> (Inr v, w))"
  by (simp add: assert_some_def split: option.splits)

text \<open>
  The common body of \<open>stop\<close> and \<open>resume\<close>: a Docker call, the transition, the audit record and the
  answer.
\<close>

definition switch ::
  "'x ctx \<Rightarrow> ('x, exn, unit) M \<Rightarrow> string \<Rightarrow> string \<Rightarrow> status \<Rightarrow> event \<Rightarrow> ('x, session) W" where
  "switch E m sid tenant st ev =
     thenM (outM m) (thenM (r_transition E sid st) (thenM (emit E ev) (get_row sid tenant)))"

lemma switch_run:
  assumes "switch E m sid tenant st ev w = (q, w')" "get_unscoped sid (w_sess w) = Some r"
    and "s_tenant r = tenant" "lifecycle (s_status r) st" "st \<noteq> DESTROYED"
  shows "case q of
      Inl e \<Rightarrow> fst (m (w_out w)) = Inl e \<and> w_sess w' = w_sess w
    | Inr row \<Rightarrow> moved_to sid st (w_sess w) (w_sess w') \<and> get_unscoped sid (w_sess w') = Some row \<and>
        s_status row = st \<and> (\<exists>ts. event_line ts ev \<in> recorded w')"
proof -
  obtain q1 w1 where o: "outM m w = (q1, w1)" by fastforce
  show ?thesis
  proof (cases q1)
    case (Inl e)
    with assms(1) o show ?thesis
      by (auto simp: switch_def thenM_def bindM_def outM_def split: prod.splits)
  next
    case (Inr u)
    obtain q2 w2 where t: "r_transition E sid st w1 = (q2, w2)" by fastforce
    obtain q3 w3 where e: "emit E ev w2 = (q3, w3)" by fastforce
    from r_transition_moves [OF _ assms(4) t] outM_sess [OF o] assms(2)
    have m: "q2 = Inr ()" "moved_to sid st (w_sess w) (w_sess w2)" by auto
    have w3: "w_sess w3 = w_sess w2" using e by (rule same_sessD [OF same_sess_simps(3)])
    from m(2) assms(2) obtain row where row: "get_unscoped sid (w_sess w3) = Some row"
      "s_status row = st" "s_tenant row = tenant"
      using assms(3) by (auto simp: moved_to_def row_fixed_def w3)
    have "get_session sid tenant (w_sess w3) = Some row"
      using row assms(5) by (intro get_session_of) auto
    with assms(1) o Inr t m(1) e emit_records [OF e] have "q = Inr row" "w' = w3"
      by (auto simp: switch_def thenM_def bindM_def get_row_run)
    then show ?thesis using m(2) w3 row emit_records [OF e] by auto
  qed
qed

lemma stop_session_switch:
  "stop_session E sid tenant = thenM precheck (bindM (get_row sid tenant) (\<lambda>row.
     if \<not> live (s_status row) then raise InvalidState
     else bindM (assert_some (s_container row)) (\<lambda>cid.
       switch E (stop_container E cid) sid tenant STOPPED (ok_event ''session.stop'' tenant sid JNull))))"
  unfolding stop_session_def switch_def by (rule refl)

lemma resume_session_switch:
  "resume_session E sid tenant = thenM precheck (bindM (get_row sid tenant) (\<lambda>row.
     if s_status row \<notin> {STOPPED, IDLE} then raise InvalidState
     else bindM (assert_some (s_container row)) (\<lambda>cid.
       switch E (start_container E cid) sid tenant RUNNING (ok_event ''session.resume'' tenant sid JNull))))"
  unfolding resume_session_def switch_def by (rule refl)

text \<open>
  Both handlers at once: \<open>ok\<close> is the set of statuses they accept, \<open>m\<close> the Docker call they make.
\<close>

lemma guarded_switch:
  assumes run: "thenM precheck (bindM (get_row sid tenant) (\<lambda>row.
     if \<not> ok (s_status row) then raise InvalidState
     else bindM (assert_some (s_container row)) (\<lambda>cid. switch E (m cid) sid tenant st ev))) w = (q, w')"
    and wf: "sessions_wf (w_sess w)" and st: "st \<noteq> DESTROYED"
    and legal: "\<And>a. ok a \<Longrightarrow> lifecycle a st"
  shows "case q of
      Inl e \<Rightarrow> w_sess w' = w_sess w \<and>
        (e = AuditUnhealthy \<and> \<not> is_healthy w \<and> w' = w \<or>
         e = SessionNotFound \<and> get_session sid tenant (w_sess w) = None \<or>
         (\<exists>r. get_session sid tenant (w_sess w) = Some r \<and>
           (e = InvalidState \<and> \<not> ok (s_status r) \<or>
            ok (s_status r) \<and> (e = AssertionError \<and> s_container r = None \<or>
              (\<exists>cid. s_container r = Some cid \<and> fst (m cid (w_out w)) = Inl e)))))
    | Inr row \<Rightarrow> is_healthy w \<and> moved_to sid st (w_sess w) (w_sess w') \<and>
        get_unscoped sid (w_sess w') = Some row \<and> s_status row = st \<and> s_tenant row = tenant \<and>
        (\<exists>ts. event_line ts ev \<in> recorded w')"
proof (cases "is_healthy w")
  case False
  with run show ?thesis by (auto simp: log.guarded_refused)
next
  case True
  note run' = run [unfolded log.guarded_open [OF True]]
  show ?thesis
  proof (cases "get_session sid tenant (w_sess w)")
    case None
    with run' show ?thesis by (auto simp: bindM_def get_row_run)
  next
    case (Some r)
    note r = get_session_unscoped [OF wf Some] get_session_found [OF Some]
    show ?thesis
    proof (cases "ok (s_status r) \<and> s_container r \<noteq> None")
      case False
      with run' Some show ?thesis by (auto simp: bindM_def get_row_run assert_some_run split: if_splits)
    next
      case ok: True
      then obtain cid where cid: "s_container r = Some cid" by auto
      with run' Some ok have "switch E (m cid) sid tenant st ev w = (q, w')"
        by (simp add: bindM_def get_row_run assert_some_run)
      from switch_run [OF this r(1) _ legal st] r ok cid Some True show ?thesis
        by (cases q) (auto simp: moved_to_def row_fixed_def)
    qed
  qed
qed

section \<open>Destroy\<close>

definition sess_safe :: "(session \<Rightarrow> ('x, unit) W) \<Rightarrow> bool" where
  "sess_safe hook \<longleftrightarrow> (\<forall>row. same_sess (hook row))"

lemma same_sess_then: "same_sess m \<Longrightarrow> same_sess n \<Longrightarrow> same_sess (thenM m n)"
  by (auto simp: same_sess_def intro: keeps_rules)

lemma same_sess_try: "same_sess m \<Longrightarrow> (\<And>e. same_sess (h e)) \<Longrightarrow> same_sess (tryM m h)"
  by (auto simp: same_sess_def intro: keeps_rules)

lemma same_sess_ret [simp]: "same_sess (ret x)"
  by (auto simp: same_sess_def intro: keeps_rules)

definition clean_up :: "'x ctx \<Rightarrow> (session \<Rightarrow> ('x, unit) W) \<Rightarrow> session \<Rightarrow> ('x, unit) W" where
  "clean_up E hook row =
     thenM (tryM (hook row) (\<lambda>_. ret ()))
    (thenM (remove_container_of E row)
    (thenM (run_teardown E (s_id row) (s_tenant row) (s_volume row))
           (outM (remove_volume E (s_volume row)))))"

lemma same_sess_clean_up: "sess_safe hook \<Longrightarrow> same_sess (clean_up E hook row)"
  unfolding clean_up_def sess_safe_def by (intro same_sess_then same_sess_try) auto

lemma destroy_locked_clean_up:
  "destroy_locked E hook row reason =
     thenM (r_transition E (s_id row) DESTROYING)
    (thenM (finallyM (clean_up E hook row) (r_transition E (s_id row) DESTROYED))
      (emit E (ok_event ''session.destroy'' (s_tenant row) (s_id row)
        (JObj [(''reason'', JStr reason)]))))"
  unfolding destroy_locked_def clean_up_def by (rule refl)

text \<open>
  \<open>destroy\<close> of a session that exists: refused with \<open>ValueError\<close> when it is already on its way out,
  and otherwise the row is \<open>DESTROYED\<close> at the end, whatever the Docker calls did. An exception of
  those calls is passed on, and then no audit record is written.
\<close>

lemma destroy_locked_run:
  assumes run: "destroy_locked E hook row reason w = (q, w')" and hook: "sess_safe hook"
    and row: "get_unscoped (s_id row) (w_sess w) = Some row"
  shows "if terminal (s_status row) then q = Inl ValueError \<and> w_sess w' = w_sess w
    else moved_to (s_id row) DESTROYED (w_sess w) (w_sess w') \<and>
      (q = Inr () \<longrightarrow> (\<exists>ts. event_line ts (ok_event ''session.destroy'' (s_tenant row) (s_id row)
        (JObj [(''reason'', JStr reason)])) \<in> recorded w'))"
proof (cases "terminal (s_status row)")
  case True
  then have "\<not> lifecycle (s_status row) DESTROYING" by (auto simp: lifecycle_simps terminal_def)
  then have "transition ts (s_id row) DESTROYING (w_sess w) = Inl ValueError" for ts
    using row by (intro reg.move_refused) (auto simp: sess_status_def)
  with r_transition_run [of E "s_id row" DESTROYING w] run True show ?thesis
    by (cases "r_transition E (s_id row) DESTROYING w")
      (auto simp: destroy_locked_clean_up thenM_def bindM_def)
next
  case False
  then have legal: "lifecycle (s_status row) DESTROYING" by (rule lifecycle.destroy)
  obtain q1 w1 where 1: "r_transition E (s_id row) DESTROYING w = (q1, w1)" by fastforce
  from r_transition_moves [OF row legal 1]
  have m1: "q1 = Inr ()" "moved_to (s_id row) DESTROYING (w_sess w) (w_sess w1)" by auto
  obtain q2 w2 where 2: "clean_up E hook row w1 = (q2, w2)" by fastforce
  have s2: "w_sess w2 = w_sess w1" using same_sess_clean_up [OF hook] 2 by (rule same_sessD)
  obtain q3 w3 where 3: "r_transition E (s_id row) DESTROYED w2 = (q3, w3)" by fastforce
  from m1(2) obtain r' where "get_unscoped (s_id row) (w_sess w2) = Some r'" "s_status r' = DESTROYING"
    unfolding s2 by (auto simp: moved_to_def)
  from r_transition_moves [OF this(1) _ 3] this(2)
  have m3: "q3 = Inr ()" "moved_to (s_id row) DESTROYED (w_sess w2) (w_sess w3)"
    by (auto intro: lifecycle.removed)
  have m: "moved_to (s_id row) DESTROYED (w_sess w) (w_sess w3)"
    using m1(2) m3(2) unfolding s2 by (rule moved_to_trans)
  let ?ev = "ok_event ''session.destroy'' (s_tenant row) (s_id row) (JObj [(''reason'', JStr reason)])"
  have "(case q2 of Inl e \<Rightarrow> (Inl e, w3) | Inr _ \<Rightarrow> emit E ?ev w3) = (q, w')"
    using run 1 2 3 m1(1) m3(1)
    by (auto simp: destroy_locked_clean_up thenM_def bindM_def finallyM_def split: sum.splits)
  then show ?thesis
  proof (cases q2)
    case (Inr u)
    with \<open>(case q2 of Inl e \<Rightarrow> (Inl e, w3) | Inr _ \<Rightarrow> emit E ?ev w3) = (q, w')\<close>
    have e: "emit E ?ev w3 = (q, w')" by simp
    have "w_sess w' = w_sess w3" using e by (rule same_sessD [OF same_sess_simps(3)])
    with m False emit_records [OF e] show ?thesis by auto
  qed (use m False in auto)
qed

lemma destroy_session_run:
  assumes run: "destroy_session E hook sid tenant w = (q, w')" and hook: "sess_safe hook"
    and wf: "sessions_wf (w_sess w)"
  shows "if \<not> is_healthy w then q = Inl AuditUnhealthy \<and> w' = w
    else case get_session sid tenant (w_sess w) of
      None \<Rightarrow> q = Inl SessionNotFound \<and> w' = w
    | Some row \<Rightarrow>
        if s_status row = DESTROYING then q = Inl ValueError \<and> w_sess w' = w_sess w
        else moved_to sid DESTROYED (w_sess w) (w_sess w') \<and>
          (q = Inr () \<longrightarrow> (\<exists>ts. event_line ts (ok_event ''session.destroy'' tenant sid
            (JObj [(''reason'', JStr ''api'')])) \<in> recorded w'))"
proof (cases "is_healthy w")
  case False
  with run show ?thesis by (simp add: destroy_session_def log.guarded_refused)
next
  case True
  have run': "bindM (get_row sid tenant) (\<lambda>row. destroy_locked E hook row ''api'') w = (q, w')"
    using run unfolding destroy_session_def by (simp add: log.guarded_open [OF True])
  show ?thesis
  proof (cases "get_session sid tenant (w_sess w)")
    case None
    with run' True show ?thesis by (auto simp: bindM_def get_row_run)
  next
    case (Some row)
    note f = get_session_found [OF Some]
    have "get_unscoped (s_id row) (w_sess w) = Some row"
      using get_session_unscoped [OF wf Some] f by simp
    moreover have "destroy_locked E hook row ''api'' w = (q, w')"
      using run' Some by (simp add: bindM_def get_row_run)
    ultimately show ?thesis
      using destroy_locked_run [OF _ hook, of E row "''api''" w q w'] f True Some
      by (auto simp: terminal_def)
  qed
qed

section \<open>Properties\<close>


text \<open>
  \<open>stop\<close> on every outcome. It returns the session \<open>STOPPED\<close>, on record, having changed only
  that row and only its status; it raises without touching the table when the log is unhealthy,
  the session is not the tenant's, it is neither \<open>RUNNING\<close> nor \<open>IDLE\<close>, or Docker fails.
\<close>

theorem stop_session_behaviour:
  assumes "sessions_wf (w_sess w)"
  shows "case stop_session E sid tenant w of
      (Inl e, w') \<Rightarrow> w_sess w' = w_sess w \<and>
        (e = AuditUnhealthy \<and> \<not> is_healthy w \<and> w' = w \<or>
         e = SessionNotFound \<and> get_session sid tenant (w_sess w) = None \<or>
         (\<exists>r. get_session sid tenant (w_sess w) = Some r \<and>
           (e = InvalidState \<and> s_status r \<notin> {RUNNING, IDLE} \<or>
            s_status r \<in> {RUNNING, IDLE} \<and> (e = AssertionError \<and> s_container r = None \<or>
              (\<exists>cid. s_container r = Some cid \<and> fst (stop_container E cid (w_out w)) = Inl e)))))
    | (Inr row, w') \<Rightarrow> is_healthy w \<and> moved_to sid STOPPED (w_sess w) (w_sess w') \<and>
        get_unscoped sid (w_sess w') = Some row \<and> s_status row = STOPPED \<and> s_tenant row = tenant \<and>
        (\<exists>ts. event_line ts (ok_event ''session.stop'' tenant sid JNull) \<in> recorded w')"
proof -
  obtain q w' where run: "stop_session E sid tenant w = (q, w')" by fastforce
  have legal: "live a \<Longrightarrow> lifecycle a STOPPED" for a
    by (auto simp: live_def intro: lifecycle.intros)
  from guarded_switch [where ok = live, OF run [unfolded stop_session_switch] assms _ legal]
  show ?thesis unfolding run by (cases q) (simp_all add: live_def)
qed

text \<open>
  C25: \<open>destroy\<close> on every outcome. It refuses without effect when the log is unhealthy or the session
  is not the tenant's, and with \<open>ValueError\<close> when a destroy is already under way; otherwise the row
  ends \<open>DESTROYED\<close>, every other row is unchanged, and a normal return is on record.
\<close>

theorem destroy_session_behaviour:
  assumes "sess_safe hook" "sessions_wf (w_sess w)"
  shows "case destroy_session E hook sid tenant w of (q, w') \<Rightarrow>
    (if \<not> is_healthy w then q = Inl AuditUnhealthy \<and> w' = w
     else case get_session sid tenant (w_sess w) of
      None \<Rightarrow> q = Inl SessionNotFound \<and> w' = w
    | Some row \<Rightarrow>
        if s_status row = DESTROYING then q = Inl ValueError \<and> w_sess w' = w_sess w
        else moved_to sid DESTROYED (w_sess w) (w_sess w') \<and>
          (case q of Inl e \<Rightarrow> True | Inr u \<Rightarrow>
             \<exists>ts. event_line ts (ok_event ''session.destroy'' tenant sid
               (JObj [(''reason'', JStr ''api'')])) \<in> recorded w'))"
proof -
  obtain q w' where run: "destroy_session E hook sid tenant w = (q, w')" by fastforce
  from destroy_session_run [OF run assms] show ?thesis
    unfolding run by (cases q) (auto split: option.splits if_splits)
qed

text \<open>A world with one running session, for the examples.\<close>

definition demo_session :: session where
  "demo_session = \<lparr>s_id = ''s1'', s_tenant = ''t1'', s_status = RUNNING, s_container = Some ''c1'',
     s_volume = ''v1'', s_limits = demo_limits, s_created = 1, s_last = 2, s_destroyed = None\<rparr>"

definition demo_world :: "tb world" where
  "demo_world = (start_world (tb_start\<lparr>tb_containers := [''c1'']\<rparr>))\<lparr>w_sess := [demo_session]\<rparr>"

lemma demo_world_wf: "sessions_wf (w_sess demo_world)"
  by (simp add: demo_world_def demo_session_def sessions_wf_def keyed_def)

lemma demo_world_facts:
  "is_healthy demo_world" "get_session ''s1'' ''t1'' (w_sess demo_world) = Some demo_session"
  "s_status demo_session = RUNNING" "s_container demo_session = Some ''c1''"
  "fst (stop_container (testbed S) c (w_out demo_world)) = Inr ()"
  by (simp_all add: demo_world_def demo_session_def is_healthy_def start_world_def get_session_def
      stop_container_def ignore_not_found_def tryM_def thenM_def bindM_def testbed_def tb_sdk_def
      tb_find_def tb_start_def)

lemma stop_session_behaviour_witness:
  "sessions_wf (w_sess demo_world) \<and>
   (\<exists>row w'. stop_session (testbed default_settings) ''s1'' ''t1'' demo_world = (Inr row, w') \<and>
      s_status row = STOPPED)"
proof -
  note facts = demo_world_facts
  from stop_session_behaviour [OF demo_world_wf, where E = "testbed default_settings"
      and sid = "''s1''" and tenant = "''t1''"]
  show ?thesis using demo_world_wf
    by (cases "stop_session (testbed default_settings) ''s1'' ''t1'' demo_world")
      (auto simp: facts split: sum.splits)
qed

lemma destroy_session_behaviour_witness:
  "sess_safe (\<lambda>row. ret () :: (tb, unit) W) \<and> sessions_wf (w_sess demo_world) \<and>
   (\<exists>q w'. destroy_session (testbed default_settings) (\<lambda>row. ret ()) ''s1'' ''t1'' demo_world = (q, w') \<and>
      moved_to ''s1'' DESTROYED (w_sess demo_world) (w_sess w'))"
proof -
  have "sess_safe (\<lambda>row. ret () :: (tb, unit) W)" by (simp add: sess_safe_def)
  with destroy_session_behaviour [OF this demo_world_wf,
      where E = "testbed default_settings" and sid = "''s1''" and tenant = "''t1''"]
  show ?thesis using demo_world_wf
    by (cases "destroy_session (testbed default_settings) (\<lambda>row. ret ()) ''s1'' ''t1'' demo_world")
      (simp add: demo_world_facts)
qed

section \<open>Waking a session up\<close>

text \<open>
  Execution and file access start the container of a stopped or idle session themselves, without
  the lock and without a record.
\<close>

lemma keeps_audit_transition: "keeps (\<lambda>w. w_audit w = a) (r_transition E sid st)"
  by (auto simp: keeps_def r_transition_def bindM_def now_ms_def outM_read tryTable_def
      split: prod.splits sum.splits dest!: map_sum_Inr)

lemma wake_run:
  assumes "thenM (outM m) (r_transition E sid RUNNING) w = (q, w')"
    and row: "get_unscoped sid (w_sess w) = Some r" "s_status r \<in> {STOPPED, IDLE}"
  shows "w_audit w' = w_audit w \<and> (case q of
      Inl e \<Rightarrow> fst (m (w_out w)) = Inl e \<and> w_sess w' = w_sess w
    | Inr _ \<Rightarrow> moved_to sid RUNNING (w_sess w) (w_sess w'))"
proof -
  obtain q1 w1 where o: "outM m w = (q1, w1)" by fastforce
  show ?thesis
  proof (cases q1)
    case (Inl e)
    with assms(1) o show ?thesis by (auto simp: thenM_def bindM_def outM_def split: prod.splits)
  next
    case (Inr u)
    obtain q2 w2 where t: "r_transition E sid RUNNING w1 = (q2, w2)" by fastforce
    have "lifecycle (s_status r) RUNNING" using row(2) by (auto intro: lifecycle.intros)
    from r_transition_moves [OF _ this t] row(1) outM_sess [OF o]
    have "q2 = Inr ()" "moved_to sid RUNNING (w_sess w) (w_sess w2)" by auto
    moreover have "w_audit w2 = w_audit w"
      using keeps_run [OF keeps_audit_transition _ t, of "w_audit w1"] outM_eq(4) [OF o] by simp
    ultimately show ?thesis using assms(1) o Inr t by (auto simp: thenM_def bindM_def)
  qed
qed

text \<open>Activity changes a time stamp of the row and nothing else.\<close>

definition touched :: "string \<Rightarrow> sessions \<Rightarrow> sessions \<Rightarrow> bool" where
  "touched sid t t' \<longleftrightarrow> only_row sid t t' \<and>
     (\<forall>r. get_unscoped sid t = Some r \<longrightarrow> (\<exists>at. get_unscoped sid t' = Some (r\<lparr>s_last := at\<rparr>)))"

lemma same_last [simp]: "\<exists>at. (r :: session) = r\<lparr>s_last := at\<rparr>"
  by (rule exI [of _ "s_last r"]) simp

lemma touched_refl: "touched sid t t"
  by (simp add: touched_def)

lemma touched_touch: "touched sid t (touch_activity ts sid t)"
  by (auto simp: touched_def only_row_def sess_simps)

lemma bump_run:
  assumes "bump_activity E sid w = (q, w')"
  shows "q = Inr () \<and> w_audit w' = w_audit w \<and> touched sid (w_sess w) (w_sess w')"
proof -
  obtain ts x where "o_now E (w_out w) = (ts, x)" by fastforce
  with assms show ?thesis
    by (auto simp: bump_activity_def r_touch_activity_def bindM_def now_ms_def outM_read
        touched_refl touched_touch split: if_splits)
qed

end
