(* ===== verification/Exec.thy ===== *)
theory Exec
  imports SessionResults "HOL-Library.List_Lexorder" "HOL-Library.Char_ord"
begin

text \<open>
  Command execution (\<open>api/exec.py\<close>): \<open>run\<close> and the event stream of \<open>run_stream\<close>. The stream is a
  generator: the model says what it does for a caller that takes a given number of events.
\<close>

section \<open>Requests\<close>

record exec_request =
  r_argv :: "string list"
  r_stdin :: "string option"
  r_timeout :: "int option"
  r_env :: "(string \<times> string) list option"

record exec_response =
  y_stdout :: string
  y_stderr :: string
  y_exit_code :: int
  y_duration_ms :: int
  y_effective_timeout :: int
  y_truncated :: bool
  y_truncated_streams :: "string list"
  y_cap :: nat
  y_resume_ms :: int
  y_error :: "string option"

definition FORBIDDEN_ENV_KEYS :: "string list" where
  "FORBIDDEN_ENV_KEYS = [''HTTP_PROXY'', ''HTTPS_PROXY'', ''NO_PROXY'']"

definition TENANT_MAX_TIMEOUT_S :: int where
  "TENANT_MAX_TIMEOUT_S = 600"

definition STDIN_INLINE_LIMIT_BYTES :: nat where
  "STDIN_INLINE_LIMIT_BYTES = 1024 * 1024"

definition env_of :: "exec_request \<Rightarrow> (string \<times> string) list" where
  "env_of req = case_option [] id (r_env req)"

definition validate_exec :: "exec_request \<Rightarrow> ('s, exn, unit) M" where
  "validate_exec req =
     (if r_argv req = [] then raise InvalidArgument
      else if list_ex (\<lambda>k. k \<in> set FORBIDDEN_ENV_KEYS) (map fst (env_of req))
      then raise InvalidArgument else ret ())"

definition effective_timeout :: "exec_request \<Rightarrow> session \<Rightarrow> int" where
  "effective_timeout req row =
     max 1 (min (case r_timeout req of Some t \<Rightarrow> t | None \<Rightarrow> exec_timeout_s (s_limits row))
       TENANT_MAX_TIMEOUT_S)"

definition encode_stdin :: "exec_request \<Rightarrow> ('s, exn, string option) M" where
  "encode_stdin req =
     (case r_stdin req of
        None \<Rightarrow> ret None
      | Some s \<Rightarrow> if STDIN_INLINE_LIMIT_BYTES < length s then raise InvalidArgument else ret (Some s))"

section \<open>Preparation\<close>

definition prepare_exec ::
  "'x ctx \<Rightarrow> string \<Rightarrow> string \<Rightarrow> exec_request \<Rightarrow> ('x, session \<times> int) W" where
  "prepare_exec E sid tenant req =
     bindM (get_row sid tenant) (\<lambda>row.
     thenM (validate_exec req)
    (if s_status row \<notin> {RUNNING, IDLE, STOPPED} then raise InvalidState
     else if s_status row \<in> {STOPPED, IDLE} then
       bindM (assert_some (s_container row)) (\<lambda>cid.
       bindM (monotonic_ns E) (\<lambda>start_ns.
       thenM (outM (start_container E cid))
      (thenM (r_transition E sid RUNNING)
      (bindM (monotonic_ns E) (\<lambda>end_ns.
       bindM (r_get sid tenant) (\<lambda>again.
       bindM (assert_some again) (\<lambda>row'.
       ret (row', (end_ns - start_ns) div 1000000))))))))
     else ret (row, 0)))"

definition env_keys_json :: "exec_request \<Rightarrow> json" where
  "env_keys_json req = JList (map JStr (sort (map fst (env_of req))))"

section \<open>run\<close>

definition exec_event ::
  "string \<Rightarrow> string \<Rightarrow> exec_request \<Rightarrow> int \<Rightarrow> string option \<Rightarrow> exec_output \<Rightarrow> event" where
  "exec_event sid tenant req timeout_s stdin_bytes out =
     \<lparr>ev_kind = ''session.exec'', ev_tenant = tenant, ev_session = Some sid,
      ev_payload = JObj [(''argv'', JList (map JStr (r_argv req))), (''env_keys'', env_keys_json req),
        (''timeout_s'', JInt timeout_s),
        (''stdin_size'', JInt (case stdin_bytes of None \<Rightarrow> 0 | Some b \<Rightarrow> int (length b)))],
      ev_result = (if e_code out = TIMEOUT_EXIT_CODE then ''timeout'' else ''ok''),
      ev_duration = Some (e_duration out)\<rparr>"

definition exec_response_of :: "exec_output \<Rightarrow> int \<Rightarrow> int \<Rightarrow> exec_response" where
  "exec_response_of out timeout_s resume_ms =
     \<lparr>y_stdout = decode_replace (e_stdout out), y_stderr = decode_replace (e_stderr out),
      y_exit_code = e_code out, y_duration_ms = e_duration out, y_effective_timeout = timeout_s,
      y_truncated = (e_truncated out \<noteq> []), y_truncated_streams = e_truncated out,
      y_cap = OUTPUT_CAP_BYTES, y_resume_ms = resume_ms, y_error = None\<rparr>"

definition run_exec :: "'x ctx \<Rightarrow> string \<Rightarrow> string \<Rightarrow> exec_request \<Rightarrow> ('x, exec_response) W" where
  "run_exec E sid tenant req =
     thenM precheck
    (bindM (prepare_exec E sid tenant req) (\<lambda>(row, resume_ms).
     let timeout_s = effective_timeout req row in
     bindM (encode_stdin req) (\<lambda>stdin_bytes.
     bindM (assert_some (s_container row)) (\<lambda>cid.
     bindM (outM (exec_in_container E cid (r_argv req) (env_of req) timeout_s stdin_bytes)) (\<lambda>out.
     thenM (emit E (exec_event sid tenant req timeout_s stdin_bytes out))
    (thenM (bump_activity E sid)
    (if e_code out = TIMEOUT_EXIT_CODE then raise ExecTimeout
     else ret (exec_response_of out timeout_s resume_ms))))))))"

section \<open>run_stream\<close>

datatype sse_event =
    Sse_chunk string string
  | Sse_truncated string
  | Sse_error
  | Sse_result exec_response

text \<open>The variables of the loop: both buffers, truncated and announced streams, the exit code.\<close>

record stream_state =
  v_stdout :: string
  v_stderr :: string
  v_truncated :: "string list"
  v_announced :: "string list"
  v_exit :: int

definition stream_start :: stream_state where
  "stream_start = \<lparr>v_stdout = [], v_stderr = [], v_truncated = [], v_announced = [], v_exit = 0\<rparr>"

definition chunk_events ::
  "string \<Rightarrow> string \<Rightarrow> stream_state \<Rightarrow> string list \<Rightarrow> sse_event list" where
  "chunk_events name payload st truncated' =
     (if name \<in> set (v_truncated st) then [] else [Sse_chunk name payload]) @
     (if name \<in> set truncated' \<and> name \<notin> set (v_announced st) then [Sse_truncated name] else [])"

definition announce :: "string \<Rightarrow> string list \<Rightarrow> string list \<Rightarrow> string list" where
  "announce name truncated' announced =
     (if name \<in> set truncated' \<and> name \<notin> set announced then name # announced else announced)"

fun stream_step :: "stream_event \<Rightarrow> stream_state \<Rightarrow> sse_event list \<times> stream_state" where
  "stream_step (Ev_stdout payload) st =
     (case append_capped (v_stdout st) payload ''stdout'' (v_truncated st) of (buf, tr) \<Rightarrow>
       (chunk_events ''stdout'' payload st tr,
        st\<lparr>v_stdout := buf, v_truncated := tr, v_announced := announce ''stdout'' tr (v_announced st)\<rparr>))"
| "stream_step (Ev_stderr payload) st =
     (case append_capped (v_stderr st) payload ''stderr'' (v_truncated st) of (buf, tr) \<Rightarrow>
       (chunk_events ''stderr'' payload st tr,
        st\<lparr>v_stderr := buf, v_truncated := tr, v_announced := announce ''stderr'' tr (v_announced st)\<rparr>))"
| "stream_step (Ev_exit code) st = ([], st\<lparr>v_exit := code\<rparr>)"
| "stream_step Ev_error st = ([Sse_error], st)"

fun stream_loop :: "stream_event list \<Rightarrow> stream_state \<Rightarrow> sse_event list \<times> stream_state" where
  "stream_loop [] st = ([], st)"
| "stream_loop (e # es) st =
     (case stream_step e st of (out, st1) \<Rightarrow>
       (case stream_loop es st1 of (outs, st2) \<Rightarrow> (out @ outs, st2)))"

definition stream_result :: "stream_state \<Rightarrow> int \<Rightarrow> int \<Rightarrow> int \<Rightarrow> exec_response" where
  "stream_result st duration timeout_s resume_ms =
     (let timed_out = (v_exit st = TIMEOUT_EXIT_CODE) in
     \<lparr>y_stdout = decode_replace (v_stdout st), y_stderr = decode_replace (v_stderr st),
      y_exit_code = (if timed_out then - 1 else v_exit st), y_duration_ms = duration,
      y_effective_timeout = timeout_s, y_truncated = (v_truncated st \<noteq> []),
      y_truncated_streams = sort_streams (v_truncated st), y_cap = OUTPUT_CAP_BYTES,
      y_resume_ms = resume_ms, y_error = (if timed_out then Some ''exec_timeout'' else None)\<rparr>)"

definition stream_audit :: "string \<Rightarrow> string \<Rightarrow> exec_request \<Rightarrow> int \<Rightarrow> int \<Rightarrow> int \<Rightarrow> event" where
  "stream_audit sid tenant req timeout_s exit_code duration =
     \<lparr>ev_kind = ''session.exec.stream'', ev_tenant = tenant, ev_session = Some sid,
      ev_payload = JObj [(''argv'', JList (map JStr (r_argv req))), (''env_keys'', env_keys_json req),
        (''timeout_s'', JInt timeout_s)],
      ev_result = (if exit_code = TIMEOUT_EXIT_CODE then ''timeout'' else ''ok''),
      ev_duration = Some duration\<rparr>"

definition validate_stream_request :: "exec_request \<Rightarrow> ('s, exn, unit) M" where
  "validate_stream_request req = (if r_stdin req \<noteq> None then raise InvalidArgument else ret ())"

text \<open>
  The events a caller gets that asks for \<open>n\<close> of them. With fewer than there are, the generator is
  closed where it stands, at a live event; the code after the loop then never runs. The execution
  itself has been started by then and is not undone.
\<close>

definition run_stream ::
  "'x ctx \<Rightarrow> string \<Rightarrow> string \<Rightarrow> exec_request \<Rightarrow> nat \<Rightarrow> ('x, sse_event list) W" where
  "run_stream E sid tenant req n =
     (if n = 0 then ret []
      else
       thenM (validate_stream_request req)
      (thenM precheck
      (bindM (prepare_exec E sid tenant req) (\<lambda>(row, resume_ms).
       let timeout_s = effective_timeout req row in
       bindM (assert_some (s_container row)) (\<lambda>cid.
       thenM (bump_activity E sid)
      (bindM (monotonic_ns E) (\<lambda>start_ns.
       bindM (outM (exec_stream_in_container E cid (r_argv req) (env_of req) timeout_s)) (\<lambda>(es, err).
       let (outs, st) = stream_loop (es @ (case err of None \<Rightarrow> [] | Some e \<Rightarrow> [Ev_error])) stream_start in
       if n \<le> length outs then ret (take n outs)
       else
         bindM (monotonic_ns E) (\<lambda>end_ns.
         let duration = (end_ns - start_ns) div 1000000 in
         thenM (emit E (stream_audit sid tenant req timeout_s (v_exit st) duration))
               (ret (outs @ [Sse_result (stream_result st duration timeout_s resume_ms)])))))))))))"

section \<open>The cap on streams\<close>

fun payload_of :: "string \<Rightarrow> stream_event \<Rightarrow> string" where
  "payload_of name (Ev_stdout p) = (if name = ''stdout'' then p else [])"
| "payload_of name (Ev_stderr p) = (if name = ''stderr'' then p else [])"
| "payload_of name _ = []"

definition payloads :: "string \<Rightarrow> stream_event list \<Rightarrow> string" where
  "payloads name es = concat (map (payload_of name) es)"

fun sent_by :: "string \<Rightarrow> sse_event \<Rightarrow> string" where
  "sent_by name (Sse_chunk n p) = (if n = name then p else [])"
| "sent_by name _ = []"

definition sent :: "string \<Rightarrow> sse_event list \<Rightarrow> string" where
  "sent name outs = concat (map (sent_by name) outs)"

definition marks :: "string \<Rightarrow> sse_event list \<Rightarrow> nat" where
  "marks name outs = length (filter (\<lambda>e. e = Sse_truncated name) outs)"

fun live_event :: "stream_event \<Rightarrow> bool" where
  "live_event (Ev_stdout p) = (p \<noteq> [])"
| "live_event (Ev_stderr p) = (p \<noteq> [])"
| "live_event _ = True"

text \<open>
  The loop state after bytes \<open>tot ''stdout''\<close> and \<open>tot ''stderr''\<close>: the buffers are cut at the cap and
  exactly the streams that lost a byte are marked, and have been announced.
\<close>

definition stream_view :: "(string \<Rightarrow> string) \<Rightarrow> stream_state \<Rightarrow> bool" where
  "stream_view tot st \<longleftrightarrow>
     capped_view (tot ''stdout'') (tot ''stderr'') (v_stdout st, v_stderr st, v_truncated st) \<and>
     set (v_announced st) = set (v_truncated st)"

lemma stream_view_marked:
  "stream_view tot st \<Longrightarrow> name \<in> {''stdout'', ''stderr''} \<Longrightarrow>
    name \<in> set (v_truncated st) \<longleftrightarrow> OUTPUT_CAP_BYTES < length (tot name)"
  by (auto simp: stream_view_def capped_view_def)

lemma set_announce:
  "set tr \<subseteq> insert name (set old) \<Longrightarrow> set old \<subseteq> set tr \<Longrightarrow> set ann = set old \<Longrightarrow>
    set (announce name tr ann) = set tr"
  by (auto simp: announce_def)

lemma stream_step_view:
  assumes "stream_view tot st" "live_event e" "stream_step e st = (outs, st')"
  shows "stream_view (\<lambda>n. tot n @ payload_of n e) st'"
proof (cases e)
  case (Ev_stdout p)
  obtain buf tr where a: "append_capped (v_stdout st) p ''stdout'' (v_truncated st) = (buf, tr)" by fastforce
  have "capped_view (tot ''stdout'' @ p) (tot ''stderr'') (buf, v_stderr st, tr)"
    using add_stdout_view [of "tot ''stdout''" "tot ''stderr''" "(v_stdout st, v_stderr st, v_truncated st)" p]
      assms(1,2) Ev_stdout a by (simp add: stream_view_def add_stdout_def)
  moreover have "set tr \<subseteq> insert ''stdout'' (set (v_truncated st))" "set (v_truncated st) \<subseteq> set tr"
    using a by (auto simp: append_capped_def Let_def split: if_splits)
  ultimately show ?thesis
    using assms Ev_stdout a by (auto simp: stream_view_def set_announce)
next
  case (Ev_stderr p)
  obtain buf tr where a: "append_capped (v_stderr st) p ''stderr'' (v_truncated st) = (buf, tr)" by fastforce
  have "capped_view (tot ''stdout'') (tot ''stderr'' @ p) (v_stdout st, buf, tr)"
    using add_stderr_view [of "tot ''stdout''" "tot ''stderr''" "(v_stdout st, v_stderr st, v_truncated st)" p]
      assms(1,2) Ev_stderr a by (simp add: stream_view_def add_stderr_def)
  moreover have "set tr \<subseteq> insert ''stderr'' (set (v_truncated st))" "set (v_truncated st) \<subseteq> set tr"
    using a by (auto simp: append_capped_def Let_def split: if_splits)
  ultimately show ?thesis
    using assms Ev_stderr a by (auto simp: stream_view_def set_announce)
qed (use assms in \<open>auto simp: stream_view_def\<close>)

lemma stream_step_out:
  assumes v: "stream_view tot st" and l: "live_event e" and s: "stream_step e st = (outs, st')"
    and n: "name \<in> {''stdout'', ''stderr''}"
  shows "sent name outs = (if OUTPUT_CAP_BYTES < length (tot name) then [] else payload_of name e)"
    and "marks name outs = (if \<not> OUTPUT_CAP_BYTES < length (tot name) \<and>
      OUTPUT_CAP_BYTES < length (tot name @ payload_of name e) then 1 else 0)"
proof -
  note old = stream_view_marked [OF v n]
  note new = stream_view_marked [OF stream_step_view [OF v l s] n]
  have ann: "set (v_announced st) = set (v_truncated st)" using v by (simp add: stream_view_def)
  have tr: "tr' = v_truncated st'" if "e = Ev_stdout p" "append_capped (v_stdout st) p ''stdout'' (v_truncated st) = (b, tr')"
    for p b tr' using that s by auto
  have tr2: "tr' = v_truncated st'" if "e = Ev_stderr p" "append_capped (v_stderr st) p ''stderr'' (v_truncated st) = (b, tr')"
    for p b tr' using that s by auto
  have "outs = (case e of
      Ev_stdout p \<Rightarrow> chunk_events ''stdout'' p st (v_truncated st')
    | Ev_stderr p \<Rightarrow> chunk_events ''stderr'' p st (v_truncated st')
    | Ev_exit c \<Rightarrow> [] | Ev_error \<Rightarrow> [Sse_error])"
    using s by (cases e) (auto split: prod.splits)
  then show "sent name outs = (if OUTPUT_CAP_BYTES < length (tot name) then [] else payload_of name e)"
    "marks name outs = (if \<not> OUTPUT_CAP_BYTES < length (tot name) \<and>
      OUTPUT_CAP_BYTES < length (tot name @ payload_of name e) then 1 else 0)"
    using old new ann n
    by (cases e; auto simp: sent_def marks_def chunk_events_def split: if_splits)+
qed

lemma sent_append: "sent name (a @ b) = sent name a @ sent name b"
  by (simp add: sent_def)

lemma marks_append: "marks name (a @ b) = marks name a + marks name b"
  by (simp add: marks_def)

lemma stream_loop_view:
  assumes "stream_view tot st" "list_all live_event es" "stream_loop es st = (outs, st')"
    and "name \<in> {''stdout'', ''stderr''}"
  shows "stream_view (\<lambda>n. tot n @ payloads n es) st' \<and>
    (\<exists>rest. payloads name es = sent name outs @ rest \<and>
      (rest \<noteq> [] \<longrightarrow> OUTPUT_CAP_BYTES < length (tot name @ sent name outs))) \<and>
    (OUTPUT_CAP_BYTES < length (tot name) \<longrightarrow> sent name outs = []) \<and>
    marks name outs = (if \<not> OUTPUT_CAP_BYTES < length (tot name) \<and>
      OUTPUT_CAP_BYTES < length (tot name @ payloads name es) then 1 else 0)"
  using assms(1-3)
proof (induction es arbitrary: tot st outs)
  case Nil
  then show ?case by (simp add: payloads_def sent_def marks_def)
next
  case (Cons e es)
  obtain o1 st1 where s: "stream_step e st = (o1, st1)" by fastforce
  obtain o2 st2 where l: "stream_loop es st1 = (o2, st2)" by fastforce
  from Cons.prems s l have outs: "outs = o1 @ o2" "st' = st2" and le: "live_event e" "list_all live_event es"
    by auto
  let ?tot = "\<lambda>n. tot n @ payload_of n e"
  note v1 = stream_step_view [OF Cons.prems(1) le(1) s]
  note step = stream_step_out [OF Cons.prems(1) le(1) s assms(4)]
  have pc: "payloads n (e # es) = payload_of n e @ payloads n es" for n by (simp add: payloads_def)
  from Cons.IH [OF v1 le(2) l [folded outs(2)]] obtain rest where
    IH: "stream_view (\<lambda>n. ?tot n @ payloads n es) st'" "payloads name es = sent name o2 @ rest"
      "rest \<noteq> [] \<longrightarrow> OUTPUT_CAP_BYTES < length (?tot name @ sent name o2)"
      "OUTPUT_CAP_BYTES < length (?tot name) \<longrightarrow> sent name o2 = []"
      "marks name o2 = (if \<not> OUTPUT_CAP_BYTES < length (?tot name) \<and>
        OUTPUT_CAP_BYTES < length (?tot name @ payloads name es) then 1 else 0)" by blast
  show ?case
  proof (intro conjI)
    show "stream_view (\<lambda>n. tot n @ payloads n (e # es)) st'" using IH(1) by (simp add: pc)
    show "marks name outs = (if \<not> OUTPUT_CAP_BYTES < length (tot name) \<and>
      OUTPUT_CAP_BYTES < length (tot name @ payloads name (e # es)) then 1 else 0)"
      using IH(5) step(2) by (simp add: outs(1) marks_append pc)
    show quiet: "OUTPUT_CAP_BYTES < length (tot name) \<longrightarrow> sent name outs = []"
      using IH(4) step(1) by (simp add: outs(1) sent_append)
    show "\<exists>rest. payloads name (e # es) = sent name outs @ rest \<and>
      (rest \<noteq> [] \<longrightarrow> OUTPUT_CAP_BYTES < length (tot name @ sent name outs))"
    proof (cases "OUTPUT_CAP_BYTES < length (tot name)")
      case True
      with IH(4) step(1) have "sent name outs = []" by (simp add: outs(1) sent_append)
      with True show ?thesis by simp
    next
      case False
      with IH(2,3) step(1) show ?thesis
        by (intro exI [of _ rest]) (simp add: outs(1) sent_append pc)
    qed
  qed
qed

section \<open>What run does\<close>

definition valid_exec :: "exec_request \<Rightarrow> bool" where
  "valid_exec req \<longleftrightarrow> r_argv req \<noteq> [] \<and> set (map fst (env_of req)) \<inter> set FORBIDDEN_ENV_KEYS = {}"

lemma validate_exec_run: "validate_exec req w = ((if valid_exec req then Inr () else Inl InvalidArgument), w)"
  by (auto simp: validate_exec_def valid_exec_def list_ex_iff)

lemma prepare_exec_run:
  assumes run: "prepare_exec E sid tenant req w = (q, w')" and wf: "sessions_wf (w_sess w)"
  shows "w_audit w' = w_audit w \<and> (case q of
      Inl e \<Rightarrow> w_sess w' = w_sess w
    | Inr (row, ms) \<Rightarrow> valid_exec req \<and> s_status row = RUNNING \<and> s_tenant row = tenant \<and>
        get_unscoped sid (w_sess w') = Some row \<and> only_row sid (w_sess w) (w_sess w') \<and>
        (\<exists>r. get_session sid tenant (w_sess w) = Some r \<and> s_status r \<in> {RUNNING, IDLE, STOPPED} \<and>
           row_fixed r row))"
proof (cases "get_session sid tenant (w_sess w)")
  case None
  with run show ?thesis by (auto simp: prepare_exec_def bindM_def get_row_run)
next
  case (Some r)
  note r = get_session_unscoped [OF wf Some] get_session_found [OF Some]
  show ?thesis
  proof (cases "valid_exec req \<and> s_status r \<in> {STOPPED, IDLE} \<and> s_container r \<noteq> None")
    case False
    with run Some r show ?thesis
      by (auto simp: prepare_exec_def bindM_def thenM_def get_row_run validate_exec_run assert_some_run
          row_fixed_def only_row_def split: if_splits)
  next
    case True
    then obtain cid where cid: "s_container r = Some cid" by auto
    obtain s1 x1 where m1: "o_mono E (w_out w) = (s1, x1)" by fastforce
    let ?w = "w\<lparr>w_out := x1\<rparr>"
    obtain q1 w1 where wake: "thenM (outM (start_container E cid)) (r_transition E sid RUNNING) ?w = (q1, w1)"
      by fastforce
    have st: "s_status r \<in> {STOPPED, IDLE}" using True by blast
    have wk: "w_audit w1 = w_audit w \<and> (case q1 of
      Inl e \<Rightarrow> fst (start_container E cid (w_out ?w)) = Inl e \<and> w_sess w1 = w_sess w
    | Inr _ \<Rightarrow> moved_to sid RUNNING (w_sess w) (w_sess w1))"
      using wake_run [OF wake _ st] r(1) by (cases q1) simp_all
    let ?rest = "bindM (monotonic_ns E) (\<lambda>end_ns. bindM (r_get sid tenant) (\<lambda>again.
       bindM (assert_some again) (\<lambda>row'. ret (row', (end_ns - s1) div 1000000))))"
    have res: "(case q1 of Inl e \<Rightarrow> (Inl e, w1) | Inr _ \<Rightarrow> ?rest w1) = (q, w')"
      using run Some True cid m1 wake
      by (auto simp: prepare_exec_def bindM_def thenM_def get_row_run validate_exec_run
          assert_some_run monotonic_ns_def outM_read split: prod.splits sum.splits)
    show ?thesis
    proof (cases q1)
      case (Inl e)
      with res wk show ?thesis by auto
    next
      case (Inr u)
      with wk r(1,2) obtain row where row: "get_unscoped sid (w_sess w1) = Some row" "s_status row = RUNNING"
        "row_fixed r row" and oth: "only_row sid (w_sess w) (w_sess w1)" by (auto simp: moved_to_def)
      then have "get_session sid tenant (w_sess w1) = Some row"
        using r(2) by (intro get_session_of) (auto simp: row_fixed_def)
      with res Inr obtain ms x where "q = Inr (row, ms)" "w' = w1\<lparr>w_out := x\<rparr>"
        by (auto simp: bindM_def monotonic_ns_def outM_read r_get_def assert_some_run split: prod.splits)
      then show ?thesis
        using row oth wk True Some r(2) by (auto simp: row_fixed_def)
    qed
  qed
qed

lemma effective_timeout_bounds: "1 \<le> effective_timeout req row \<and> effective_timeout req row \<le> 600"
  by (simp add: effective_timeout_def TENANT_MAX_TIMEOUT_S_def)

lemma run_exec_outcome:
  assumes run: "run_exec E sid tenant req w = (q, w')" and wf: "sessions_wf (w_sess w)"
  shows "(\<not> is_healthy w \<longrightarrow> q = Inl AuditUnhealthy \<and> w' = w) \<and> only_row sid (w_sess w) (w_sess w') \<and>
    (case q of Inl e \<Rightarrow> True | Inr y \<Rightarrow>
      valid_exec req \<and>
      (\<exists>r row. get_session sid tenant (w_sess w) = Some r \<and> s_status r \<in> {RUNNING, IDLE, STOPPED} \<and>
        get_unscoped sid (w_sess w') = Some row \<and> s_status row = RUNNING \<and> row_fixed r row) \<and>
      (\<exists>ts out stdin_bytes. event_line ts (exec_event sid tenant req (y_effective_timeout y) stdin_bytes out)
          \<in> recorded w' \<and> e_code out \<noteq> TIMEOUT_EXIT_CODE \<and>
        y = exec_response_of out (y_effective_timeout y) (y_resume_ms y)) \<and>
      1 \<le> y_effective_timeout y \<and> y_effective_timeout y \<le> 600)"
proof (cases "is_healthy w")
  case False
  with run show ?thesis by (auto simp: run_exec_def log.guarded_refused)
next
  case True
  obtain q1 w1 where p: "prepare_exec E sid tenant req w = (q1, w1)" by fastforce
  note pr = prepare_exec_run [OF p wf]
  show ?thesis
  proof (cases q1)
    case (Inl e)
    with run p True pr show ?thesis
      by (auto simp: run_exec_def log.guarded_open bindM_def)
  next
    case (Inr rm)
    obtain row ms where rm: "rm = (row, ms)" by fastforce
    let ?t = "effective_timeout req row"
    let ?exec = "\<lambda>stdin_bytes cid. bindM (outM (exec_in_container E cid (r_argv req) (env_of req) ?t stdin_bytes)) (\<lambda>out.
     thenM (emit E (exec_event sid tenant req ?t stdin_bytes out))
    (thenM (bump_activity E sid)
    (if e_code out = TIMEOUT_EXIT_CODE then raise ExecTimeout
     else ret (exec_response_of out ?t ms))))"
    have run1: "bindM (encode_stdin req) (\<lambda>stdin_bytes. bindM (assert_some (s_container row)) (?exec stdin_bytes)) w1 = (q, w')"
      using run p Inr rm True
      by (simp add: run_exec_def log.guarded_open bindM_def [of "prepare_exec E sid tenant req"] Let_def)
    have "\<exists>sb. encode_stdin req w1 = (sb, w1)" by (auto simp: encode_stdin_def split: option.splits)
    then obtain sb where sb: "encode_stdin req w1 = (sb, w1)" by blast
    show ?thesis
    proof (cases "\<exists>b cid. sb = Inr b \<and> s_container row = Some cid")
      case False
      then have "q \<in> range Inl \<and> w' = w1"
        using run1 sb by (cases sb) (auto simp: bindM_def assert_some_run split: option.splits)
      with pr Inr rm True show ?thesis by auto
    next
      case t: True
      then obtain b cid where bc: "sb = Inr b" "s_container row = Some cid" by blast
      obtain q2 w2 where x: "outM (exec_in_container E cid (r_argv req) (env_of req) ?t b) w1 = (q2, w2)" by fastforce
      have run2: "?exec b cid w1 = (q, w')" using run1 sb bc by (simp add: bindM_def assert_some_run)
      note s2 = outM_sess [OF x]
      show ?thesis
      proof (cases q2)
        case (Inl e)
        with run2 x have "q = Inl e" "w' = w2" by (auto simp: bindM_def)
        with pr Inr rm True s2 \<open>q1 = Inr rm\<close> show ?thesis by simp
      next
        case out: (Inr out)
        let ?ev = "exec_event sid tenant req ?t b out"
        obtain q3 w3 where e: "emit E ?ev w2 = (q3, w3)" by fastforce
        obtain q4 w4 where bu: "bump_activity E sid w3 = (q4, w4)" by fastforce
        note em = emit_records [OF e] and bm = bump_run [OF bu]
        have s3: "w_sess w3 = w_sess w2" using e by (rule same_sessD [OF same_sess_simps(3)])
        have rec: "recorded w4 = recorded w3" using bm by (simp add: recorded_def)
        have fin: "(if e_code out = TIMEOUT_EXIT_CODE then raise ExecTimeout
            else ret (exec_response_of out ?t ms)) w4 = (q, w')"
          using run2 x out e bu em bm by (auto simp: bindM_def thenM_def)
        have row4: "\<exists>at. get_unscoped sid (w_sess w4) = Some (row\<lparr>s_last := at\<rparr>)"
          "only_row sid (w_sess w) (w_sess w4)"
          using bm pr \<open>q1 = Inr rm\<close> rm s2 s3 unfolding touched_def
          by (auto intro: only_row_trans)
        show ?thesis
        proof (cases "e_code out = TIMEOUT_EXIT_CODE")
          case True
          with fin row4 \<open>is_healthy w\<close> show ?thesis by auto
        next
          case False
          with fin have q: "q = Inr (exec_response_of out ?t ms)" "w' = w4" by auto
          obtain ts where ts: "event_line ts ?ev \<in> recorded w4" using em rec by auto
          have y: "y_effective_timeout (exec_response_of out ?t ms) = ?t" "y_resume_ms (exec_response_of out ?t ms) = ms"
            by (simp_all add: exec_response_of_def)
          from pr \<open>q1 = Inr rm\<close> rm obtain r where r: "valid_exec req" "get_session sid tenant (w_sess w) = Some r"
            "s_status r \<in> {RUNNING, IDLE, STOPPED}" "row_fixed r row" "s_status row = RUNNING" by auto
          from row4(1) obtain at where "get_unscoped sid (w_sess w') = Some (row\<lparr>s_last := at\<rparr>)"
            using q by auto
          moreover have "row_fixed r (row\<lparr>s_last := at\<rparr>)" using r(4) by (simp add: row_fixed_def)
          ultimately show ?thesis
            using True \<open>is_healthy w\<close> row4(2) r ts False effective_timeout_bounds [of req row]
            unfolding q by (simp add: y del: emit_ok) (metis y)
        qed
      qed
    qed
  qed
qed

lemma stream_events_live: "list_all live_event (stream_events cs)"
  by (induction cs rule: stream_events.induct) (auto simp: truthy_the)

lemma stream_events_payloads:
  "payloads ''stdout'' (stream_events cs) = concat (stdout_bytes cs)"
  "payloads ''stderr'' (stream_events cs) = concat (stderr_bytes cs)"
  by (induction cs rule: stream_events.induct)
    (auto simp: payloads_def stdout_bytes_def stderr_bytes_def)

lemma stream_start_view: "stream_view (\<lambda>n. []) stream_start"
  by (simp add: stream_view_def stream_start_def capped_view_def)

lemma validate_stream_run: "validate_stream_request req w = ((if r_stdin req = None then Inr () else Inl InvalidArgument), w)"
  by (simp add: validate_stream_request_def)

definition is_result :: "sse_event \<Rightarrow> bool" where
  "is_result e \<longleftrightarrow> (case e of Sse_result y \<Rightarrow> True | _ \<Rightarrow> False)"

lemma stream_step_no_result: "stream_step e st = (outs, st') \<Longrightarrow> list_all (\<lambda>e. \<not> is_result e) outs"
  by (cases e) (auto simp: chunk_events_def is_result_def split: prod.splits)

lemma stream_loop_no_result: "stream_loop es st = (outs, st') \<Longrightarrow> list_all (\<lambda>e. \<not> is_result e) outs"
  by (induction es arbitrary: st outs) (auto split: prod.splits dest: stream_step_no_result)

lemma run_stream_outcome:
  assumes run: "run_stream E sid tenant req n w = (Inr evs, w')" and wf: "sessions_wf (w_sess w)"
  shows "list_all (\<lambda>e. \<not> is_result e) evs \<and> w_audit w' = w_audit w \<or>
    (\<exists>outs y ts t c d. evs = outs @ [Sse_result y] \<and> list_all (\<lambda>e. \<not> is_result e) outs \<and>
       event_line ts (stream_audit sid tenant req t c d) \<in> recorded w')"
proof (cases "n = 0")
  case True
  with run show ?thesis by (simp add: run_stream_def)
next
  case False
  from run False obtain row ms w1 cid w2 w3 s x es err w4 where
    h: "is_healthy w" and p: "prepare_exec E sid tenant req w = (Inr (row, ms), w1)"
    and b: "bump_activity E sid w1 = (Inr (), w2)"
    and m: "monotonic_ns E w2 = (Inr s, w3)"
    and x: "outM (exec_stream_in_container E cid (r_argv req) (env_of req) (effective_timeout req row)) w3
      = (Inr (es, err), w4)"
    and fin: "(let (outs, st) = stream_loop (es @ (case err of None \<Rightarrow> [] | Some e \<Rightarrow> [Ev_error])) stream_start in
       if n \<le> length outs then ret (take n outs)
       else bindM (monotonic_ns E) (\<lambda>end_ns.
         let duration = (end_ns - s) div 1000000 in
         thenM (emit E (stream_audit sid tenant req (effective_timeout req row) (v_exit st) duration))
           (ret (outs @ [Sse_result (stream_result st duration (effective_timeout req row) ms)])))) w4
       = (Inr evs, w')"
    unfolding run_stream_def
    by (auto elim!: thenM_InrE bindM_InrE simp: validate_stream_run precheck_run assert_some_run Let_def
        split: if_splits option.splits prod.splits)
  have a: "w_audit w4 = w_audit w"
    using prepare_exec_run [OF p wf] bump_run [OF b] outM_eq(4) [OF x]
      outM_eq(4) [OF m [unfolded monotonic_ns_def]] by simp
  obtain outs st where l: "stream_loop (es @ (case err of None \<Rightarrow> [] | Some e \<Rightarrow> [Ev_error])) stream_start = (outs, st)"
    by fastforce
  note nr = stream_loop_no_result [OF l]
  show ?thesis
  proof (cases "n \<le> length outs")
    case True
    with fin l have "evs = take n outs" "w' = w4" by auto
    with nr a show ?thesis by (auto simp: list_all_iff dest: in_set_takeD)
  next
    case False
    obtain en x5 where o5: "o_mono E (w_out w4) = (en, x5)" by fastforce
    define w5 where "w5 = w4\<lparr>w_out := x5\<rparr>"
    have e5: "monotonic_ns E w4 = (Inr en, w5)"
      by (simp add: monotonic_ns_def outM_read o5 w5_def)
    let ?ev = "stream_audit sid tenant req (effective_timeout req row) (v_exit st) ((en - s) div 1000000)"
    obtain q w6 where e: "emit E ?ev w5 = (q, w6)" by fastforce
    from fin l False e5 e emit_records [OF e]
    have "evs = outs @ [Sse_result (stream_result st ((en - s) div 1000000) (effective_timeout req row) ms)]" "w' = w6"
      by (auto simp: bindM_def thenM_def Let_def)
    with emit_records [OF e] nr show ?thesis by blast
  qed
qed

section \<open>Properties\<close>


definition demo_exec :: exec_request where
  "demo_exec = \<lparr>r_argv = [''ls''], r_stdin = None, r_timeout = Some 900, r_env = None\<rparr>"

lemma demo_prepare:
  "prepare_exec (testbed default_settings) ''s1'' ''t1'' demo_exec demo_world = (Inr (demo_session, 0), demo_world)"
  by (simp add: prepare_exec_def bindM_def thenM_def get_row_run demo_world_facts validate_exec_run
      valid_exec_def demo_exec_def env_of_def FORBIDDEN_ENV_KEYS_def)

lemma demo_exec_in_container:
  "outM (exec_in_container (testbed default_settings) ''c1'' argv env t None) demo_world =
    (Inr \<lparr>e_stdout = ''hi'', e_stderr = [], e_code = 0, e_duration = 0, e_truncated = []\<rparr>, demo_world)"
  by (simp add: outM_def exec_in_container_def bindM_def readM_def testbed_def tb_sdk_def tb_find_def
      thenM_def demo_world_def start_world_def tb_start_def exit_code_of_def exec_result_def truthy_def
      add_stdout_def append_capped_def OUTPUT_CAP_BYTES_def sort_streams_def)

lemma demo_bind:
  "bindM (prepare_exec (testbed default_settings) ''s1'' ''t1'' demo_exec) f demo_world =
    f (demo_session, 0) demo_world"
  "bindM (outM (exec_in_container (testbed default_settings) ''c1'' argv env t None)) g demo_world =
    g \<lparr>e_stdout = ''hi'', e_stderr = [], e_code = 0, e_duration = 0, e_truncated = []\<rparr> demo_world"
  by (simp_all add: bindM_def demo_prepare demo_exec_in_container)

lemma decode_hi: "decode_replace ''hi'' = ''hi''"
  by (rule decode_replace_ascii) (simp add: in_range_def)


text \<open>
  C28: the live chunks of a stream are a prefix of what the process wrote, everything it wrote unless
  they already exceed 8 MiB; the stream is announced as truncated exactly once if it is longer than
  that and never otherwise; and the final result holds its first 8 MiB.
\<close>

theorem stream_capped:
  "case stream_loop (stream_events cs) stream_start of (outs, st) \<Rightarrow>
     (\<exists>rest. concat (stdout_bytes cs) = sent ''stdout'' outs @ rest \<and>
        (if rest = [] then True else OUTPUT_CAP_BYTES < length (sent ''stdout'' outs))) \<and>
     marks ''stdout'' outs = (if OUTPUT_CAP_BYTES < length (concat (stdout_bytes cs)) then 1 else 0) \<and>
     v_stdout st = take OUTPUT_CAP_BYTES (concat (stdout_bytes cs)) \<and>
     (\<exists>rest. concat (stderr_bytes cs) = sent ''stderr'' outs @ rest \<and>
        (if rest = [] then True else OUTPUT_CAP_BYTES < length (sent ''stderr'' outs))) \<and>
     marks ''stderr'' outs = (if OUTPUT_CAP_BYTES < length (concat (stderr_bytes cs)) then 1 else 0) \<and>
     v_stderr st = take OUTPUT_CAP_BYTES (concat (stderr_bytes cs))"
proof -
  obtain outs st where l: "stream_loop (stream_events cs) stream_start = (outs, st)" by fastforce
  note v = stream_loop_view [OF stream_start_view stream_events_live l]
  from v [of "''stdout''"] v [of "''stderr''"] show ?thesis
    unfolding l by (auto simp: stream_events_payloads stream_view_def capped_view_def)
qed

text \<open>
  A caller of the stream that sees the result finds the execution on record; one that stops
  reading before the result leaves no trace of the execution in the audit log.
\<close>

theorem stream_record_needs_result:
  assumes "run_stream E sid tenant req n w = (Inr evs, w')" "sessions_wf (w_sess w)"
  shows "if list_ex is_result evs
    then \<exists>ts t c d. event_line ts (stream_audit sid tenant req t c d) \<in> recorded w'
    else w_audit w' = w_audit w"
  using run_stream_outcome [OF assms] by (auto simp: list_all_iff list_ex_iff is_result_def)

lemma stream_record_needs_result_witness:
  "\<exists>evs w'. run_stream (testbed default_settings) ''s1'' ''t1'' demo_exec 1 demo_world = (Inr evs, w') \<and>
     evs = [Sse_chunk ''stdout'' ''hi''] \<and> w_audit w' = w_audit demo_world"
proof -
  let ?E = "testbed default_settings"
  obtain r2 w2 where b: "bump_activity ?E ''s1'' demo_world = (r2, w2)" by fastforce
  have out: "w_out w2 = w_out demo_world"
    using b by (auto simp: bump_activity_def r_touch_activity_def now_ms_def outM_read bindM_def
        testbed_def default_settings_def)
  have x: "outM (exec_stream_in_container ?E ''c1'' argv env t) w2 =
      (Inr ([Ev_stdout ''hi'', Ev_exit 0], None), w2)" for argv env t
    using out by (simp add: outM_def exec_stream_in_container_def tryM_def bindM_def readM_def
        testbed_def tb_sdk_def tb_find_def thenM_def demo_world_def start_world_def tb_start_def
        exit_code_of_def truthy_def)
  have mono: "outM (readM (o_mono ?E)) w2 = (Inr (tb_clock (w_out w2) * 1000000), w2)"
    by (simp add: outM_read testbed_def)
  have tb: "thenM (bump_activity ?E ''s1'') m demo_world = m w2" for m :: "(tb, sse_event list) W"
    using b bump_run [OF b] by (simp add: thenM_def bindM_def)
  have xb: "bindM (outM (exec_stream_in_container ?E ''c1'' argv env t)) f w2 =
      f ([Ev_stdout ''hi'', Ev_exit 0], None) w2" for argv env t and f :: "_ \<Rightarrow> (tb, sse_event list) W"
    by (simp add: bindM_def x)
  have mb: "bindM (outM (readM (o_mono ?E))) f w2 = f (tb_clock (w_out w2) * 1000000) w2"
    for f :: "_ \<Rightarrow> (tb, sse_event list) W"
    by (simp add: bindM_def mono)
  have "(validate_stream_request demo_exec :: (tb, unit) W) = ret ()" by (simp add: validate_stream_request_def demo_exec_def)
  then have "\<exists>w'. run_stream ?E ''s1'' ''t1'' demo_exec 1 demo_world = (Inr [Sse_chunk ''stdout'' ''hi''], w')"
    using b bump_run [OF b]
    by (simp add: run_stream_def log.guarded_open [OF demo_world_facts(1)] demo_bind
        assert_some_def Let_def demo_world_facts tb monotonic_ns_def xb mb stream_start_def chunk_events_def append_capped_def
        OUTPUT_CAP_BYTES_def announce_def)
  then obtain w' where run: "run_stream (testbed default_settings) ''s1'' ''t1'' demo_exec 1 demo_world =
      (Inr [Sse_chunk ''stdout'' ''hi''], w')" by blast
  from stream_record_needs_result [OF this demo_world_wf] run show ?thesis by (simp add: is_result_def)
qed

end
