(* ===== verification/Files.thy ===== *)
theory Files
  imports SessionResults
begin

text \<open>
  File access in the workspace (\<open>api/files.py\<close>): write, read, list and delete. The container is
  reached only through the Docker client, on the path that \<open>resolve_workspace_path\<close> returns.
\<close>

section \<open>Requests\<close>

record file_write_request =
  fw_path :: string
  fw_content_b64 :: string
  fw_mode :: int

record file_answer =
  fa_path :: string
  fa_size :: int
  fa_mode :: int

record file_entry =
  n_name :: string
  n_is_dir :: bool
  n_size :: int
  n_mode :: int

text \<open>The dataclass \<open>_Session\<close>.\<close>

record file_session =
  fs_id :: string
  fs_container :: string

text \<open>A pure check as an effect.\<close>

definition checkM :: "exn + 'a \<Rightarrow> ('s, exn, 'a) M" where
  "checkM r s = (r, s)"

section \<open>The service\<close>

definition require_running :: "'x ctx \<Rightarrow> string \<Rightarrow> string \<Rightarrow> ('x, file_session) W" where
  "require_running E sid tenant =
     bindM (get_row sid tenant) (\<lambda>row.
     if s_status row \<notin> {RUNNING, IDLE, STOPPED} then raise InvalidState
     else
       bindM
         (if s_status row \<in> {STOPPED, IDLE} then
            bindM (assert_some (s_container row)) (\<lambda>cid.
            bindM (monotonic_ns E) (\<lambda>start_ns.
            thenM (outM (start_container E cid))
           (thenM (r_transition E sid RUNNING)
           (bindM (monotonic_ns E) (\<lambda>end_ns.
            bindM (r_get sid tenant) (\<lambda>again.
            assert_some again))))))
          else ret row)
       (\<lambda>row'.
        bindM (assert_some (s_container row')) (\<lambda>cid.
        ret \<lparr>fs_id = s_id row', fs_container = cid\<rparr>)))"

definition write_event :: "string \<Rightarrow> string \<Rightarrow> string \<Rightarrow> int \<Rightarrow> int \<Rightarrow> event" where
  "write_event tenant sid path len mode =
     ok_event ''session.file.write'' tenant sid
       (JObj [(''path'', JStr path), (''size'', JInt len), (''mode'', JInt mode)])"

definition write_resolved ::
  "'x ctx \<Rightarrow> file_session \<Rightarrow> string \<Rightarrow> string \<Rightarrow> string \<Rightarrow> string \<Rightarrow> int \<Rightarrow> ('x, file_answer) W" where
  "write_resolved E ses tenant sid abs_path content mode =
     thenM (outM (put_archive_file E (fs_container ses) abs_path content mode))
    (thenM (emit E (write_event tenant sid abs_path (int (length content)) mode))
    (thenM (bump_activity E sid)
           (ret \<lparr>fa_path = abs_path, fa_size = int (length content), fa_mode = mode\<rparr>)))"

definition decode_content :: "string \<Rightarrow> exn + string" where
  "decode_content s = (case b64decode s of None \<Rightarrow> Inl InvalidArgument | Some c \<Rightarrow> Inr c)"

definition write_file :: "'x ctx \<Rightarrow> string \<Rightarrow> string \<Rightarrow> file_write_request \<Rightarrow> ('x, file_answer) W" where
  "write_file E sid tenant req =
     thenM precheck
    (bindM (require_running E sid tenant) (\<lambda>ses.
     bindM (checkM (resolve_workspace_path (fw_path req) False)) (\<lambda>abs_path.
     bindM (checkM (decode_content (fw_content_b64 req))) (\<lambda>content.
     write_resolved E ses tenant sid abs_path content (fw_mode req)))))"

definition write_raw ::
  "'x ctx \<Rightarrow> string \<Rightarrow> string \<Rightarrow> string \<Rightarrow> string \<Rightarrow> int \<Rightarrow> ('x, file_answer) W" where
  "write_raw E sid tenant rel_path content mode =
     thenM precheck
    (bindM (require_running E sid tenant) (\<lambda>ses.
     bindM (checkM (resolve_workspace_path rel_path False)) (\<lambda>abs_path.
     write_resolved E ses tenant sid abs_path content mode)))"

fun read_error :: "exn \<Rightarrow> exn" where
  "read_error FileNotFoundError = HttpError 404 ''file_not_found''"
| "read_error IsADirectoryError = InvalidArgument"
| "read_error e = e"

definition read_file :: "'x ctx \<Rightarrow> string \<Rightarrow> string \<Rightarrow> string \<Rightarrow> ('x, string \<times> int) W" where
  "read_file E sid tenant rel_path =
     bindM (require_running E sid tenant) (\<lambda>ses.
     bindM (checkM (resolve_workspace_path rel_path False)) (\<lambda>abs_path.
     bindM (tryM (outM (get_archive_file E (fs_container ses) abs_path)) (\<lambda>e. raise (read_error e)))
       (\<lambda>found.
     thenM (bump_activity E sid) (ret found))))"

section \<open>Listing\<close>

definition find_argv :: "string \<Rightarrow> string list" where
  "find_argv abs_path =
     [''/usr/bin/find'', abs_path, ''-mindepth'', ''1'', ''-maxdepth'', ''1'', ''-printf'',
      ''%y'' @ [CHR 0x5C] @ ''t%s'' @ [CHR 0x5C] @ ''t%m'' @ [CHR 0x5C] @ ''t%f'' @ [CHR 0x5C] @ ''n'']"

text \<open>A line of the listing: type, size, octal mode and name, between tabs.\<close>

definition TAB :: char where
  "TAB = CHR 0x09"

fun entry_of :: "string list \<Rightarrow> exn + file_entry list" where
  "entry_of [ftype, len, mode, name] =
     (case (int_of 10 len, int_of 8 mode) of
        (Some z, Some m) \<Rightarrow> Inr [\<lparr>n_name = name, n_is_dir = (ftype = ''d''), n_size = z, n_mode = m\<rparr>]
      | _ \<Rightarrow> Inl ValueError)"
| "entry_of _ = Inr []"

fun parse_listing :: "string list \<Rightarrow> exn + file_entry list" where
  "parse_listing [] = Inr []"
| "parse_listing (line # lines) =
     (case entry_of (split_on TAB line) of
        Inl e \<Rightarrow> Inl e
      | Inr here \<Rightarrow> (case parse_listing lines of Inl e \<Rightarrow> Inl e | Inr rest \<Rightarrow> Inr (here @ rest)))"

definition contains_text :: "string \<Rightarrow> string \<Rightarrow> bool" where
  "contains_text needle s \<longleftrightarrow> list_ex (\<lambda>i. take (length needle) (drop i s) = needle) [0..<Suc (length s)]"

definition list_dir :: "'x ctx \<Rightarrow> string \<Rightarrow> string \<Rightarrow> string \<Rightarrow> ('x, file_entry list) W" where
  "list_dir E sid tenant rel_dir =
     bindM (require_running E sid tenant) (\<lambda>ses.
     bindM (if rel_dir = [] \<or> rel_dir = ''.'' then ret WORKSPACE
            else checkM (resolve_workspace_path rel_dir True)) (\<lambda>abs_path.
     bindM (outM (exec_simple E (fs_container ses) (find_argv abs_path))) (\<lambda>(out, err, rc).
     if rc \<noteq> 0 then
       raise (if contains_text ''No such file or directory'' (decode_replace err)
              then HttpError 404 ''file_not_found'' else HttpError 500 ''internal_error'')
     else checkM (parse_listing (splitlines (decode_replace out))))))"

section \<open>Deletion\<close>

definition rm_argv :: "bool \<Rightarrow> string \<Rightarrow> string list" where
  "rm_argv recursive abs_path =
     [''/bin/rm'', if recursive then ''-rf'' else ''-f'', ''--'', abs_path]"

definition delete_file :: "'x ctx \<Rightarrow> string \<Rightarrow> string \<Rightarrow> string \<Rightarrow> bool \<Rightarrow> ('x, unit) W" where
  "delete_file E sid tenant rel_path recursive =
     thenM precheck
    (bindM (require_running E sid tenant) (\<lambda>ses.
     bindM (checkM (resolve_workspace_path rel_path False)) (\<lambda>abs_path.
     bindM (outM (exec_simple E (fs_container ses) [''/usr/bin/test'', ''-e'', abs_path])) (\<lambda>(_, _, rc1).
     if rc1 \<noteq> 0 then raise (HttpError 404 ''file_not_found'')
     else
     bindM (outM (exec_simple E (fs_container ses) [''/usr/bin/test'', ''-d'', abs_path])) (\<lambda>(_, _, rc2).
     if rc2 = 0 \<and> \<not> recursive then raise InvalidArgument
     else
     bindM (outM (exec_simple E (fs_container ses) (rm_argv recursive abs_path))) (\<lambda>(_, _, rc3).
     if rc3 \<noteq> 0 then raise (HttpError 500 ''internal_error'')
     else
       thenM (emit E (ok_event ''session.file.delete'' tenant sid
         (JObj [(''path'', JStr abs_path), (''recursive'', JBool recursive)])))
       (bump_activity E sid)))))))"

section \<open>What the guards do\<close>

lemma checkM_run [simp]: "checkM r w = (r, w)"
  by (simp add: checkM_def)

text \<open>
  A session the tenant may use: woken if necessary, without a record and without consulting the
  audit log.
\<close>

lemma require_running_run:
  assumes run: "require_running E sid tenant w = (q, w')" and wf: "sessions_wf (w_sess w)"
  shows "w_audit w' = w_audit w \<and> only_row sid (w_sess w) (w_sess w') \<and>
    (case q of
      Inl e \<Rightarrow> w_sess w' = w_sess w \<or> e = AssertionError
    | Inr ses \<Rightarrow> fs_id ses = sid \<and>
        (\<exists>r row. get_session sid tenant (w_sess w) = Some r \<and> s_status r \<in> {RUNNING, IDLE, STOPPED} \<and>
          get_unscoped sid (w_sess w') = Some row \<and> s_status row = RUNNING \<and> row_fixed r row \<and>
          s_container row = Some (fs_container ses)))"
proof (cases "get_session sid tenant (w_sess w)")
  case None
  with run show ?thesis by (auto simp: require_running_def bindM_def get_row_run)
next
  case (Some r)
  note r = get_session_unscoped [OF wf Some] get_session_found [OF Some]
  show ?thesis
  proof (cases "s_status r \<in> {STOPPED, IDLE} \<and> s_container r \<noteq> None")
    case False
    with run Some r show ?thesis
      by (auto simp: require_running_def bindM_def get_row_run assert_some_run row_fixed_def
          split: if_splits option.splits)
  next
    case True
    then obtain cid where cid: "s_container r = Some cid" by auto
    obtain s1 x1 where m1: "o_mono E (w_out w) = (s1, x1)" by fastforce
    let ?w = "w\<lparr>w_out := x1\<rparr>"
    obtain q1 w1 where wake: "thenM (outM (start_container E cid)) (r_transition E sid RUNNING) ?w = (q1, w1)"
      by fastforce
    have st: "s_status r \<in> {STOPPED, IDLE}" using True by blast
    have wk: "w_audit w1 = w_audit w \<and> (case q1 of
      Inl e \<Rightarrow> fst (start_container E cid (w_out ?w)) = Inl e \<and> w_sess w1 = w_sess w
    | Inr _ \<Rightarrow> moved_to sid RUNNING (w_sess w) (w_sess w1))"
      using wake_run [OF wake _ st] r(1) by (cases q1) simp_all
    let ?rest = "bindM (bindM (monotonic_ns E) (\<lambda>end_ns. bindM (r_get sid tenant) (\<lambda>again. assert_some again)))
      (\<lambda>row'. bindM (assert_some (s_container row')) (\<lambda>cid. ret \<lparr>fs_id = s_id row', fs_container = cid\<rparr>))"
    have res: "(case q1 of Inl e \<Rightarrow> (Inl e, w1) | Inr _ \<Rightarrow> ?rest w1) = (q, w')"
      using run Some True cid m1 wake
      by (auto simp: require_running_def bindM_def thenM_def get_row_run
          assert_some_run monotonic_ns_def outM_read split: prod.splits sum.splits)
    show ?thesis
    proof (cases q1)
      case (Inl e)
      with res wk show ?thesis by auto
    next
      case (Inr u)
      with wk r(1) cid obtain row where row: "get_unscoped sid (w_sess w1) = Some row" "s_status row = RUNNING"
        "row_fixed r row" "s_container row = Some cid" and oth: "only_row sid (w_sess w) (w_sess w1)"
        by (auto simp: moved_to_def)
      then have "get_session sid tenant (w_sess w1) = Some row"
        using r(2) by (intro get_session_of) (auto simp: row_fixed_def)
      with res Inr row(4) obtain x where "q = Inr \<lparr>fs_id = s_id row, fs_container = cid\<rparr>" "w' = w1\<lparr>w_out := x\<rparr>"
        by (auto simp: bindM_def monotonic_ns_def outM_read r_get_def assert_some_run split: prod.splits)
      then show ?thesis
        using row oth wk st Some r(2) by (auto simp: row_fixed_def)
    qed
  qed
qed

lemma write_resolved_run:
  assumes "write_resolved E ses tenant sid p content mode w = (q, w')"
  shows "case q of
      Inl e \<Rightarrow> fst (put_archive_file E (fs_container ses) p content mode (w_out w)) = Inl e \<and>
        w_audit w' = w_audit w \<and> w_sess w' = w_sess w
    | Inr a \<Rightarrow> a = \<lparr>fa_path = p, fa_size = int (length content), fa_mode = mode\<rparr> \<and>
        fst (put_archive_file E (fs_container ses) p content mode (w_out w)) = Inr () \<and>
        (\<exists>ts. event_line ts (write_event tenant sid p (int (length content)) mode) \<in> recorded w') \<and>
        touched sid (w_sess w) (w_sess w')"
proof -
  obtain q1 w1 where o: "outM (put_archive_file E (fs_container ses) p content mode) w = (q1, w1)"
    by fastforce
  show ?thesis
  proof (cases q1)
    case (Inl e)
    with assms o show ?thesis
      by (auto simp: write_resolved_def thenM_def bindM_def outM_def split: prod.splits)
  next
    case (Inr u)
    obtain q2 w2 where e: "emit E (write_event tenant sid p (int (length content)) mode) w1 = (q2, w2)"
      by fastforce
    obtain q3 w3 where b: "bump_activity E sid w2 = (q3, w3)" by fastforce
    note em = emit_records [OF e] and bm = bump_run [OF b]
    have s: "w_sess w2 = w_sess w" using e outM_sess [OF o] by (metis same_sessD same_sess_simps(3))
    have "q = Inr \<lparr>fa_path = p, fa_size = int (length content), fa_mode = mode\<rparr>" "w' = w3"
      using assms o Inr e b em bm by (auto simp: write_resolved_def thenM_def bindM_def)
    moreover have "fst (put_archive_file E (fs_container ses) p content mode (w_out w)) = Inr ()"
      using o Inr by (auto simp: outM_def split: prod.splits)
    ultimately show ?thesis using em bm s by (auto simp: recorded_def)
  qed
qed

text \<open>\<open>write\<close> and \<open>write_raw\<close> differ only in where the content comes from.\<close>

definition write_at ::
  "'x ctx \<Rightarrow> string \<Rightarrow> string \<Rightarrow> string \<Rightarrow> exn + string \<Rightarrow> int \<Rightarrow> ('x, file_answer) W" where
  "write_at E sid tenant rel content mode =
     thenM precheck
    (bindM (require_running E sid tenant) (\<lambda>ses.
     bindM (checkM (resolve_workspace_path rel False)) (\<lambda>abs_path.
     bindM (checkM content) (\<lambda>c. write_resolved E ses tenant sid abs_path c mode))))"

lemma bindM_checkM [simp]: "bindM (checkM (Inr c)) f = f c" "bindM (checkM (Inl e)) f = raise e"
  by (auto simp: bindM_def fun_eq_iff)

lemma write_file_at:
  "write_file E sid tenant req =
    write_at E sid tenant (fw_path req) (decode_content (fw_content_b64 req)) (fw_mode req)"
  by (simp add: write_file_def write_at_def)

lemma write_raw_at: "write_raw E sid tenant rel c mode = write_at E sid tenant rel (Inr c) mode"
  by (simp add: write_raw_def write_at_def)

text \<open>A container the tenant may use now, in state \<open>w'\<close>, of a session it could use before.\<close>

definition serves :: "string \<Rightarrow> string \<Rightarrow> string \<Rightarrow> 'x world \<Rightarrow> 'x world \<Rightarrow> bool" where
  "serves sid tenant cid w w' \<longleftrightarrow>
     (\<exists>r row. get_session sid tenant (w_sess w) = Some r \<and> s_status r \<in> {RUNNING, IDLE, STOPPED} \<and>
        get_unscoped sid (w_sess w') = Some row \<and> s_status row = RUNNING \<and> row_fixed r row \<and>
        s_container row = Some cid)"

lemma serves_touched:
  "serves sid tenant cid w w1 \<Longrightarrow> touched sid (w_sess w1) (w_sess w') \<Longrightarrow> serves sid tenant cid w w'"
  by (fastforce simp: serves_def touched_def row_fixed_def)

lemma require_running_serves:
  assumes "require_running E sid tenant w = (q, w')" "sessions_wf (w_sess w)"
  shows "w_audit w' = w_audit w \<and> only_row sid (w_sess w) (w_sess w') \<and>
    (case q of Inl e \<Rightarrow> True | Inr ses \<Rightarrow> serves sid tenant (fs_container ses) w w')"
  using require_running_run [OF assms] unfolding serves_def by (auto split: sum.splits)

lemma touched_row: "touched sid t t' \<Longrightarrow> only_row sid t t'"
  by (simp add: touched_def)

lemma write_at_run:
  assumes run: "write_at E sid tenant rel content mode w = (q, w')" and wf: "sessions_wf (w_sess w)"
  shows "only_row sid (w_sess w) (w_sess w') \<and>
    (if \<not> is_healthy w then q = Inl AuditUnhealthy \<and> w' = w
     else case q of
       Inl e \<Rightarrow> w_audit w' = w_audit w
     | Inr a \<Rightarrow> \<exists>c cid x. content = Inr c \<and> resolve_workspace_path rel False = Inr (fa_path a) \<and>
         fa_size a = int (length c) \<and> fa_mode a = mode \<and> serves sid tenant cid w w' \<and>
         fst (put_archive_file E cid (fa_path a) c mode x) = Inr () \<and>
         (\<exists>ts. event_line ts (write_event tenant sid (fa_path a) (fa_size a) mode) \<in> recorded w'))"
proof (cases "is_healthy w")
  case False
  with run show ?thesis by (auto simp: write_at_def log.guarded_refused)
next
  case True
  obtain q1 w1 where p: "require_running E sid tenant w = (q1, w1)" by fastforce
  note pr = require_running_serves [OF p wf]
  show ?thesis
  proof (cases "\<exists>ses path c. q1 = Inr ses \<and> resolve_workspace_path rel False = Inr path \<and> content = Inr c")
    case False
    then have "\<exists>e. q = Inl e \<and> w' = w1"
      using run p True unfolding write_at_def log.guarded_open [OF True] bindM_def [of "require_running E sid tenant"]
      by (cases q1; cases "resolve_workspace_path rel False"; cases content) auto
    with pr True show ?thesis by auto
  next
    case parts: True
    then obtain ses path c where g: "q1 = Inr ses" "resolve_workspace_path rel False = Inr path" "content = Inr c"
      by blast
    have "write_resolved E ses tenant sid path c mode w1 = (q, w')"
      using run p g unfolding write_at_def log.guarded_open [OF True] bindM_def [of "require_running E sid tenant"]
      by simp
    note wr = write_resolved_run [OF this]
    show ?thesis
    proof (cases q)
      case (Inl e)
      with wr pr True show ?thesis by auto
    next
      case (Inr a)
      with wr have t: "touched sid (w_sess w1) (w_sess w')" by simp
      from pr g(1) have "serves sid tenant (fs_container ses) w w1" by simp
      from serves_touched [OF this t] pr touched_row [OF t] wr Inr g True show ?thesis
        by (auto intro: only_row_trans)
    qed
  qed
qed

lemma read_file_run:
  assumes run: "read_file E sid tenant rel w = (q, w')" and wf: "sessions_wf (w_sess w)"
  shows "w_audit w' = w_audit w \<and> only_row sid (w_sess w) (w_sess w') \<and>
    (case q of Inl e \<Rightarrow> True | Inr (c, mode) \<Rightarrow> \<exists>cid path x. serves sid tenant cid w w' \<and>
       resolve_workspace_path rel False = Inr path \<and> fst (get_archive_file E cid path x) = Inr (c, mode))"
proof -
  obtain q1 w1 where p: "require_running E sid tenant w = (q1, w1)" by fastforce
  note pr = require_running_serves [OF p wf]
  show ?thesis
  proof (cases "\<exists>ses path. q1 = Inr ses \<and> resolve_workspace_path rel False = Inr path")
    case False
    then have "\<exists>e. q = Inl e \<and> w' = w1"
      using run p unfolding read_file_def bindM_def [of "require_running E sid tenant"]
      by (cases q1; cases "resolve_workspace_path rel False") auto
    with pr show ?thesis by auto
  next
    case True
    then obtain ses path where g: "q1 = Inr ses" "resolve_workspace_path rel False = Inr path" by blast
    obtain q2 w2 where o: "outM (get_archive_file E (fs_container ses) path) w1 = (q2, w2)" by fastforce
    have res: "bindM (tryM (outM (get_archive_file E (fs_container ses) path)) (\<lambda>e. raise (read_error e)))
        (\<lambda>found. thenM (bump_activity E sid) (ret found)) w1 = (q, w')"
      using run p g unfolding read_file_def bindM_def [of "require_running E sid tenant"] by simp
    show ?thesis
    proof (cases q2)
      case (Inl e)
      with res o have "q = Inl (read_error e)" "w' = w2" by (auto simp: bindM_def tryM_def)
      with pr outM_eq(4) [OF o] outM_sess [OF o] show ?thesis by simp
    next
      case (Inr found)
      obtain q3 w3 where b: "bump_activity E sid w2 = (q3, w3)" by fastforce
      note bm = bump_run [OF b]
      from res o Inr b bm have e: "q = Inr found" "w' = w3" by (auto simp: bindM_def tryM_def thenM_def)
      have s: "w_sess w2 = w_sess w1" "w_audit w2 = w_audit w1"
        using outM_sess [OF o] outM_eq(4) [OF o] by simp_all
      have "fst (get_archive_file E (fs_container ses) path (w_out w1)) = Inr found"
        using o Inr by (auto simp: outM_def split: prod.splits)
      moreover have "serves sid tenant (fs_container ses) w w'"
        using pr g(1) bm e(2) s by (auto intro: serves_touched)
      ultimately show ?thesis using pr g bm e s by (auto dest: touched_row intro: only_row_trans)
    qed
  qed
qed

section \<open>Reading back\<close>

text \<open>
  What is relied on of the Docker daemon to read a file back: \<open>fs\<close> is its view of the files, an
  upload stores the member under its path, a download returns it, and neither the clocks nor the
  audit files matter.
\<close>

definition unclocked :: "'x ctx \<Rightarrow> ('x \<Rightarrow> 'v) \<Rightarrow> bool" where
  "unclocked E f \<longleftrightarrow> (\<forall>x. f (snd (o_now E x)) = f x \<and> f (snd (o_mono E x)) = f x \<and>
     (\<forall>l. f (snd (o_write E l x)) = f x) \<and> (\<forall>ls. f (snd (o_fallback E ls x)) = f x))"

definition archive_store :: "'x ctx \<Rightarrow> ('x \<Rightarrow> string \<times> string \<Rightarrow> tar_member option) \<Rightarrow> bool" where
  "archive_store E fs \<longleftrightarrow> unclocked E fs \<and>
     (\<forall>cid dir m x x'. o_put_archive (dk E) cid dir m x = (Inr (), x') \<longrightarrow>
        fs x' (cid, dir @ ''/'' @ m_name m) = Some m) \<and>
     (\<forall>cid p m x. fs x (cid, p) = Some m \<longrightarrow>
        (\<exists>ms. fst (o_get_archive (dk E) cid p x) = Inr (m # ms)))"

abbreviation out_is :: "('x \<Rightarrow> 'v) \<Rightarrow> 'v \<Rightarrow> 'x world \<Rightarrow> bool" where
  "out_is f v w \<equiv> f (w_out w) = v"

lemma keeps_out_read: "(\<And>x. f (snd (g x)) = f x) \<Longrightarrow> keeps (out_is f v) (outM (readM g))"
  by (auto simp: keeps_def outM_read split: prod.splits) (metis snd_conv)

lemma unclocked_steps:
  assumes "unclocked E f"
  shows "keeps (out_is f v) (now_ms E)" "keeps (out_is f v) (monotonic_ns E)"
    "keeps (out_is f v) (write_line E l)" "keeps (out_is f v) (outM (readM (o_fallback E ls)))"
    "keeps (out_is f v) (upd_audit g)"
proof -
  show u: "keeps (out_is f v) (upd_audit g)" for g by (simp add: keeps_def)
  show "keeps (out_is f v) (now_ms E)" "keeps (out_is f v) (monotonic_ns E)"
    "keeps (out_is f v) (outM (readM (o_fallback E ls)))"
    using assms by (auto simp: now_ms_def monotonic_ns_def unclocked_def intro!: keeps_out_read)
  show "keeps (out_is f v) (write_line E l)"
    unfolding write_line_def using assms
    by (intro keeps_rules keeps_out_read u) (auto simp: unclocked_def)
qed

lemma unclocked_drain: "unclocked E f \<Longrightarrow> keeps (out_is f v) (drain_loop E ls)"
  by (induction ls) (auto intro!: keeps_rules unclocked_steps)

lemma unclocked_emit: "unclocked E f \<Longrightarrow> keeps (out_is f v) (emit E ev)"
  unfolding emit_def drain_buffer_def go_unhealthy_def maybe_flush_to_fallback_def
  by (intro keeps_rules unclocked_steps unclocked_drain)

lemma unclocked_bump: "unclocked E f \<Longrightarrow> keeps (out_is f v) (bump_activity E sid)"
  unfolding bump_activity_def r_touch_activity_def
  by (intro keeps_rules unclocked_steps) (auto intro: keeps_modify)

lemma dir_base:
  assumes "CHR ''/'' \<notin> set n" "pre \<noteq> []" "last pre \<noteq> CHR ''/''"
  shows "posix_dirname (pre @ CHR ''/'' # n) = pre" "posix_basename (pre @ CHR ''/'' # n) = n"
proof -
  have n: "\<forall>c\<in>set (rev n). c \<noteq> CHR ''/''" using assms(1) by auto
  have "dropWhile (\<lambda>c. c \<noteq> CHR ''/'') (rev n @ CHR ''/'' # rev pre) = CHR ''/'' # rev pre"
    using n by (subst dropWhile_append2) auto
  moreover have "dropWhile (\<lambda>c. c = CHR ''/'') (rev pre) = rev pre"
    using assms(2,3) by (cases pre rule: rev_cases) auto
  moreover have "\<not> list_all (\<lambda>c. c = CHR ''/'') pre"
    using assms(2,3) by (auto simp: list_all_iff dest: last_in_set)
  ultimately show "posix_dirname (pre @ CHR ''/'' # n) = pre"
    by (simp add: posix_dirname_def Let_def)
  have "takeWhile (\<lambda>c. c \<noteq> CHR ''/'') (rev n @ CHR ''/'' # rev pre) = rev n"
    using n by (subst takeWhile_append2) auto
  then show "posix_basename (pre @ CHR ''/'' # n) = n" by (simp add: posix_basename_def)
qed

lemma last_path_of:
  "list_all proper_name d \<Longrightarrow> last (WORKSPACE @ path_of d) \<noteq> CHR ''/''"
proof (induction d rule: rev_induct)
  case Nil
  show ?case by (simp add: WORKSPACE_def)
next
  case (snoc c d)
  then have "c \<noteq> []" "last c \<noteq> CHR ''/''" by (auto simp: proper_name_def dest: last_in_set)
  then show ?case by (simp add: path_of_def)
qed

lemma resolved_parts:
  assumes "resolve_workspace_path rel False = Inr p"
  shows "posix_dirname p @ ''/'' @ posix_basename p = p"
proof -
  from resolve_inside [OF assms] obtain d where d: "p = WORKSPACE @ path_of d" "list_all proper_name d" "d \<noteq> []"
    by blast
  then obtain d0 c where dc: "d = d0 @ [c]" by (cases d rule: rev_cases) auto
  have p: "p = (WORKSPACE @ path_of d0) @ CHR ''/'' # c" by (simp add: d(1) dc path_of_def)
  have "CHR ''/'' \<notin> set c" "list_all proper_name d0" using d(2) dc by (auto simp: proper_name_def)
  with dir_base [of c "WORKSPACE @ path_of d0"] last_path_of [of d0] show ?thesis
    unfolding p by (simp add: WORKSPACE_def)
qed

lemma put_then_get:
  assumes st: "archive_store E fs" and res: "resolve_workspace_path rel False = Inr p"
    and put: "put_archive_file E cid p c mode x = (Inr (), x')"
  shows "\<exists>m. fs x' (cid, p) = Some m \<and>
    (\<forall>y. fs y (cid, p) = Some m \<longrightarrow> fst (get_archive_file E cid p y) = Inr (c, mode mod 512))"
proof -
  let ?m = "\<lparr>m_name = posix_basename p, m_size = int (length c), m_mode = mode mod 512, m_uid = 10001,
    m_gid = 10001, m_kind = M_file, m_content = c\<rparr>"
  from put obtain y where "o_put_archive (dk E) cid (posix_dirname p) ?m y = (Inr (), x')"
    by (auto simp: put_archive_file_def Let_def elim!: bindM_InrE split: prod.splits if_splits)
  with st have "fs x' (cid, posix_dirname p @ ''/'' @ posix_basename p) = Some ?m"
    unfolding archive_store_def by (metis tar_member.select_convs(1))
  then have "fs x' (cid, p) = Some ?m" using resolved_parts [OF res] by simp
  moreover have "fst (get_archive_file E cid p y) = Inr (c, mode mod 512)" if "fs y (cid, p) = Some ?m" for y
  proof -
    from st that obtain ms where "fst (o_get_archive (dk E) cid p y) = Inr (?m # ms)"
      unfolding archive_store_def by blast
    then obtain z where "o_get_archive (dk E) cid p y = (Inr (?m # ms), z)" by (metis prod.collapse)
    then show ?thesis by (simp add: get_archive_file_def bindM_def tryM_def)
  qed
  ultimately show ?thesis by blast
qed

lemma write_resolved_store:
  assumes run: "write_resolved E ses tenant sid p c mode w = (Inr a, w')"
    and st: "archive_store E fs" and res: "resolve_workspace_path rel False = Inr p"
  shows "fst (get_archive_file E (fs_container ses) p (w_out w')) = Inr (c, mode mod 512)"
proof -
  from run obtain w1 w2 where o: "outM (put_archive_file E (fs_container ses) p c mode) w = (Inr (), w1)"
    and e: "emit E (write_event tenant sid p (int (length c)) mode) w1 = (Inr (), w2)"
    and b: "bump_activity E sid w2 = (Inr (), w')"
    by (auto simp: write_resolved_def elim!: thenM_InrE)
  from o have "put_archive_file E (fs_container ses) p c mode (w_out w) = (Inr (), w_out w1)"
    by (auto simp: outM_def split: prod.splits)
  from put_then_get [OF st res this] obtain m where m: "fs (w_out w1) (fs_container ses, p) = Some m"
    "\<And>y. fs y (fs_container ses, p) = Some m \<Longrightarrow> fst (get_archive_file E (fs_container ses) p y) = Inr (c, mode mod 512)"
    by blast
  have u: "unclocked E fs" using st by (simp add: archive_store_def)
  have "fs (w_out w') = fs (w_out w1)"
    using keeps_run [OF unclocked_emit [OF u, of "fs (w_out w1)"] _ e]
      keeps_run [OF unclocked_bump [OF u, of "fs (w_out w1)"] _ b] by simp
  with m show ?thesis by simp
qed

lemma read_running:
  assumes row: "get_unscoped sid (w_sess w) = Some row"
    "s_tenant row = tenant" "s_status row = RUNNING" "s_container row = Some cid"
    and p: "resolve_workspace_path rel False = Inr p"
    and got: "fst (get_archive_file E cid p (w_out w)) = Inr found"
  shows "fst (read_file E sid tenant rel w) = Inr found"
proof -
  have g: "get_session sid tenant (w_sess w) = Some row" using row by (intro get_session_of) auto
  obtain x where o: "outM (get_archive_file E cid p) w = (Inr found, w\<lparr>w_out := x\<rparr>)"
    using got by (cases "get_archive_file E cid p (w_out w)") (simp add: outM_def)
  obtain q3 w3 where b: "bump_activity E sid (w\<lparr>w_out := x\<rparr>) = (q3, w3)" by fastforce
  have "require_running E sid tenant w = (Inr \<lparr>fs_id = s_id row, fs_container = cid\<rparr>, w)"
    using g row by (simp add: require_running_def bindM_def get_row_run assert_some_run)
  then show ?thesis
    using p o b bump_run [OF b] by (simp add: read_file_def bindM_def tryM_def thenM_def)
qed

section \<open>What \<open>find\<close> prints and what is listed\<close>

definition find_line :: "file_entry \<Rightarrow> string" where
  "find_line e = (if n_is_dir e then ''d'' else ''f'') @ [TAB] @ radix 10 (nat (n_size e)) @ [TAB] @
     radix 8 (nat (n_mode e)) @ [TAB] @ n_name e"

definition find_output :: "file_entry list \<Rightarrow> string" where
  "find_output es = concat (map (\<lambda>e. find_line e @ [CHR 0x0A]) es)"

text \<open>Names without tabs and line breaks; Linux allows both.\<close>

definition listable :: "file_entry \<Rightarrow> bool" where
  "listable e \<longleftrightarrow> 0 \<le> n_size e \<and> 0 \<le> n_mode e \<and> utf8 (n_name e) \<and> plain_line (n_name e) \<and>
     TAB \<notin> set (n_name e)"

lemma radix_chars:
  assumes "2 \<le> b" "b \<le> 10"
  shows "list_all (in_range 32 126) (radix b n)" "TAB \<notin> set (radix b n)"
proof -
  have d: "\<forall>c\<in>set (radix b n). is_digit c"
    using radix_digits [OF assms, of n] by (auto simp: list_all_iff below_def)
  then show "list_all (in_range 32 126) (radix b n)"
    by (auto simp: list_all_iff in_range_def is_digit_def dest!: bspec)
  show "TAB \<notin> set (radix b n)" using d by (auto simp: is_digit_def TAB_def dest!: bspec)
qed

lemma radix_free: "TAB \<notin> set (radix 10 n)" "TAB \<notin> set (radix 8 n)"
  by (rule radix_chars; simp)+

lemma letter_free: "TAB \<notin> set (if b then ''d'' else ''f'')"
  by (simp add: TAB_def)

lemma split_find_line:
  "listable e \<Longrightarrow> split_on TAB (find_line e) =
    [if n_is_dir e then ''d'' else ''f'', radix 10 (nat (n_size e)), radix 8 (nat (n_mode e)), n_name e]"
  unfolding find_line_def append_Cons append_Nil
  by (simp only: split_on_append_sep [OF letter_free] split_on_append_sep [OF radix_free(1)]
      split_on_append_sep [OF radix_free(2)] split_on_id listable_def simp_thms)

lemma entry_of_find_line: "listable e \<Longrightarrow> entry_of (split_on TAB (find_line e)) = Inr [e]"
  by (simp add: split_find_line int_of_radix) (simp add: listable_def)

lemma TAB_props: "break_len (TAB # s) = 0" "in_range 0 127 TAB"
  by (simp_all add: TAB_def break_len_def is_linebreak_def in_range_def)

lemma letter_range: "list_all (in_range 32 126) (if b then ''d'' else ''f'')"
  by (simp add: in_range_def)

lemma ascii_weaken: "list_all (in_range 32 126) s \<Longrightarrow> list_all (in_range 0 127) s"
  by (auto simp: list_all_iff in_range_def)

lemma plain_tab: "plain_line w \<Longrightarrow> plain_line ([TAB] @ w)"
  by (simp add: TAB_props)

lemma find_line_plain: "listable e \<Longrightarrow> plain_line (find_line e)"
  unfolding find_line_def
  by (rule plain_line_append [OF letter_range] plain_tab plain_line_append [OF radix_chars(1)]
      | simp add: listable_def)+

lemma find_line_utf8:
  assumes "listable e"
  shows "utf8 (find_line e @ [CHR 0x0A])"
proof -
  have "utf8 [TAB]" "utf8 [CHR 0x0A]" by (rule utf8_ascii, simp add: TAB_def in_range_def)+
  moreover have "utf8 (radix 10 n)" "utf8 (radix 8 n)" for n
    by (rule utf8_ascii, rule ascii_weaken, rule radix_chars, simp, simp)+
  moreover have "utf8 (if n_is_dir e then ''d'' else ''f'')"
    by (rule utf8_ascii, rule ascii_weaken, rule letter_range)
  moreover have "utf8 (n_name e)" using assms by (simp add: listable_def)
  ultimately show ?thesis unfolding find_line_def by (intro utf8_append)
qed

lemma parse_find_output:
  assumes "list_all listable es"
  shows "parse_listing (splitlines (decode_replace (find_output es))) = Inr es"
proof -
  have "decode_replace (find_output es) = find_output es"
    unfolding find_output_def using assms
    by (intro utf8_id utf8_concat) (auto simp: list_all_iff find_line_utf8)
  moreover have "splitlines (find_output es) = map find_line es"
    using splitlines_lines [of "map find_line es"] assms
    by (auto simp: find_output_def list_all_iff find_line_plain comp_def)
  moreover have "parse_listing (map find_line es) = Inr es"
    using assms by (induction es) (simp_all add: entry_of_find_line)
  ultimately show ?thesis by simp
qed

text \<open>The directory that is listed.\<close>

definition list_target :: "string \<Rightarrow> exn + string" where
  "list_target rel = (if rel = [] \<or> rel = ''.'' then Inr WORKSPACE else resolve_workspace_path rel True)"

lemma list_dir_target:
  "list_dir E sid tenant rel =
     bindM (require_running E sid tenant) (\<lambda>ses.
     bindM (checkM (list_target rel)) (\<lambda>abs_path.
     bindM (outM (exec_simple E (fs_container ses) (find_argv abs_path))) (\<lambda>(out, err, rc).
     if rc \<noteq> 0 then
       raise (if contains_text ''No such file or directory'' (decode_replace err)
              then HttpError 404 ''file_not_found'' else HttpError 500 ''internal_error'')
     else checkM (parse_listing (splitlines (decode_replace out))))))"
  by (simp add: list_dir_def list_target_def)

lemma running_served:
  assumes "get_unscoped sid (w_sess w) = Some row" "s_tenant row = tenant" "s_status row = RUNNING"
    "s_container row = Some cid"
  shows "require_running E sid tenant w = (Inr \<lparr>fs_id = s_id row, fs_container = cid\<rparr>, w)"
proof -
  have "get_session sid tenant (w_sess w) = Some row" using assms by (intro get_session_of) auto
  with assms show ?thesis by (simp add: require_running_def bindM_def get_row_run assert_some_run)
qed

section \<open>What a deletion does\<close>

text \<open>The record of a deletion.\<close>

abbreviation delete_event :: "string \<Rightarrow> string \<Rightarrow> string \<Rightarrow> bool \<Rightarrow> event" where
  "delete_event tenant sid p recursive \<equiv> ok_event ''session.file.delete'' tenant sid
     (JObj [(''path'', JStr p), (''recursive'', JBool recursive)])"

lemma exec_simple_same:
  assumes "outM (exec_simple E cid argv) w = (r, w')"
  shows "w_audit w' = w_audit w" "w_sess w' = w_sess w" "fst (exec_simple E cid argv (w_out w)) = r"
  using outM_eq [OF assms] assms by (auto simp: outM_def split: prod.splits)

text \<open>The part of \<open>delete\<close> that talks to the container.\<close>

definition remove_path :: "'x ctx \<Rightarrow> string \<Rightarrow> string \<Rightarrow> bool \<Rightarrow> ('x, unit) W" where
  "remove_path E cid p recursive =
     bindM (outM (exec_simple E cid [''/usr/bin/test'', ''-e'', p])) (\<lambda>(_, _, rc1).
     if rc1 \<noteq> 0 then raise (HttpError 404 ''file_not_found'')
     else
     bindM (outM (exec_simple E cid [''/usr/bin/test'', ''-d'', p])) (\<lambda>(_, _, rc2).
     if rc2 = 0 \<and> \<not> recursive then raise InvalidArgument
     else
     bindM (outM (exec_simple E cid (rm_argv recursive p))) (\<lambda>(_, _, rc3).
     if rc3 \<noteq> 0 then raise (HttpError 500 ''internal_error'') else ret ())))"

lemma delete_file_parts:
  "delete_file E sid tenant rel recursive =
     thenM precheck
    (bindM (require_running E sid tenant) (\<lambda>ses.
     bindM (checkM (resolve_workspace_path rel False)) (\<lambda>p.
     thenM (remove_path E (fs_container ses) p recursive)
    (thenM (emit E (delete_event tenant sid p recursive)) (bump_activity E sid)))))"
proof -
  have c: "thenM (bindM m (\<lambda>(u, v, rc). if b rc then raise e else f rc)) n =
    bindM m (\<lambda>(u, v, rc). if b rc then raise e else thenM (f rc) n)"
    for m :: "('x, string \<times> string \<times> int) W" and b e and f :: "int \<Rightarrow> ('x, unit) W" and n :: "('x, unit) W"
    by (auto simp: thenM_def bindM_def fun_eq_iff split: prod.splits sum.splits)
  show ?thesis unfolding delete_file_def remove_path_def c thenM_ret by (rule refl)
qed

lemma remove_path_run:
  assumes "remove_path E cid p recursive w = (q, w')"
  shows "w_audit w' = w_audit w \<and> w_sess w' = w_sess w \<and>
    (case q of
       Inl e \<Rightarrow> True
     | Inr _ \<Rightarrow> \<exists>x y z out err out2 err2 rc2 out3 err3.
         fst (exec_simple E cid [''/usr/bin/test'', ''-e'', p] x) = Inr (out, err, 0) \<and>
         fst (exec_simple E cid [''/usr/bin/test'', ''-d'', p] y) = Inr (out2, err2, rc2) \<and>
         (recursive \<or> rc2 \<noteq> 0) \<and>
         fst (exec_simple E cid (rm_argv recursive p) z) = Inr (out3, err3, 0))"
proof (cases q)
  case (Inl e)
  have "keeps (\<lambda>v. w_audit v = w_audit w \<and> w_sess v = w_sess w) (remove_path E cid p recursive)"
    unfolding remove_path_def by (intro keeps_rules keeps_out frameI) auto
  from keeps_run [OF this _ assms] Inl show ?thesis by simp
next
  case (Inr u)
  from assms [unfolded Inr] obtain a b w1 a2 b2 r2 w2 a3 b3 where
    1: "outM (exec_simple E cid [''/usr/bin/test'', ''-e'', p]) w = (Inr (a, b, 0), w1)" and
    2: "outM (exec_simple E cid [''/usr/bin/test'', ''-d'', p]) w1 = (Inr (a2, b2, r2), w2)"
       "recursive \<or> r2 \<noteq> 0" and
    3: "outM (exec_simple E cid (rm_argv recursive p)) w2 = (Inr (a3, b3, 0), w')"
    unfolding remove_path_def by (auto elim!: bindM_InrE split: prod.splits if_splits)
  note same = exec_simple_same [OF 1] exec_simple_same [OF 2(1)] exec_simple_same [OF 3]
  have "w_audit w' = w_audit w" "w_sess w' = w_sess w" using same by simp_all
  moreover note same(3) same(6) 2(2) same(9)
  ultimately show ?thesis unfolding Inr sum.case by blast
qed

lemma delete_file_run:
  assumes run: "delete_file E sid tenant rel recursive w = (q, w')" and wf: "sessions_wf (w_sess w)"
  shows "only_row sid (w_sess w) (w_sess w') \<and>
    (if \<not> is_healthy w then q = Inl AuditUnhealthy \<and> w' = w
     else case q of
       Inl e \<Rightarrow> w_audit w' = w_audit w
     | Inr _ \<Rightarrow> \<exists>p cid v v'. resolve_workspace_path rel False = Inr p \<and> serves sid tenant cid w w' \<and>
         remove_path E cid p recursive v = (Inr (), v') \<and>
         (\<exists>ts. event_line ts (delete_event tenant sid p recursive) \<in> recorded w'))"
proof (cases "is_healthy w")
  case False
  with run show ?thesis by (auto simp: delete_file_def log.guarded_refused)
next
  case True
  obtain q1 w1 where p: "require_running E sid tenant w = (q1, w1)" by fastforce
  note pr = require_running_serves [OF p wf]
  show ?thesis
  proof (cases "\<exists>ses path. q1 = Inr ses \<and> resolve_workspace_path rel False = Inr path")
    case False
    then have "\<exists>e. q = Inl e \<and> w' = w1"
      using run p True unfolding delete_file_parts log.guarded_open [OF True] bindM_def [of "require_running E sid tenant"]
      by (cases q1; cases "resolve_workspace_path rel False") auto
    with pr True show ?thesis by auto
  next
    case parts: True
    then obtain ses path where g: "q1 = Inr ses" "resolve_workspace_path rel False = Inr path" by blast
    obtain q2 w2 where r: "remove_path E (fs_container ses) path recursive w1 = (q2, w2)" by fastforce
    note rr = remove_path_run [OF r]
    have res: "thenM (remove_path E (fs_container ses) path recursive)
      (thenM (emit E (delete_event tenant sid path recursive)) (bump_activity E sid)) w1 = (q, w')"
      using run p g unfolding delete_file_parts log.guarded_open [OF True] bindM_def [of "require_running E sid tenant"]
      by simp
    show ?thesis
    proof (cases q2)
      case (Inl e)
      with res r have "q = Inl e" "w' = w2" by (auto simp: thenM_def bindM_def)
      with pr rr True show ?thesis by simp
    next
      case (Inr u)
      obtain q3 w3 where e: "emit E (delete_event tenant sid path recursive) w2 = (q3, w3)" by fastforce
      obtain q4 w4 where b: "bump_activity E sid w3 = (q4, w4)" by fastforce
      note em = emit_records [OF e] and bm = bump_run [OF b]
      have q: "q = Inr ()" "w' = w4" using res r Inr e b em bm by (auto simp: thenM_def bindM_def)
      have "w_sess w3 = w_sess w2" using e by (rule same_sessD [OF same_sess_simps(3)])
      with rr have s: "w_sess w3 = w_sess w1" by simp
      have t: "touched sid (w_sess w1) (w_sess w')" using bm q s by simp
      from pr g(1) have "serves sid tenant (fs_container ses) w w1" by simp
      from serves_touched [OF this t] have "serves sid tenant (fs_container ses) w w'" .
      moreover have "\<exists>ts. event_line ts (delete_event tenant sid path recursive) \<in> recorded w'"
        using em bm q by (auto simp: recorded_def)
      ultimately show ?thesis using q True g(2) r Inr pr touched_row [OF t]
        by (auto intro: only_row_trans)
    qed
  qed
qed

section \<open>Properties\<close>

text \<open>One write, for the examples: \<open>hi\<close> into \<open>a\<close>.\<close>

definition demo_write :: file_write_request where
  "demo_write = \<lparr>fw_path = ''x/../a'', fw_content_b64 = b64encode ''hi'', fw_mode = 416\<rparr>"

lemma demo_paths:
  "resolve_workspace_path ''x/../a'' False = Inr ''/workspace/a''"
  "resolve_workspace_path ''a'' False = Inr ''/workspace/a''"
  by code_simp+

lemma demo_running:
  "require_running (testbed S) ''s1'' ''t1'' demo_world = (Inr \<lparr>fs_id = ''s1'', fs_container = ''c1''\<rparr>, demo_world)"
  by (simp add: require_running_def bindM_def get_row_run assert_some_run demo_world_facts)
    (simp add: demo_session_def)

lemma demo_put: "fst (put_archive_file (testbed S) ''c1'' p c mode (w_out demo_world)) = Inr ()"
  by (simp add: put_archive_file_def Let_def exec_simple_def bindM_def testbed_def tb_sdk_def tb_find_def
      thenM_def demo_world_def start_world_def tb_start_def exit_code_of_def)

lemma demo_write_returns:
  "\<exists>a w'. write_file (testbed default_settings) ''s1'' ''t1'' demo_write demo_world = (Inr a, w')"
proof -
  let ?E = "testbed default_settings" and ?ses = "\<lparr>fs_id = ''s1'', fs_container = ''c1''\<rparr>"
  obtain q w' where wr: "write_resolved ?E ?ses ''t1'' ''s1'' ''/workspace/a'' ''hi'' 416 demo_world = (q, w')"
    by fastforce
  have "write_file ?E ''s1'' ''t1'' demo_write demo_world = (q, w')"
    using wr unfolding write_file_def log.guarded_open [OF demo_world_facts(1)]
      bindM_def [of "require_running ?E ''s1'' ''t1''"] demo_running
    by (simp add: demo_write_def demo_paths decode_content_def b64_round_trip del: b64encode.simps)
  moreover have "\<exists>a. q = Inr a"
    using write_resolved_run [OF wr] demo_put [of default_settings "''/workspace/a''" "''hi''" 416]
    by (cases q) simp_all
  ultimately show ?thesis by blast
qed

lemma demo_store: "archive_store (testbed S) (\<lambda>x. map_of (tb_files x))"
  by (simp add: archive_store_def unclocked_def testbed_def tb_sdk_def)



text \<open>
  C30: what is written can be read back: after a write of \<open>b64encode c\<close> that returned, a read of any
  spelling of the same path returns \<open>c\<close> and the permission bits of the mode.
\<close>

theorem write_then_read:
  assumes "archive_store E fs" "sessions_wf (w_sess w)"
    and "write_file E sid tenant \<lparr>fw_path = rel, fw_content_b64 = b64encode c, fw_mode = mode\<rparr> w = (Inr a, w')"
    and "resolve_workspace_path rel' False = resolve_workspace_path rel False"
  shows "fst (read_file E sid tenant rel' w') = Inr (c, mode mod 512)"
proof -
  from assms(3) obtain ses w1 p where r: "require_running E sid tenant w = (Inr ses, w1)"
    and p: "resolve_workspace_path rel False = Inr p"
    and wr: "write_resolved E ses tenant sid p c mode w1 = (Inr a, w')"
    unfolding write_file_def
    by (auto elim!: thenM_InrE bindM_InrE simp: precheck_run decode_content_def b64_round_trip split: if_splits)
  from require_running_serves [OF r assms(2)] have s1: "serves sid tenant (fs_container ses) w w1" by simp
  from write_resolved_run [OF wr] have "touched sid (w_sess w1) (w_sess w')" by simp
  from serves_touched [OF s1 this] obtain row where row: "get_unscoped sid (w_sess w') = Some row"
    "s_status row = RUNNING" "s_container row = Some (fs_container ses)" "s_tenant row = tenant"
    by (auto simp: serves_def row_fixed_def dest: get_session_found)
  from write_resolved_store [OF wr assms(1) p]
  show ?thesis using row p assms(4) by (intro read_running) auto
qed

lemma write_then_read_witness:
  "\<exists>w'. fst (read_file (testbed default_settings) ''s1'' ''t1'' ''a'' w') = Inr (''hi'', 416)"
proof -
  from demo_write_returns obtain a w' where
    "write_file (testbed default_settings) ''s1'' ''t1'' demo_write demo_world = (Inr a, w')" by blast
  from write_then_read [OF demo_store demo_world_wf this [unfolded demo_write_def], of "''a''"] show ?thesis
    by (auto simp: demo_paths)
qed


definition demo_entry :: file_entry where
  "demo_entry = \<lparr>n_name = ''a.txt'', n_is_dir = False, n_size = 12, n_mode = 420\<rparr>"

lemma demo_entry_listable: "listable demo_entry"
  by (simp add: listable_def demo_entry_def utf8_ascii in_range_def break_len_def is_linebreak_def TAB_def)


text \<open>
  Names are not escaped: a single file whose name continues with a line feed and the line of
  some entry is listed as two, the second one made up by whoever chose the name.
\<close>

theorem listing_forgeable:
  assumes "listable e" "listable forged"
  shows "parse_listing (splitlines (decode_replace
      (find_output [e\<lparr>n_name := n_name e @ [CHR 0x0A] @ find_line forged\<rparr>]))) = Inr [e, forged]"
proof -
  have "find_output [e\<lparr>n_name := n_name e @ [CHR 0x0A] @ find_line forged\<rparr>] = find_output [e, forged]"
    by (simp add: find_output_def find_line_def)
  with parse_find_output [of "[e, forged]"] assms show ?thesis by simp
qed

lemma listing_forgeable_witness:
  "listable demo_entry \<and> parse_listing (splitlines (decode_replace
      (find_output [demo_entry\<lparr>n_name := n_name demo_entry @ [CHR 0x0A] @ find_line demo_entry\<rparr>]))) =
    Inr [demo_entry, demo_entry]"
  using listing_forgeable [OF demo_entry_listable demo_entry_listable] demo_entry_listable by simp

text \<open>
  C32: a deletion that returns has removed, with \<open>rm\<close> and an argument after \<open>--\<close>, an existing path
  strictly below the workspace in the tenant's own container; a directory only if \<open>recursive\<close> was
  asked for; and it is on record. With an unhealthy audit log nothing happens, a failed deletion
  leaves no record, and no other session changes.
\<close>

theorem delete_file_behaviour:
  assumes "sessions_wf (w_sess w)"
  shows "case delete_file E sid tenant rel recursive w of (q, w') \<Rightarrow>
    only_row sid (w_sess w) (w_sess w') \<and>
    (if \<not> is_healthy w then q = Inl AuditUnhealthy \<and> w' = w
     else case q of
       Inl e \<Rightarrow> w_audit w' = w_audit w
     | Inr _ \<Rightarrow> \<exists>d p cid x y z out err out2 err2 rc2 out3 err3.
         p = WORKSPACE @ path_of d \<and> d \<noteq> [] \<and> list_all proper_name d \<and>
         resolve_workspace_path rel False = Inr p \<and> serves sid tenant cid w w' \<and>
         fst (exec_simple E cid [''/usr/bin/test'', ''-e'', p] x) = Inr (out, err, 0) \<and>
         fst (exec_simple E cid [''/usr/bin/test'', ''-d'', p] y) = Inr (out2, err2, rc2) \<and>
         (if recursive then True else rc2 \<noteq> 0) \<and>
         fst (exec_simple E cid (rm_argv recursive p) z) = Inr (out3, err3, 0) \<and>
         (\<exists>ts. event_line ts (delete_event tenant sid p recursive) \<in> recorded w'))"
proof -
  obtain q w' where run: "delete_file E sid tenant rel recursive w = (q, w')" by fastforce
  note r = delete_file_run [OF run assms]
  show ?thesis
  proof (cases "q = Inr () \<and> is_healthy w")
    case True
    with r have "\<exists>p cid v v'. resolve_workspace_path rel False = Inr p \<and> serves sid tenant cid w w' \<and>
      remove_path E cid p recursive v = (Inr (), v') \<and>
      (\<exists>ts. event_line ts (delete_event tenant sid p recursive) \<in> recorded w')" by simp
    then obtain p cid v v' ts where p: "resolve_workspace_path rel False = Inr p" "serves sid tenant cid w w'"
      "remove_path E cid p recursive v = (Inr (), v')"
      "event_line ts (delete_event tenant sid p recursive) \<in> recorded w'" by blast
    from resolve_inside [OF p(1)] obtain d where d: "p = WORKSPACE @ path_of d" "list_all proper_name d" "d \<noteq> []"
      by blast
    from remove_path_run [OF p(3)] obtain x y z out err out2 err2 rc2 out3 err3 where rm:
      "fst (exec_simple E cid [''/usr/bin/test'', ''-e'', p] x) = Inr (out, err, 0)"
      "fst (exec_simple E cid [''/usr/bin/test'', ''-d'', p] y) = Inr (out2, err2, rc2)"
      "recursive \<or> rc2 \<noteq> 0"
      "fst (exec_simple E cid (rm_argv recursive p) z) = Inr (out3, err3, 0)" by auto
    have "if recursive then True else rc2 \<noteq> 0" using rm(3) by auto
    with d p(1,2,4) rm(1,2,4) have "\<exists>d p cid x y z out err out2 err2 rc2 out3 err3.
         p = WORKSPACE @ path_of d \<and> d \<noteq> [] \<and> list_all proper_name d \<and>
         resolve_workspace_path rel False = Inr p \<and> serves sid tenant cid w w' \<and>
         fst (exec_simple E cid [''/usr/bin/test'', ''-e'', p] x) = Inr (out, err, 0) \<and>
         fst (exec_simple E cid [''/usr/bin/test'', ''-d'', p] y) = Inr (out2, err2, rc2) \<and>
         (if recursive then True else rc2 \<noteq> 0) \<and>
         fst (exec_simple E cid (rm_argv recursive p) z) = Inr (out3, err3, 0) \<and>
         (\<exists>ts. event_line ts (delete_event tenant sid p recursive) \<in> recorded w')"
      by (intro exI conjI) (rule d p rm | assumption)+
    with r True show ?thesis unfolding run by (simp only: prod.case sum.case if_False simp_thms)
  qed (use r in \<open>auto simp: run split: sum.splits\<close>)
qed

lemma delete_file_behaviour_witness:
  "sessions_wf (w_sess demo_world) \<and> is_healthy demo_world \<and>
   (\<exists>q w'. delete_file (testbed default_settings) ''s1'' ''t1'' ''a'' True demo_world = (q, w') \<and>
      only_row ''s1'' (w_sess demo_world) (w_sess w'))"
  using delete_file_behaviour [OF demo_world_wf, where E = "testbed default_settings" and sid = "''s1''"
      and tenant = "''t1''" and rel = "''a''" and recursive = True] demo_world_wf demo_world_facts(1)
  by (cases "delete_file (testbed default_settings) ''s1'' ''t1'' ''a'' True demo_world") simp

text \<open>
  Reading. A read that returns hands out what the tenant's own, now running, container holds at
  a path inside the workspace. Unlike the operations that change files it does not consult the audit
  log and leaves no record, even when it starts a stopped container.
\<close>

theorem read_file_behaviour:
  assumes "sessions_wf (w_sess w)"
  shows "case read_file E sid tenant rel w of (q, w') \<Rightarrow>
    w_audit w' = w_audit w \<and> only_row sid (w_sess w) (w_sess w') \<and>
    (case q of Inl e \<Rightarrow> True | Inr (c, mode) \<Rightarrow> \<exists>cid d x. serves sid tenant cid w w' \<and> d \<noteq> [] \<and>
       list_all proper_name d \<and> fst (get_archive_file E cid (WORKSPACE @ path_of d) x) = Inr (c, mode))"
proof -
  obtain q w' where run: "read_file E sid tenant rel w = (q, w')" by fastforce
  note r = read_file_run [OF run assms]
  show ?thesis
  proof (cases q)
    case (Inl e)
    with r show ?thesis unfolding run by simp
  next
    case (Inr found)
    obtain c mode where f: "found = (c, mode)" by fastforce
    from r Inr f obtain cid p x where p: "serves sid tenant cid w w'" "resolve_workspace_path rel False = Inr p"
      "fst (get_archive_file E cid p x) = Inr (c, mode)" by auto
    from resolve_inside [OF p(2)] obtain d where "p = WORKSPACE @ path_of d" "list_all proper_name d" "d \<noteq> []"
      by blast
    with p r Inr f show ?thesis unfolding run by auto
  qed
qed

lemma read_file_behaviour_witness:
  "sessions_wf (w_sess demo_world) \<and>
   (\<exists>q w'. read_file (testbed default_settings) ''s1'' ''t1'' ''a'' demo_world = (q, w') \<and>
      w_audit w' = w_audit demo_world)"
  using read_file_behaviour [OF demo_world_wf, where E = "testbed default_settings" and sid = "''s1''"
      and tenant = "''t1''" and rel = "''a''"] demo_world_wf
  by (cases "read_file (testbed default_settings) ''s1'' ''t1'' ''a'' demo_world") simp

end
