(* ===== verification/Processes.thy ===== *)
theory Processes
  imports SessionResults Paths
begin

text \<open>
  Background processes (\<open>api/processes.py\<close>). A supervisor in the container writes a pid file and an
  exit file; the service polls them. The two loops that wait for a deadline take fuel.
\<close>

section \<open>Requests and answers\<close>

record start_request =
  sp_argv :: "string list"
  sp_name :: "string option"
  sp_env :: "(string \<times> string) list option"
  sp_cwd :: "string option"

record process_response =
  pr_id :: string
  pr_name :: "string option"
  pr_argv :: "string list"
  pr_state :: pstate
  pr_exit_code :: "int option"
  pr_started :: ms
  pr_exited :: "ms option"
  pr_last_output :: "ms option"

definition row_to_response :: "process \<Rightarrow> process_response" where
  "row_to_response p = \<lparr>pr_id = p_id p, pr_name = p_name p, pr_argv = p_argv p, pr_state = p_state p,
     pr_exit_code = p_exit_code p, pr_started = p_started p, pr_exited = p_exited p,
     pr_last_output = p_last_output p\<rparr>"

definition PROCESS_ROOT_REL :: string where
  "PROCESS_ROOT_REL = ''.sandbox/processes''"

text \<open>\<open>/workspace/.sandbox/processes/\<close> with the name of a file of the process.\<close>

definition process_file :: "string \<Rightarrow> string \<Rightarrow> string" where
  "process_file pid ext = ''/workspace/'' @ PROCESS_ROOT_REL @ ''/'' @ pid @ ext"

definition sleep_ms :: "'x ctx \<Rightarrow> int \<Rightarrow> ('x, unit) W" where
  "sleep_ms E d = outM (modifyM (o_sleep E d))"

section \<open>Polling\<close>

definition pid_of_text :: "string option \<Rightarrow> int option" where
  "pid_of_text text =
     (case text of
        None \<Rightarrow> None
      | Some s \<Rightarrow> if s \<noteq> [] \<and> isdigit (strip s) then Some (int (digits_val 10 (strip s))) else None)"

primrec poll_pid :: "nat \<Rightarrow> 'x ctx \<Rightarrow> string \<Rightarrow> string \<Rightarrow> int \<Rightarrow> ('x, int option) W" where
  "poll_pid 0 E cid pid_path deadline = raise Unfinished"
| "poll_pid (Suc n) E cid pid_path deadline =
     bindM (monotonic_ns E) (\<lambda>now.
     if \<not> now < deadline then ret None
     else bindM (outM (read_text_in_container E cid pid_path)) (\<lambda>text.
       case pid_of_text text of
         Some p \<Rightarrow> ret (Some p)
       | None \<Rightarrow> thenM (sleep_ms E 50) (poll_pid n E cid pid_path deadline)))"

definition read_pid_with_retry :: "nat \<Rightarrow> 'x ctx \<Rightarrow> string \<Rightarrow> string \<Rightarrow> ('x, int option) W" where
  "read_pid_with_retry fuel E cid pid_path =
     bindM (monotonic_ns E) (\<lambda>now. poll_pid fuel E cid pid_path (now + 1000000000))"

definition exit_of_text :: "string option \<Rightarrow> int option" where
  "exit_of_text text =
     (case text of
        None \<Rightarrow> None
      | Some s \<Rightarrow>
          let t = strip s in
          if isdigit t then Some (int (digits_val 10 t))
          else if take 1 t = ''-'' \<and> isdigit (tl t) then Some (- int (digits_val 10 (tl t)))
          else None)"

text \<open>\<open>for attempt in range(5)\<close> with \<open>n\<close> attempts left; it sleeps between attempts, not after the last.\<close>

primrec read_exit_code :: "nat \<Rightarrow> 'x ctx \<Rightarrow> string \<Rightarrow> string \<Rightarrow> ('x, int option) W" where
  "read_exit_code 0 E cid exit_path = ret None"
| "read_exit_code (Suc n) E cid exit_path =
     bindM (outM (read_text_in_container E cid exit_path)) (\<lambda>text.
     case exit_of_text text of
       Some c \<Rightarrow> ret (Some c)
     | None \<Rightarrow> thenM (if 0 < n then sleep_ms E (50 * (5 - int n)) else ret ())
                 (read_exit_code n E cid exit_path))"

definition maybe_refresh :: "'x ctx \<Rightarrow> process \<Rightarrow> string \<Rightarrow> bool \<Rightarrow> ('x, process) W" where
  "maybe_refresh E row sid force =
     (case p_ospid row of
        None \<Rightarrow> ret row
      | Some ospid \<Rightarrow>
          bindM (case p_last_polled row of
              None \<Rightarrow> ret False
            | Some polled \<Rightarrow>
                if force then ret False
                else bindM (now_ms E) (\<lambda>now. ret (now - polled < process_watcher_interval_ms (cfg E))))
          (\<lambda>fresh.
          if fresh then ret row
          else
            bindM (r_get_unscoped sid) (\<lambda>ses.
            case Option.bind ses s_container of
              None \<Rightarrow> ret row
            | Some cid \<Rightarrow>
                bindM (outM (pid_alive E cid ospid)) (\<lambda>alive.
                if alive then thenM (r_touch_process_polled E (p_id row)) (ret row)
                else
                  bindM (read_exit_code 5 E cid (p_exit row)) (\<lambda>code.
                  thenM (r_mark_process_exited E (p_id row) code)
                 (bindM (r_get_process sid (p_id row) (p_tenant row)) (\<lambda>found.
                  ret (case found of None \<Rightarrow> row | Some r \<Rightarrow> r))))))))"

primrec wait_dead :: "nat \<Rightarrow> 'x ctx \<Rightarrow> string \<Rightarrow> int \<Rightarrow> int \<Rightarrow> ('x, unit) W" where
  "wait_dead 0 E cid ospid deadline = raise Unfinished"
| "wait_dead (Suc n) E cid ospid deadline =
     bindM (monotonic_ns E) (\<lambda>now.
     if \<not> now < deadline then outM (signal_pid E cid ospid 9)
     else bindM (outM (pid_alive E cid ospid)) (\<lambda>alive.
       if \<not> alive then ret ()
       else thenM (sleep_ms E 200) (wait_dead n E cid ospid deadline)))"

definition sigterm_then_sigkill :: "nat \<Rightarrow> 'x ctx \<Rightarrow> string \<Rightarrow> int \<Rightarrow> int \<Rightarrow> ('x, unit) W" where
  "sigterm_then_sigkill fuel E cid ospid grace_s =
     thenM (outM (signal_pid E cid ospid 15))
    (bindM (monotonic_ns E) (\<lambda>now. wait_dead fuel E cid ospid (now + grace_s * 1000000000)))"

section \<open>The service\<close>

definition opt_json :: "string option \<Rightarrow> json" where
  "opt_json s = (case s of None \<Rightarrow> JNull | Some t \<Rightarrow> JStr t)"

definition start_event :: "string \<Rightarrow> string \<Rightarrow> string \<Rightarrow> start_request \<Rightarrow> event" where
  "start_event tenant sid pid req = ok_event ''process.start'' tenant sid
     (JObj [(''process_id'', JStr pid), (''argv'', JList (map JStr (sp_argv req))),
       (''name'', opt_json (sp_name req))])"

text \<open>The session of a start: resumed if it sleeps, with everything \<open>resume\<close> does.\<close>

definition session_to_start :: "'x ctx \<Rightarrow> string \<Rightarrow> string \<Rightarrow> ('x, session) W" where
  "session_to_start E sid tenant =
     bindM (get_row sid tenant) (\<lambda>row.
     if s_status row \<in> {STOPPED, IDLE} then resume_session E sid tenant else ret row)"

definition process_cap :: "'x ctx \<Rightarrow> session \<Rightarrow> int" where
  "process_cap E row = min (max_processes (s_limits row)) (tenant_max_processes (cfg E))"

text \<open>What follows the checks: spawn, read the pid, insert the row, record, answer.\<close>

definition launch :: "nat \<Rightarrow> 'x ctx \<Rightarrow> string \<Rightarrow> string \<Rightarrow> start_request \<Rightarrow> string \<Rightarrow> ('x, process_response) W" where
  "launch fuel E sid tenant req cid =
     bindM (new_ulid E) (\<lambda>pid.
     let log_path = process_file pid ''.log'';
         pid_path = process_file pid ''.pid'';
         exit_path = process_file pid ''.exit'';
         cwd = (case sp_cwd req of
             None \<Rightarrow> ''/workspace''
           | Some c \<Rightarrow> if c = [] then ''/workspace'' else ''/workspace/'' @ c)
     in
     thenM (outM (spawn_supervised E cid (sp_argv req) (sp_env req) cwd pid_path exit_path log_path))
    (bindM (read_pid_with_retry fuel E cid pid_path) (\<lambda>ospid.
     bindM (now_ms E) (\<lambda>ts.
     thenM (r_insert_process
       (new_process ts pid sid tenant (sp_name req) (sp_argv req) (sp_cwd req) ospid log_path exit_path))
    (thenM (emit E (start_event tenant sid pid req))
    (bindM (r_get_process sid pid tenant) (\<lambda>found.
     bindM (assert_some found) (\<lambda>row.
     thenM (bump_activity E sid) (ret (row_to_response row))))))))))"

definition start_process ::
  "nat \<Rightarrow> 'x ctx \<Rightarrow> string \<Rightarrow> string \<Rightarrow> start_request \<Rightarrow> ('x, process_response) W" where
  "start_process fuel E sid tenant req =
     thenM precheck
    (if (case sp_cwd req of None \<Rightarrow> False | Some c \<Rightarrow> \<not> is_safe_relative_cwd c) then raise InvalidArgument
     else
     bindM (session_to_start E sid tenant) (\<lambda>row.
     if s_status row \<noteq> RUNNING then raise InvalidState
     else bindM (assert_some (s_container row)) (\<lambda>cid.
     bindM (getsM (\<lambda>w. count_running_processes sid (w_procs w))) (\<lambda>running.
     if process_cap E row \<le> running then raise LimitExceeded
     else launch fuel E sid tenant req cid))))"

primrec refresh_all :: "'x ctx \<Rightarrow> string \<Rightarrow> process list \<Rightarrow> ('x, process_response list) W" where
  "refresh_all E sid [] = ret []"
| "refresh_all E sid (p # ps) =
     bindM (if p_state p = P_RUNNING then maybe_refresh E p sid False else ret p) (\<lambda>q.
     bindM (refresh_all E sid ps) (\<lambda>qs. ret (row_to_response q # qs)))"

definition list_session_processes :: "'x ctx \<Rightarrow> string \<Rightarrow> string \<Rightarrow> ('x, process_response list) W" where
  "list_session_processes E sid tenant =
     bindM (get_row sid tenant) (\<lambda>_.
     bindM (getsM (\<lambda>w. list_processes sid (Some tenant) (w_procs w))) (refresh_all E sid))"

definition find_process :: "string \<Rightarrow> string \<Rightarrow> string \<Rightarrow> ('x, process) W" where
  "find_process sid tenant pid =
     bindM (r_get_process sid pid tenant) (\<lambda>found.
     case found of None \<Rightarrow> raise ProcessNotFound | Some row \<Rightarrow> ret row)"

definition get_session_process ::
  "'x ctx \<Rightarrow> string \<Rightarrow> string \<Rightarrow> string \<Rightarrow> ('x, process_response) W" where
  "get_session_process E sid tenant pid =
     bindM (get_row sid tenant) (\<lambda>_.
     bindM (find_process sid tenant pid) (\<lambda>row.
     bindM (if p_state row = P_RUNNING then maybe_refresh E row sid True else ret row) (\<lambda>row'.
     ret (row_to_response row'))))"

definition stop_event :: "string \<Rightarrow> string \<Rightarrow> string \<Rightarrow> int option \<Rightarrow> event" where
  "stop_event tenant sid pid code = ok_event ''process.stop'' tenant sid
     (JObj [(''process_id'', JStr pid), (''exit_code'', case code of None \<Rightarrow> JNull | Some c \<Rightarrow> JInt c)])"

definition stop_process ::
  "nat \<Rightarrow> 'x ctx \<Rightarrow> string \<Rightarrow> string \<Rightarrow> string \<Rightarrow> int option \<Rightarrow> ('x, process_response) W" where
  "stop_process fuel E sid tenant pid grace_s =
     thenM precheck
    (bindM (get_row sid tenant) (\<lambda>ses.
     bindM (find_process sid tenant pid) (\<lambda>row.
     case p_ospid row of
       None \<Rightarrow> ret (row_to_response row)
     | Some ospid \<Rightarrow>
         if p_state row = P_EXITED then ret (row_to_response row)
         else bindM (assert_some (s_container ses)) (\<lambda>cid.
           let grace = (case grace_s of Some g \<Rightarrow> g | None \<Rightarrow> process_stop_grace_s (cfg E)) in
           thenM (sigterm_then_sigkill fuel E cid ospid grace)
          (bindM (maybe_refresh E row sid True) (\<lambda>row'.
           thenM (emit E (stop_event tenant sid pid (p_exit_code row')))
                 (ret (row_to_response row'))))))))"

definition delete_session_process ::
  "nat \<Rightarrow> 'x ctx \<Rightarrow> string \<Rightarrow> string \<Rightarrow> string \<Rightarrow> ('x, process_response) W" where
  "delete_session_process fuel E sid tenant pid =
     bindM (stop_process fuel E sid tenant pid None) (\<lambda>snapshot.
     thenM (r_delete_process sid pid)
    (thenM (bump_activity E sid) (ret snapshot)))"

definition tail_logs :: "'x ctx \<Rightarrow> string \<Rightarrow> string \<Rightarrow> string \<Rightarrow> int \<Rightarrow> ('x, string \<times> bool) W" where
  "tail_logs E sid tenant pid n =
     bindM (get_row sid tenant) (\<lambda>ses.
     bindM (find_process sid tenant pid) (\<lambda>row.
     case s_container ses of
       None \<Rightarrow> ret ([], False)
     | Some cid \<Rightarrow> outM (tail_text_in_container E cid (p_log row) n)))"

text \<open>
  The destroy hook of the session service: signal 9 for every running process, whose row is marked
  whatever comes of the signal.
\<close>

primrec reap_rows :: "'x ctx \<Rightarrow> string \<Rightarrow> process list \<Rightarrow> ('x, unit) W" where
  "reap_rows E cid [] = ret ()"
| "reap_rows E cid (p # ps) =
     thenM (case p_ospid p of
         None \<Rightarrow> ret ()
       | Some ospid \<Rightarrow> tryM (outM (signal_pid E cid ospid 9)) (\<lambda>_. ret ()))
    (thenM (r_mark_process_exited E (p_id p) (Some 137)) (reap_rows E cid ps))"

definition reap_session_processes :: "'x ctx \<Rightarrow> session \<Rightarrow> ('x, int) W" where
  "reap_session_processes E row =
     (case s_container row of
        None \<Rightarrow> ret 0
      | Some cid \<Rightarrow>
          bindM (getsM (\<lambda>w. list_running_processes_unscoped (s_id row) (w_procs w))) (\<lambda>ps.
          thenM (reap_rows E cid ps) (ret (int (length ps)))))"

definition destroy_hook :: "'x ctx \<Rightarrow> session \<Rightarrow> ('x, unit) W" where
  "destroy_hook E row = thenM (reap_session_processes E row) (ret ())"

section \<open>What polling leaves alone\<close>

lemma keeps_sleep [keeps_rules]: "frame I \<Longrightarrow> keeps I (sleep_ms E d)"
  unfolding sleep_ms_def by (rule keeps_out)

lemma keeps_poll_pid: "frame I \<Longrightarrow> keeps I (poll_pid n E cid path deadline)"
  by (induction n) (auto intro!: keeps_rules keeps_out)

lemma keeps_read_pid [keeps_rules]: "frame I \<Longrightarrow> keeps I (read_pid_with_retry n E cid path)"
  unfolding read_pid_with_retry_def by (intro keeps_rules keeps_poll_pid)

lemma keeps_read_exit [keeps_rules]: "frame I \<Longrightarrow> keeps I (read_exit_code n E cid path)"
  by (induction n) (auto intro!: keeps_rules keeps_out)

lemma keeps_wait_dead: "frame I \<Longrightarrow> keeps I (wait_dead n E cid ospid deadline)"
  by (induction n) (auto intro!: keeps_rules keeps_out)

lemma keeps_sigterm [keeps_rules]: "frame I \<Longrightarrow> keeps I (sigterm_then_sigkill n E cid ospid grace)"
  unfolding sigterm_then_sigkill_def by (intro keeps_rules keeps_wait_dead keeps_out)

text \<open>
  Invariants of the processes table. \<open>exits_keep J\<close>: \<open>J\<close> survives the marking of a process as exited
  and the noting of a poll, which is all that the service does to rows it did not just make.
\<close>

definition exits_keep :: "(processes \<Rightarrow> bool) \<Rightarrow> bool" where
  "exits_keep J \<longleftrightarrow>
     (\<forall>t. J t \<longrightarrow> (\<forall>ts pid c. J (mark_process_exited ts pid c None t)) \<and> (\<forall>ts pid. J (touch_process_polled ts pid t)))"

definition deletes_keep :: "(processes \<Rightarrow> bool) \<Rightarrow> bool" where
  "deletes_keep J \<longleftrightarrow> (\<forall>t sid pid. J t \<longrightarrow> J (delete_process sid pid t))"

abbreviation on_procs :: "(processes \<Rightarrow> bool) \<Rightarrow> 'x world \<Rightarrow> bool" where
  "on_procs J w \<equiv> J (w_procs w)"

lemma on_procs_closed [simp]:
  "frame (on_procs J)" "quiet (on_procs J)" "sess_closed (on_procs J)" "insert_closed (on_procs J)"
  by (simp_all add: frame_def quiet_def sess_closed_def insert_closed_def)

lemma keeps_marks [keeps_rules]:
  "exits_keep J \<Longrightarrow> keeps (on_procs J) (r_mark_process_exited E pid c)"
  "exits_keep J \<Longrightarrow> keeps (on_procs J) (r_touch_process_polled E pid)"
  unfolding r_mark_process_exited_def r_touch_process_polled_def
  by (auto simp: exits_keep_def intro!: keeps_rules keeps_modify)

lemma keeps_r_delete_process [keeps_rules]:
  "deletes_keep J \<Longrightarrow> keeps (on_procs J) (r_delete_process sid pid)"
  unfolding r_delete_process_def by (auto simp: deletes_keep_def intro!: keeps_modify)

lemma keeps_maybe_refresh [keeps_rules]:
  "exits_keep J \<Longrightarrow> keeps (on_procs J) (maybe_refresh E row sid force)"
  unfolding maybe_refresh_def by (intro keeps_rules keeps_out) simp_all

lemma keeps_refresh_all [keeps_rules]:
  "exits_keep J \<Longrightarrow> keeps (on_procs J) (refresh_all E sid ps)"
  by (induction ps) (auto intro!: keeps_rules)

lemma keeps_find_process [keeps_rules]: "keeps I (find_process sid tenant pid)"
  unfolding find_process_def by (intro keeps_rules)

lemma keeps_list_session_processes [keeps_rules]:
  "exits_keep J \<Longrightarrow> keeps (on_procs J) (list_session_processes E sid tenant)"
  unfolding list_session_processes_def by (intro keeps_rules)

lemma keeps_get_session_process [keeps_rules]:
  "exits_keep J \<Longrightarrow> keeps (on_procs J) (get_session_process E sid tenant pid)"
  unfolding get_session_process_def by (intro keeps_rules)

lemma keeps_stop_process [keeps_rules]:
  "exits_keep J \<Longrightarrow> keeps (on_procs J) (stop_process n E sid tenant pid g)"
  unfolding stop_process_def by (intro keeps_rules) simp_all

lemma keeps_delete_session_process [keeps_rules]:
  "exits_keep J \<Longrightarrow> deletes_keep J \<Longrightarrow> keeps (on_procs J) (delete_session_process n E sid tenant pid)"
  unfolding delete_session_process_def by (intro keeps_rules) simp_all

lemma keeps_reap_rows [keeps_rules]: "exits_keep J \<Longrightarrow> keeps (on_procs J) (reap_rows E cid ps)"
  by (induction ps) (auto intro!: keeps_rules keeps_out)

lemma keeps_destroy_hook [keeps_rules]: "exits_keep J \<Longrightarrow> keeps (on_procs J) (destroy_hook E row)"
  unfolding destroy_hook_def reap_session_processes_def by (intro keeps_rules)

lemma table_invariants:
  "exits_keep processes_wf" "deletes_keep processes_wf"
  "exits_keep (\<lambda>t. count_running_processes sid t \<le> m)" "deletes_keep (\<lambda>t. count_running_processes sid t \<le> m)"
proof -
  have touch: "count_running_processes sid (touch_process_polled ts pid t) = count_running_processes sid t" for ts pid t
    unfolding count_running_processes_def touch_process_polled_def by (simp add: length_filter_t_upd)
  have del: "count_running_processes sid (delete_process s pid t) \<le> count_running_processes sid t" for s pid t
    by (induction t) (auto simp: count_running_processes_def delete_process_def)
  show "exits_keep processes_wf" "deletes_keep processes_wf"
    by (simp_all add: exits_keep_def deletes_keep_def mark_process_exited_wf touch_process_polled_wf delete_process_wf)
  show "exits_keep (\<lambda>t. count_running_processes sid t \<le> m)"
    by (auto simp: exits_keep_def touch intro: order_trans [OF mark_exited_count_le])
  show "deletes_keep (\<lambda>t. count_running_processes sid t \<le> m)"
    using del by (auto simp: deletes_keep_def intro: order_trans)
qed

text \<open>The hook does not touch the sessions.\<close>

lemma same_sess_reap_rows: "same_sess (reap_rows E cid ps)"
proof (induction ps)
  case Nil
  show ?case by (simp only: reap_rows.simps same_sess_ret)
next
  case (Cons p ps)
  have "same_sess (r_mark_process_exited E (p_id p) (Some 137))"
    unfolding r_mark_process_exited_def same_sess_def by (intro allI keeps_rules keeps_modify) simp_all
  moreover have "same_sess (case p_ospid p of None \<Rightarrow> ret () | Some i \<Rightarrow> tryM (outM (signal_pid E cid i 9)) (\<lambda>_. ret ()))"
    by (cases "p_ospid p") (auto intro: same_sess_try)
  ultimately show ?case using Cons by (auto intro: same_sess_then)
qed

lemma destroy_hook_safe: "sess_safe (destroy_hook E)"
proof -
  have "keeps (\<lambda>w. w_sess w = c) (reap_rows E cid ps)" for c cid ps
    using same_sess_reap_rows unfolding same_sess_def by blast
  then have "same_sess (destroy_hook E row)" for row
    unfolding destroy_hook_def reap_session_processes_def same_sess_def by (intro allI keeps_rules)
  then show ?thesis by (simp add: sess_safe_def)
qed

section \<open>Starting\<close>

lemma r_get_process_run [simp]: "r_get_process sid pid tenant w = (Inr (get_process sid pid (Some tenant) (w_procs w)), w)"
  by (simp add: r_get_process_def)

lemma inserted_process:
  assumes "insert_process p t = Inr t'"
  shows "t' = t @ [p]" "get_process (p_session p) (p_id p) (Some (p_tenant p)) t' = Some p"
proof -
  from assms have t: "t_get p_id (p_id p) t = None" "t' = t @ [p]"
    by (auto simp: insert_process_def split: if_splits)
  then have "filter (\<lambda>q. p_id q = p_id p \<and> p_session q = p_session p \<and> tenant_matches (Some (p_tenant p)) q) t = []"
    by (auto simp: t_get_None filter_empty_conv image_iff)
  with t show "t' = t @ [p]" "get_process (p_session p) (p_id p) (Some (p_tenant p)) t' = Some p"
    by (simp_all add: get_process_def tenant_matches_def)
qed

lemma r_insert_process_run:
  "r_insert_process p w = (case insert_process p (w_procs w) of
     Inl e \<Rightarrow> (Inl e, w) | Inr t \<Rightarrow> (Inr (), w\<lparr>w_procs := t\<rparr>))"
  by (cases "insert_process p (w_procs w)") (simp_all add: r_insert_process_def tryTable_def)

text \<open>The steps of a launch up to the insertion touch nothing but the outside.\<close>

lemma out_only:
  assumes "\<And>I. frame I \<Longrightarrow> keeps I m" "m w = (q, w')"
  shows "w_sess w' = w_sess w" "w_procs w' = w_procs w" "w_audit w' = w_audit w"
proof -
  have f: "frame (\<lambda>v. w_sess v = w_sess w)" "frame (\<lambda>v. w_procs v = w_procs w)" "frame (\<lambda>v. w_audit v = w_audit w)"
    by (simp_all add: frame_def)
  show "w_sess w' = w_sess w" using keeps_run [OF assms(1) [OF f(1)] _ assms(2)] by simp
  show "w_procs w' = w_procs w" using keeps_run [OF assms(1) [OF f(2)] _ assms(2)] by simp
  show "w_audit w' = w_audit w" using keeps_run [OF assms(1) [OF f(3)] _ assms(2)] by simp
qed

text \<open>The part of a launch that makes the process, and the part that accounts for it.\<close>

definition spawn_new ::
  "nat \<Rightarrow> 'x ctx \<Rightarrow> string \<Rightarrow> string \<Rightarrow> start_request \<Rightarrow> string \<Rightarrow> ('x, process) W" where
  "spawn_new fuel E sid tenant req cid =
     bindM (new_ulid E) (\<lambda>pid.
     let log_path = process_file pid ''.log'';
         pid_path = process_file pid ''.pid'';
         exit_path = process_file pid ''.exit'';
         cwd = (case sp_cwd req of
             None \<Rightarrow> ''/workspace''
           | Some c \<Rightarrow> if c = [] then ''/workspace'' else ''/workspace/'' @ c)
     in
     thenM (outM (spawn_supervised E cid (sp_argv req) (sp_env req) cwd pid_path exit_path log_path))
    (bindM (read_pid_with_retry fuel E cid pid_path) (\<lambda>ospid.
     bindM (now_ms E) (\<lambda>ts.
     ret (new_process ts pid sid tenant (sp_name req) (sp_argv req) (sp_cwd req) ospid log_path exit_path)))))"

definition account ::
  "'x ctx \<Rightarrow> string \<Rightarrow> string \<Rightarrow> start_request \<Rightarrow> process \<Rightarrow> ('x, process_response) W" where
  "account E sid tenant req p =
     thenM (r_insert_process p)
    (thenM (emit E (start_event tenant sid (p_id p) req))
    (bindM (r_get_process sid (p_id p) tenant) (\<lambda>found.
     bindM (assert_some found) (\<lambda>row.
     thenM (bump_activity E sid) (ret (row_to_response row))))))"

lemma thenM_bindM: "bindM (thenM m n) f = thenM m (bindM n f)"
  by (simp add: thenM_def bindM_assoc)

lemma launch_parts: "launch fuel E sid tenant req cid = bindM (spawn_new fuel E sid tenant req cid) (account E sid tenant req)"
  unfolding launch_def spawn_new_def account_def Let_def
  by (simp add: bindM_assoc thenM_bindM new_process_def)

lemma keeps_spawn_new: "frame I \<Longrightarrow> keeps I (spawn_new fuel E sid tenant req cid)"
  unfolding spawn_new_def by (intro keeps_rules keeps_out)

lemma spawn_new_row:
  "spawn_new fuel E sid tenant req cid w = (Inr p, w') \<Longrightarrow>
    p_session p = sid \<and> p_tenant p = tenant \<and> p_state p = P_RUNNING \<and> p_argv p = sp_argv req \<and>
    p_name p = sp_name req \<and> p_cwd p = sp_cwd req \<and> process_ok p"
  unfolding spawn_new_def Let_def
  by (auto elim!: bindM_InrE thenM_InrE simp: new_process_def process_ok_def)

lemma account_run:
  assumes run: "account E sid tenant req p w = (q, w')" and p: "p_session p = sid" "p_tenant p = tenant"
  shows "case q of
      Inl e \<Rightarrow> e = IntegrityError \<and> w' = w \<and> t_get p_id (p_id p) (w_procs w) \<noteq> None
    | Inr y \<Rightarrow> w_procs w' = w_procs w @ [p] \<and> y = row_to_response p \<and>
        t_get p_id (p_id p) (w_procs w) = None \<and>
        touched sid (w_sess w) (w_sess w') \<and> (\<exists>ts. event_line ts (start_event tenant sid (p_id p) req) \<in> recorded w')"
proof (cases "insert_process p (w_procs w)")
  case (Inl e)
  with run have "q = Inl e \<and> w' = w"
    by (auto simp: account_def thenM_def bindM_def r_insert_process_run)
  with Inl show ?thesis by (auto simp: insert_process_def split: if_splits)
next
  case (Inr t)
  let ?w = "w\<lparr>w_procs := t\<rparr>"
  obtain q1 w1 where e: "emit E (start_event tenant sid (p_id p) req) ?w = (q1, w1)" by fastforce
  obtain q2 w2 where b: "bump_activity E sid w1 = (q2, w2)" by fastforce
  note em = emit_records [OF e] and bm = bump_run [OF b] and ins = inserted_process [OF Inr]
  have tabs: "w_procs w1 = t" "w_sess w1 = w_sess w"
    using emit_tables [of E "start_event tenant sid (p_id p) req" ?w] by (simp_all add: e)
  have procs: "w_procs w2 = w_procs w1"
    using keeps_run [OF keeps_bump [OF closed_other(1)] _ b, of "w_procs w1"] by simp
  have q: "q = Inr (row_to_response p)" "w' = w2"
    using run Inr e em ins(2) p b bm
    by (auto simp: account_def thenM_def bindM_def r_insert_process_run assert_some_run tabs)
  have "t_get p_id (p_id p) (w_procs w) = None" using Inr by (auto simp: insert_process_def split: if_splits)
  then show ?thesis using q procs tabs ins(1) em bm by (auto simp: recorded_def)
qed

lemma launch_run:
  assumes run: "launch fuel E sid tenant req cid w = (q, w')"
  shows "case q of
      Inl e \<Rightarrow> w_procs w' = w_procs w \<and> w_sess w' = w_sess w \<and> w_audit w' = w_audit w
    | Inr y \<Rightarrow> \<exists>p. p_session p = sid \<and> p_tenant p = tenant \<and> p_state p = P_RUNNING \<and> p_argv p = sp_argv req \<and>
        process_ok p \<and> t_get p_id (p_id p) (w_procs w) = None \<and>
        w_procs w' = w_procs w @ [p] \<and> y = row_to_response p \<and> touched sid (w_sess w) (w_sess w') \<and>
        (\<exists>ts. event_line ts (start_event tenant sid (p_id p) req) \<in> recorded w')"
proof -
  obtain q1 w1 where s: "spawn_new fuel E sid tenant req cid w = (q1, w1)" by fastforce
  note tabs = out_only [OF keeps_spawn_new s]
  show ?thesis
  proof (cases q1)
    case (Inl e)
    with run s tabs show ?thesis by (auto simp: launch_parts bindM_def)
  next
    case (Inr p)
    with run s have a: "account E sid tenant req p w1 = (q, w')" by (simp add: launch_parts bindM_def)
    note pr = spawn_new_row [OF s [unfolded Inr]]
    with account_run [OF a] tabs show ?thesis by (cases q) auto
  qed
qed

lemma keeps_session_to_start: "sess_closed I \<Longrightarrow> keeps I (session_to_start E sid tenant)"
  unfolding session_to_start_def by (intro keeps_rules)

lemma session_to_start_run:
  assumes run: "session_to_start E sid tenant w = (q, w')" and wf: "sessions_wf (w_sess w)"
  shows "case q of
      Inl e \<Rightarrow> w_sess w' = w_sess w
    | Inr row \<Rightarrow> only_row sid (w_sess w) (w_sess w') \<and> get_unscoped sid (w_sess w') = Some row \<and>
        (\<exists>r. get_session sid tenant (w_sess w) = Some r \<and> row_fixed r row)"
proof (cases "get_session sid tenant (w_sess w)")
  case None
  with run show ?thesis by (auto simp: session_to_start_def bindM_def get_row_run)
next
  case (Some r)
  note r = get_session_unscoped [OF wf Some]
  show ?thesis
  proof (cases "s_status r \<in> {STOPPED, IDLE}")
    case False
    with run Some r show ?thesis
      by (auto simp: session_to_start_def bindM_def get_row_run row_fixed_def split: if_splits)
  next
    case True
    with run Some have "resume_session E sid tenant w = (q, w')"
      by (auto simp: session_to_start_def bindM_def get_row_run)
    moreover have "a \<in> {STOPPED, IDLE} \<Longrightarrow> lifecycle a RUNNING" for a by (auto intro: lifecycle.intros)
    ultimately show ?thesis
      using guarded_switch [where ok = "\<lambda>a. a \<in> {STOPPED, IDLE}" and st = RUNNING, OF _ wf]
        Some r unfolding resume_session_switch
      by (cases q) (fastforce simp: moved_to_def)+
  qed
qed

definition cwd_ok :: "start_request \<Rightarrow> bool" where
  "cwd_ok req \<longleftrightarrow> (case sp_cwd req of None \<Rightarrow> True | Some c \<Rightarrow> is_safe_relative_cwd c)"

lemma start_process_guards:
  "start_process fuel E sid tenant req =
     thenM precheck
    (if \<not> cwd_ok req then raise InvalidArgument
     else
     bindM (session_to_start E sid tenant) (\<lambda>row.
     if s_status row \<noteq> RUNNING then raise InvalidState
     else bindM (assert_some (s_container row)) (\<lambda>cid.
     bindM (getsM (\<lambda>w. count_running_processes sid (w_procs w))) (\<lambda>running.
     if process_cap E row \<le> running then raise LimitExceeded
     else launch fuel E sid tenant req cid))))"
  by (simp add: start_process_def cwd_ok_def split: option.splits)

lemma start_process_run:
  assumes run: "start_process fuel E sid tenant req w = (q, w')" and wf: "sessions_wf (w_sess w)"
  shows "case q of
      Inl e \<Rightarrow> w_procs w' = w_procs w \<and> (is_healthy w \<or> e = AuditUnhealthy \<and> w' = w)
    | Inr y \<Rightarrow> is_healthy w \<and> cwd_ok req \<and> only_row sid (w_sess w) (w_sess w') \<and>
        (\<exists>r row p. get_session sid tenant (w_sess w) = Some r \<and> row_fixed r row \<and>
          get_unscoped sid (w_sess w') = Some row \<and> s_status row = RUNNING \<and>
          count_running_processes sid (w_procs w) < process_cap E row \<and>
          p_session p = sid \<and> p_tenant p = tenant \<and> p_state p = P_RUNNING \<and> p_argv p = sp_argv req \<and>
          process_ok p \<and> t_get p_id (p_id p) (w_procs w) = None \<and>
          w_procs w' = w_procs w @ [p] \<and> y = row_to_response p \<and>
          (\<exists>ts. event_line ts (start_event tenant sid (p_id p) req) \<in> recorded w'))"
proof (cases "is_healthy w \<and> cwd_ok req")
  case False
  with run show ?thesis
    by (cases "is_healthy w") (auto simp: start_process_guards log.guarded_refused log.guarded_open)
next
  case True
  then have h: "is_healthy w" and c: "cwd_ok req" by auto
  obtain q1 w1 where s: "session_to_start E sid tenant w = (q1, w1)" by fastforce
  have procs: "w_procs w1 = w_procs w"
    using keeps_run [OF keeps_session_to_start [OF closed_other(1)] _ s, of "w_procs w"] by simp
  note sr = session_to_start_run [OF s wf]
  show ?thesis
  proof (cases "\<exists>row cid. q1 = Inr row \<and> s_status row = RUNNING \<and> s_container row = Some cid \<and>
      count_running_processes sid (w_procs w) < process_cap E row")
    case False
    then have "\<exists>e. q = Inl e \<and> w' = w1"
      using run s h c procs unfolding start_process_guards log.guarded_open [OF h]
        bindM_def [of "session_to_start E sid tenant"]
      by (cases q1) (auto simp: bindM_def assert_some_run split: option.splits if_splits)
    with procs h show ?thesis by auto
  next
    case t: True
    then obtain row cid where row: "q1 = Inr row" "s_status row = RUNNING" "s_container row = Some cid"
      "count_running_processes sid (w_procs w) < process_cap E row" by blast
    have l: "launch fuel E sid tenant req cid w1 = (q, w')"
      using run s h c procs row unfolding start_process_guards log.guarded_open [OF h]
        bindM_def [of "session_to_start E sid tenant"]
      by (simp add: bindM_def assert_some_run)
    note lr = launch_run [OF l]
    show ?thesis
    proof (cases q)
      case (Inl e)
      with lr procs h show ?thesis by simp
    next
      case (Inr y)
      with lr procs obtain p ts where p: "p_session p = sid" "p_tenant p = tenant" "p_state p = P_RUNNING"
        "p_argv p = sp_argv req" "process_ok p" "t_get p_id (p_id p) (w_procs w) = None" "w_procs w' = w_procs w @ [p]"
        "y = row_to_response p" "event_line ts (start_event tenant sid (p_id p) req) \<in> recorded w'"
        and t: "touched sid (w_sess w1) (w_sess w')" by auto
      from sr row(1) obtain r where r: "get_session sid tenant (w_sess w) = Some r" "row_fixed r row"
        "get_unscoped sid (w_sess w1) = Some row" "only_row sid (w_sess w) (w_sess w1)" by auto
      from t r(3) obtain at where row': "get_unscoped sid (w_sess w') = Some (row\<lparr>s_last := at\<rparr>)"
        unfolding touched_def by blast
      have x: "row_fixed r (row\<lparr>s_last := at\<rparr>)" "s_status (row\<lparr>s_last := at\<rparr>) = RUNNING"
        "process_cap E (row\<lparr>s_last := at\<rparr>) = process_cap E row"
        using r(2) row(2) by (simp_all add: row_fixed_def process_cap_def)
      have o: "only_row sid (w_sess w) (w_sess w')"
        using only_row_trans [OF r(4)] t by (simp add: touched_def)
      show ?thesis
        unfolding Inr sum.case
        by (intro conjI exI) (rule h c o r(1) x(1) row' x(2) p | simp only: x(3) row(4))+
    qed
  qed
qed

section \<open>Destroying a session ends its processes\<close>

definition running_of :: "string \<Rightarrow> processes \<Rightarrow> process list" where
  "running_of sid t = filter (\<lambda>p. p_session p = sid \<and> p_state p = P_RUNNING) t"

text \<open>The processes of \<open>ids\<close> that ran are exited with code 137; nothing else has changed.\<close>

definition killed :: "string set \<Rightarrow> processes \<Rightarrow> processes \<Rightarrow> bool" where
  "killed ids t t' \<longleftrightarrow> list_all2 (\<lambda>p q. if p_id p \<in> ids \<and> p_state p = P_RUNNING
     then p_state q = P_EXITED \<and> p_exit_code q = Some 137 \<and> p_id q = p_id p \<and> p_session q = p_session p \<and>
       p_exited q \<noteq> None
     else q = p) t t'"

lemma killed_refl: "killed {} t t"
  by (simp add: killed_def list_all2_conv_all_nth)

lemma killed_mark:
  "killed ids t t' \<Longrightarrow> killed (insert pid ids) t (mark_process_exited ts pid (Some 137) None t')"
  unfolding killed_def mark_process_exited_def t_upd_def list.rel_map
  by (erule list_all2_mono) (auto split: if_splits)

lemma r_mark_run: "r_mark_process_exited E pid c w =
    (case o_now E (w_out w) of (ts, x) \<Rightarrow>
      (Inr (), w\<lparr>w_out := x, w_procs := mark_process_exited ts pid c None (w_procs w)\<rparr>))"
  by (simp add: r_mark_process_exited_def now_ms_def bindM_def outM_read split: prod.splits)

lemma reap_rows_run:
  "reap_rows E cid ps w = (q, w') \<Longrightarrow> killed ids t (w_procs w) \<Longrightarrow>
    q = Inr () \<and> killed (ids \<union> p_id ` set ps) t (w_procs w') \<and> w_sess w' = w_sess w"
proof (induction ps arbitrary: w ids)
  case (Cons p ps)
  obtain w1 where s: "(case p_ospid p of None \<Rightarrow> ret () | Some i \<Rightarrow> tryM (outM (signal_pid E cid i 9)) (\<lambda>_. ret ())) w = (Inr (), w1)"
    "w_procs w1 = w_procs w" "w_sess w1 = w_sess w"
  proof (cases "p_ospid p")
    case (Some i)
    obtain r x where "signal_pid E cid i 9 (w_out w) = (r, x)" by fastforce
    with Some that [of "w\<lparr>w_out := x\<rparr>"] show ?thesis by (cases r) (simp_all add: tryM_def outM_def)
  qed (use that in simp)
  obtain ts x where m: "r_mark_process_exited E (p_id p) (Some 137) w1 =
      (Inr (), w1\<lparr>w_out := x, w_procs := mark_process_exited ts (p_id p) (Some 137) None (w_procs w1)\<rparr>)"
    by (cases "o_now E (w_out w1)") (simp add: r_mark_run)
  have r: "reap_rows E cid ps (w1\<lparr>w_out := x, w_procs := mark_process_exited ts (p_id p) (Some 137) None (w_procs w1)\<rparr>) = (q, w')"
    using Cons.prems(1) s(1) m by (simp add: thenM_def bindM_def)
  from Cons.IH [OF r, of "insert (p_id p) ids"] killed_mark [OF Cons.prems(2)] s show ?case
    by (simp add: insert_commute)
qed simp

lemma killed_running:
  "killed ids t t' \<Longrightarrow> p_id ` set (running_of sid t) \<subseteq> ids \<Longrightarrow> running_of sid t' = []"
  unfolding killed_def running_of_def
  by (induction t t' rule: list_all2_induct) (auto split: if_splits)

definition reaped :: "string \<Rightarrow> processes \<Rightarrow> processes \<Rightarrow> bool" where
  "reaped sid t t' \<longleftrightarrow> killed (p_id ` set (running_of sid t)) t t' \<and> running_of sid t' = []"

lemma destroy_hook_run:
  assumes "destroy_hook E row w = (q, w')" "s_container row \<noteq> None"
  shows "q = Inr () \<and> reaped (s_id row) (w_procs w) (w_procs w')"
proof -
  from assms(2) obtain cid where cid: "s_container row = Some cid" by auto
  let ?ps = "list_running_processes_unscoped (s_id row) (w_procs w)"
  obtain q1 w1 where r: "reap_rows E cid ?ps w = (q1, w1)" by fastforce
  from reap_rows_run [OF r killed_refl] have "q1 = Inr ()" "killed (p_id ` set ?ps) (w_procs w) (w_procs w1)"
    by simp_all
  moreover have "q = Inr ()" "w' = w1"
    using assms(1) cid r calculation(1)
    by (auto simp: destroy_hook_def reap_session_processes_def thenM_def bindM_def)
  moreover have "?ps = running_of (s_id row) (w_procs w)"
    by (simp add: list_running_processes_unscoped_def running_of_def)
  ultimately show ?thesis by (auto simp: reaped_def intro: killed_running)
qed

lemma destroy_locked_reaps:
  assumes run: "destroy_locked E (destroy_hook E) row reason w = (q, w')"
    and row: "get_unscoped (s_id row) (w_sess w) = Some row" "\<not> terminal (s_status row)" "s_container row \<noteq> None"
  shows "reaped (s_id row) (w_procs w) (w_procs w')"
proof -
  obtain q1 w1 where 1: "r_transition E (s_id row) DESTROYING w = (q1, w1)" by fastforce
  from r_transition_moves [OF row(1) lifecycle.destroy [OF row(2)] 1] have m: "q1 = Inr ()" by simp
  have p1: "w_procs w1 = w_procs w"
    using keeps_run [OF keeps_r_transition [OF closed_other(1)] _ 1, of "w_procs w"] by simp
  obtain q2 w2 where h: "destroy_hook E row w1 = (q2, w2)" by fastforce
  from destroy_hook_run [OF h row(3)] have hr: "q2 = Inr ()" "reaped (s_id row) (w_procs w) (w_procs w2)"
    unfolding p1 by simp_all
  let ?rest = "thenM (remove_container_of E row) (thenM (run_teardown E (s_id row) (s_tenant row) (s_volume row))
    (outM (remove_volume E (s_volume row))))"
  let ?tail = "thenM (finallyM ?rest (r_transition E (s_id row) DESTROYED))
    (emit E (ok_event ''session.destroy'' (s_tenant row) (s_id row) (JObj [(''reason'', JStr reason)])))"
  have swallow: "thenM (finallyM (thenM (tryM h' g) m) f) n v = thenM (finallyM m f) n v'"
    if "h' v = (Inr (), v')" for h' g m f n v v'
    using that by (simp add: thenM_def bindM_def finallyM_def tryM_def)
  have "destroy_locked E (destroy_hook E) row reason w = ?tail w2"
    unfolding destroy_locked_def using 1 m h hr(1) by (simp add: swallow thenM_Inr)
  moreover have "keeps (\<lambda>w. w_procs w = w_procs w2) ?tail"
    by (intro keeps_rules keeps_out closed_other) (simp_all add: frame_def)
  ultimately have "w_procs w' = w_procs w2"
    using run keeps_run [of "\<lambda>w. w_procs w = w_procs w2" ?tail w2 q w'] by simp
  with hr(2) show ?thesis by simp
qed

section \<open>The polling loops end\<close>

text \<open>
  What the loops need of the outside: \<open>t\<close> is the time the monotonic clock shows, in nanoseconds. It
  does not run backwards, and a sleep takes at least as long as it should. \<open>Unfinished\<close> is not
  raised by the Docker SDK.
\<close>

definition passes :: "('x \<Rightarrow> int) \<Rightarrow> ('x, exn, 'a) M \<Rightarrow> bool" where
  "passes t m \<longleftrightarrow> (\<forall>x. t x \<le> t (snd (m x)) \<and> fst (m x) \<noteq> Inl Unfinished)"

definition clocked :: "'x ctx \<Rightarrow> ('x \<Rightarrow> int) \<Rightarrow> bool" where
  "clocked E t \<longleftrightarrow>
     (\<forall>x. fst (o_mono E x) = t x \<and> t x \<le> t (snd (o_mono E x))) \<and>
     (\<forall>d x. t x + d * 1000000 \<le> t (o_sleep E d x)) \<and>
     (\<forall>cid opts. passes t (o_exec_create (dk E) cid opts)) \<and>
     (\<forall>i. passes t (o_exec_start (dk E) i)) \<and> (\<forall>i. passes t (o_exec_inspect (dk E) i))"

lemma passes_bind:
  assumes "passes t m" "\<And>x. passes t (f x)"
  shows "passes t (bindM m f)"
  unfolding passes_def
proof
  fix x
  obtain r y where m: "m x = (r, y)" by fastforce
  from assms(1) m have "t x \<le> t y" "r \<noteq> Inl Unfinished" unfolding passes_def by (metis fst_conv snd_conv)+
  moreover have "t y \<le> t (snd (f v y))" "fst (f v y) \<noteq> Inl Unfinished" for v
    using assms(2) [of v] by (simp_all add: passes_def)
  ultimately show "t x \<le> t (snd (bindM m f x)) \<and> fst (bindM m f x) \<noteq> Inl Unfinished"
    using m by (cases r) (auto simp: bindM_def intro: order_trans)
qed

lemma passes_then: "passes t m \<Longrightarrow> passes t n \<Longrightarrow> passes t (thenM m n)"
  unfolding thenM_def by (rule passes_bind)

lemma passes_ret [simp]: "passes t (ret x)"
  by (simp add: passes_def)

lemma passes_case_prod: "(\<And>x y. passes t (f x y)) \<Longrightarrow> passes t (case p of (x, y) \<Rightarrow> f x y)"
  by (cases p) simp

lemma clocked_probes:
  assumes "clocked E t"
  shows "passes t (exec_simple E cid argv)" "passes t (read_text_in_container E cid path)"
    "passes t (pid_alive E cid i)" "passes t (signal_pid E cid i sig)"
proof -
  show e: "passes t (exec_simple E cid argv)" for cid argv
    unfolding exec_simple_def exit_code_of_def
    using assms by (intro passes_bind passes_case_prod) (auto simp: clocked_def)
  show "passes t (read_text_in_container E cid path)" "passes t (pid_alive E cid i)"
    "passes t (signal_pid E cid i sig)"
    unfolding read_text_in_container_def pid_alive_def signal_pid_def
    by (intro passes_bind passes_then passes_case_prod e; simp)+
qed

lemma passes_outM:
  assumes "passes t m" "outM m w = (q, w')"
  shows "q \<noteq> Inl Unfinished \<and> t (w_out w) \<le> t (w_out w')"
proof (cases "m (w_out w)")
  case (Pair r x)
  moreover have "t (w_out w) \<le> t (snd (m (w_out w)))" "fst (m (w_out w)) \<noteq> Inl Unfinished"
    using assms(1) by (simp_all add: passes_def)
  ultimately show ?thesis using assms(2) by (auto simp: outM_def)
qed

lemma clocked_mono:
  assumes "clocked E t" "monotonic_ns E w = (q, w')"
  shows "q = Inr (t (w_out w)) \<and> t (w_out w) \<le> t (w_out w')"
  using assms by (cases "o_mono E (w_out w)") (auto simp: monotonic_ns_def outM_read clocked_def dest: spec [of _ "w_out w"])

lemma sleep_run: "sleep_ms E d w = (Inr (), w\<lparr>w_out := o_sleep E d (w_out w)\<rparr>)"
  by (simp add: sleep_ms_def outM_def)

lemma clocked_sleep: "clocked E t \<Longrightarrow> t x + d * 1000000 \<le> t (o_sleep E d x)"
  by (simp add: clocked_def)

lemma poll_pid_ends:
  assumes E: "clocked E t"
  shows "deadline \<le> t (w_out w) + 50000000 * int n \<Longrightarrow> fst (poll_pid (Suc n) E cid path deadline w) \<noteq> Inl Unfinished"
proof (induction n arbitrary: w)
  case (0 w)
  obtain q w1 where m: "monotonic_ns E w = (q, w1)" by fastforce
  with clocked_mono [OF E m] 0 show ?case by (simp add: bindM_def)
next
  case (Suc n w)
  obtain q w1 where m: "monotonic_ns E w = (q, w1)" by fastforce
  note cm = clocked_mono [OF E m]
  obtain q2 w2 where r: "outM (read_text_in_container E cid path) w1 = (q2, w2)" by fastforce
  note cr = passes_outM [OF clocked_probes(2) [OF E] r]
  let ?w = "w2\<lparr>w_out := o_sleep E 50 (w_out w2)\<rparr>"
  have "deadline \<le> t (w_out ?w) + 50000000 * int n"
    using Suc.prems cm cr clocked_sleep [OF E, of "w_out w2" 50] by simp
  from Suc.IH [OF this] m cm r cr show ?case
    unfolding poll_pid.simps(2) [of "Suc n"]
    by (cases q2) (auto simp del: poll_pid.simps simp: bindM_def thenM_def sleep_run split: option.splits)
qed

lemma poll_pid_more:
  "fst (poll_pid n E cid path deadline w) \<noteq> Inl Unfinished \<Longrightarrow>
    poll_pid (n + k) E cid path deadline w = poll_pid n E cid path deadline w"
proof (induction n arbitrary: w)
  case (Suc n)
  obtain q w1 where m: "monotonic_ns E w = (q, w1)" by fastforce
  obtain q2 w2 where r: "outM (read_text_in_container E cid path) w1 = (q2, w2)" by fastforce
  from Suc m r show ?case
    by (cases q; cases q2) (auto simp: bindM_def thenM_def sleep_run split: option.splits if_splits)
qed simp

lemma wait_dead_ends:
  assumes E: "clocked E t"
  shows "deadline \<le> t (w_out w) + 200000000 * int n \<Longrightarrow> fst (wait_dead (Suc n) E cid i deadline w) \<noteq> Inl Unfinished"
proof (induction n arbitrary: w)
  case (0 w)
  obtain q w1 where m: "monotonic_ns E w = (q, w1)" by fastforce
  obtain q2 w2 where s: "outM (signal_pid E cid i 9) w1 = (q2, w2)" by fastforce
  with clocked_mono [OF E m] 0 m passes_outM [OF clocked_probes(4) [OF E] s] show ?case by (simp add: bindM_def)
next
  case (Suc n w)
  obtain q w1 where m: "monotonic_ns E w = (q, w1)" by fastforce
  note cm = clocked_mono [OF E m]
  obtain q2 w2 where r: "outM (pid_alive E cid i) w1 = (q2, w2)" by fastforce
  note cr = passes_outM [OF clocked_probes(3) [OF E] r]
  obtain q3 w3 where s: "outM (signal_pid E cid i 9) w1 = (q3, w3)" by fastforce
  note cs = passes_outM [OF clocked_probes(4) [OF E] s]
  let ?w = "w2\<lparr>w_out := o_sleep E 200 (w_out w2)\<rparr>"
  have "deadline \<le> t (w_out ?w) + 200000000 * int n"
    using Suc.prems cm cr clocked_sleep [OF E, of "w_out w2" 200] by simp
  from Suc.IH [OF this] m cm r cr s cs show ?case
    unfolding wait_dead.simps(2) [of "Suc n"]
    by (cases q2) (auto simp del: wait_dead.simps simp: bindM_def thenM_def sleep_run)
qed

lemma wait_dead_more:
  "fst (wait_dead n E cid i deadline w) \<noteq> Inl Unfinished \<Longrightarrow>
    wait_dead (n + k) E cid i deadline w = wait_dead n E cid i deadline w"
proof (induction n arbitrary: w)
  case (Suc n)
  obtain q w1 where m: "monotonic_ns E w = (q, w1)" by fastforce
  obtain q2 w2 where r: "outM (pid_alive E cid i) w1 = (q2, w2)" by fastforce
  from Suc m r show ?case
    by (cases q; cases q2) (auto simp: bindM_def thenM_def sleep_run split: if_splits)
qed simp

section \<open>Stopping, and reading the exit code\<close>

lemma outM_fst: "outM m w = (q, w') \<Longrightarrow> fst (m (w_out w)) = q"
  by (auto simp: outM_def split: prod.splits)

lemma wait_dead_run:
  "wait_dead n E cid i deadline w = (Inr u, w') \<Longrightarrow>
    (\<exists>x. fst (pid_alive E cid i x) = Inr False) \<or> (\<exists>x. fst (signal_pid E cid i 9 x) = Inr ())"
proof (induction n arbitrary: w)
  case (Suc n)
  obtain q w1 where m: "monotonic_ns E w = (q, w1)" by fastforce
  obtain q2 w2 where r: "outM (pid_alive E cid i) w1 = (q2, w2)" by fastforce
  obtain q3 w3 where s: "outM (signal_pid E cid i 9) w1 = (q3, w3)" by fastforce
  from Suc m r s outM_fst [OF r] outM_fst [OF s] show ?case
    by (cases q; cases q2) (auto simp: bindM_def thenM_def sleep_run split: if_splits)
qed simp

lemma sigterm_run:
  assumes "sigterm_then_sigkill n E cid i g w = (Inr u, w')"
  shows "(\<exists>x. fst (signal_pid E cid i 15 x) = Inr ()) \<and>
    ((\<exists>x. fst (pid_alive E cid i x) = Inr False) \<or> (\<exists>x. fst (signal_pid E cid i 9 x) = Inr ()))"
proof -
  from assms obtain w1 w2 now where s: "outM (signal_pid E cid i 15) w = (Inr (), w1)"
    and d: "wait_dead n E cid i (now + g * 1000000000) w2 = (Inr u, w')"
    unfolding sigterm_then_sigkill_def by (auto elim!: thenM_InrE bindM_InrE)
  from outM_fst [OF s] wait_dead_run [OF d] show ?thesis by blast
qed

lemma get_process_key: "get_process sid pid tn t = Some p \<Longrightarrow> p_id p = pid \<and> p_session p = sid \<and> tenant_matches tn p"
  by (induction t) (auto simp: get_process_def split: if_splits list.splits)

lemma get_process_in: "get_process sid pid tn t = Some p \<Longrightarrow> p \<in> set t"
  by (induction t) (auto simp: get_process_def split: if_splits list.splits)

lemma maybe_refresh_id: "maybe_refresh E row sid force w = (Inr r, w') \<Longrightarrow> p_id r = p_id row"
  unfolding maybe_refresh_def
  by (auto elim!: bindM_InrE thenM_InrE split: option.splits if_splits dest!: get_process_key)

lemma find_process_run:
  "find_process sid tenant pid w = (case get_process sid pid (Some tenant) (w_procs w) of
     None \<Rightarrow> (Inl ProcessNotFound, w) | Some p \<Rightarrow> (Inr p, w))"
  by (simp add: find_process_def bindM_def split: option.splits)

definition stoppable :: "process \<Rightarrow> bool" where
  "stoppable p \<longleftrightarrow> p_state p \<noteq> P_EXITED \<and> p_ospid p \<noteq> None"

lemma stop_process_returns:
  assumes "stop_process fuel E sid tenant pid g w = (Inr y, w')"
  shows "is_healthy w \<and> (\<exists>ses row. get_session sid tenant (w_sess w) = Some ses \<and>
    get_process sid pid (Some tenant) (w_procs w) = Some row \<and>
    (if stoppable row
     then \<exists>i cid. p_ospid row = Some i \<and> s_container ses = Some cid \<and> pr_id y = pid \<and>
       (\<exists>x. fst (signal_pid E cid i 15 x) = Inr ()) \<and>
       ((\<exists>x. fst (pid_alive E cid i x) = Inr False) \<or> (\<exists>x. fst (signal_pid E cid i 9 x) = Inr ())) \<and>
       (\<exists>ts. event_line ts (stop_event tenant sid pid (pr_exit_code y)) \<in> recorded w')
     else y = row_to_response row \<and> w' = w))"
proof -
  from assms have h: "is_healthy w"
    by (cases "is_healthy w") (auto simp: stop_process_def log.guarded_refused)
  from assms obtain ses row where g: "get_session sid tenant (w_sess w) = Some ses"
    "get_process sid pid (Some tenant) (w_procs w) = Some row"
    unfolding stop_process_def log.guarded_open [OF h]
    by (auto simp: bindM_def get_row_run find_process_run split: option.splits)
  show ?thesis
  proof (cases "stoppable row")
    case False
    with assms g h show ?thesis
      unfolding stop_process_def log.guarded_open [OF h]
      by (auto simp: bindM_def get_row_run find_process_run stoppable_def split: option.splits)
  next
    case True
    then obtain i where i: "p_ospid row = Some i" "p_state row \<noteq> P_EXITED" by (auto simp: stoppable_def)
    let ?g = "case g of Some s \<Rightarrow> s | None \<Rightarrow> process_stop_grace_s (cfg E)"
    from assms g i obtain cid where cid: "s_container ses = Some cid"
      and run: "thenM (sigterm_then_sigkill fuel E cid i ?g) (bindM (maybe_refresh E row sid True) (\<lambda>row'.
        thenM (emit E (stop_event tenant sid pid (p_exit_code row'))) (ret (row_to_response row')))) w = (Inr y, w')"
      unfolding stop_process_def log.guarded_open [OF h]
      by (auto simp: bindM_def [of "get_row _ _"] bindM_def [of "find_process _ _ _"] bindM_def [of "assert_some _"]
          get_row_run find_process_run assert_some_run Let_def split: option.splits)
    from run obtain w1 row' w2 where s: "sigterm_then_sigkill fuel E cid i ?g w = (Inr (), w1)"
      and m: "maybe_refresh E row sid True w1 = (Inr row', w2)"
      and e: "emit E (stop_event tenant sid pid (p_exit_code row')) w2 = (Inr (), w')" and y: "y = row_to_response row'"
      by (auto elim!: thenM_InrE bindM_InrE)
    have "pr_id y = pid" "pr_exit_code y = p_exit_code row'"
      using maybe_refresh_id [OF m] get_process_key [OF g(2)] y by (simp_all add: row_to_response_def)
    with sigterm_run [OF s] emit_records [OF e] h g i cid True show ?thesis by auto
  qed
qed

text \<open>The supervisor writes a number and a line feed.\<close>

lemma strip_newline: "list_all (\<lambda>c. \<not> is_space c) s \<Longrightarrow> strip (s @ [CHR 0x0A]) = s"
proof -
  assume a: "list_all (\<lambda>c. \<not> is_space c) s"
  have "is_space (CHR 0x0A)" by (simp add: is_space_def)
  then have "strip (s @ [CHR 0x0A]) = strip s"
    using a by (cases s) (auto simp: strip_def dropWhile_append3)
  with strip_id [OF a] show ?thesis by simp
qed

lemma digits_no_space: "list_all (\<lambda>c. \<not> is_space c) (digits n)"
  using isdigit_digits [of n] by (auto simp: isdigit_def list_all_iff digit_not_space)

lemma digits_no_minus: "take 1 (digits n) \<noteq> ''-''"
  using isdigit_digits [of n] by (cases "digits n") (auto simp: isdigit_def is_digit_def)

lemma not_digit_minus: "\<not> isdigit (CHR ''-'' # s)"
  by (simp add: isdigit_def is_digit_def)

lemma exit_of_text_round: "exit_of_text (Some (str_int c @ NL)) = Some c"
proof (cases "c < 0")
  case True
  have "list_all (\<lambda>c. \<not> is_space c) (''-'' @ digits (nat (- c)))"
    using digits_no_space by (simp add: is_space_def)
  then have "strip (str_int c @ NL) = ''-'' @ digits (nat (- c))"
    using True strip_newline [of "''-'' @ digits (nat (- c))"] by (simp add: str_int_def NL_def)
  then show ?thesis
    using True by (simp add: exit_of_text_def Let_def not_digit_minus isdigit_digits digits_val_digits)
next
  case False
  then have "strip (str_int c @ NL) = digits (nat c)"
    by (simp add: str_int_def NL_def strip_newline digits_no_space)
  then show ?thesis
    using False by (simp add: exit_of_text_def Let_def isdigit_digits digits_val_digits)
qed

lemma pid_of_text_round: "pid_of_text (Some (digits n @ NL)) = Some (int n)"
  using isdigit_digits [of n]
  by (simp add: pid_of_text_def NL_def strip_newline digits_no_space digits_val_digits)

lemma get_process_keyed:
  assumes "processes_wf t"
  shows "get_process sid pid tn t = (case t_get p_id pid t of None \<Rightarrow> None
    | Some p \<Rightarrow> if p_session p = sid \<and> tenant_matches tn p then Some p else None)"
proof -
  have eq: "q = p" if "t_get p_id pid t = Some p" "q \<in> set t" "p_id q = pid" for p q
    using assms that t_get_keyed [of p_id t q] by (simp add: processes_wf_def)
  show ?thesis
  proof (cases "get_process sid pid tn t")
    case None
    then have "\<not> (p_id q = pid \<and> p_session q = sid \<and> tenant_matches tn q)" if "q \<in> set t" for q
      using that by (auto simp: get_process_def filter_empty_conv split: list.splits)
    with None show ?thesis by (auto split: option.splits dest: t_get_key t_get_in)
  next
    case (Some q)
    note k = get_process_in [OF Some] get_process_key [OF Some]
    then have "t_get p_id pid t = Some q"
      using assms t_get_keyed [of p_id t q] by (simp add: processes_wf_def)
    with Some k show ?thesis by simp
  qed
qed

lemma get_process_mark:
  assumes "processes_wf t" "get_process sid pid tn t = Some p" "p_state p = P_RUNNING"
  shows "get_process sid pid tn (mark_process_exited ts pid c None t) =
    Some (p\<lparr>p_state := P_EXITED, p_exit_code := c, p_exited := Some ts, p_last_polled := Some ts\<rparr>)"
  using assms
  by (simp add: get_process_keyed mark_process_exited_wf)
    (auto simp: mark_process_exited_def tenant_matches_def split: option.splits if_splits)

section \<open>Properties\<close>

text \<open>
  C33: \<open>start\<close>. A normal return means: the audit log was healthy, the working directory is inside the
  workspace, the session is the tenant's and running now, fewer processes of it ran than its limit
  and the tenant's maximum allow, exactly one row was added, running and with the requested
  arguments, it is the answer, and the start is on record. An exception leaves the processes table
  alone, and with an unhealthy log nothing at all happens.
\<close>

theorem start_process_behaviour:
  assumes "sessions_wf (w_sess w)"
  shows "case start_process fuel E sid tenant req w of
      (Inl e, w') \<Rightarrow> w_procs w' = w_procs w \<and> (is_healthy w \<or> e = AuditUnhealthy \<and> w' = w)
    | (Inr y, w') \<Rightarrow> is_healthy w \<and> cwd_ok req \<and> only_row sid (w_sess w) (w_sess w') \<and>
        (\<exists>r row p. get_session sid tenant (w_sess w) = Some r \<and> row_fixed r row \<and>
          get_unscoped sid (w_sess w') = Some row \<and> s_status row = RUNNING \<and>
          count_running_processes sid (w_procs w) < process_cap E row \<and>
          p_session p = sid \<and> p_tenant p = tenant \<and> p_state p = P_RUNNING \<and> p_argv p = sp_argv req \<and>
          process_ok p \<and> t_get p_id (p_id p) (w_procs w) = None \<and>
          w_procs w' = w_procs w @ [p] \<and> y = row_to_response p \<and>
          (\<exists>ts. event_line ts (start_event tenant sid (p_id p) req) \<in> recorded w'))"
proof -
  obtain q w' where run: "start_process fuel E sid tenant req w = (q, w')" by fastforce
  from start_process_run [OF run assms] show ?thesis unfolding run by (cases q) simp_all
qed

definition demo_start :: start_request where
  "demo_start = \<lparr>sp_argv = [''sleep'', ''9''], sp_name = None, sp_env = None, sp_cwd = Some ''src''\<rparr>"

lemma demo_spawn:
  "\<exists>p w'. spawn_new 21 (testbed default_settings) ''s1'' ''t1'' demo_start ''c1'' demo_world = (Inr p, w') \<and>
    w_procs w' = []"
proof -
  have ascii: "decode_replace ''1'' = ''1''" by (rule decode_replace_ascii) (simp add: in_range_def)
  have pid: "pid_of_text (Some ''1'') = Some 1"
    by (simp add: pid_of_text_def isdigit_def is_digit_def strip_def is_space_def digits_val_def digit_val_def)
  have "poll_pid (Suc k) (testbed default_settings) ''c1'' path (t + 1000000000) v = (Inr (Some 1), v)"
    if "w_out v = tb_start\<lparr>tb_containers := [''c1''], tb_next := n\<rparr>" "t = 1000000000" for path t v n k
    using that
    by (simp add: bindM_def monotonic_ns_def readM_def testbed_def outM_def read_text_in_container_def
        exec_simple_def tb_sdk_def tb_find_def thenM_def tb_start_def exit_code_of_def ascii pid)
  note this [where k = 20, simplified]
  then show ?thesis
    by (simp add: spawn_new_def Let_def read_pid_with_retry_def bindM_def thenM_def new_ulid_def now_ms_def
        monotonic_ns_def readM_def testbed_def tb_fresh_def demo_world_def start_world_def outM_def
        spawn_supervised_def tb_sdk_def tb_find_def tb_start_def)
qed

lemma start_process_behaviour_witness:
  "sessions_wf (w_sess demo_world) \<and>
   (\<exists>y w'. start_process 21 (testbed default_settings) ''s1'' ''t1'' demo_start demo_world = (Inr y, w') \<and>
      count_running_processes ''s1'' (w_procs w') = 1)"
proof -
  let ?E = "testbed default_settings"
  from demo_spawn obtain p w1 where s: "spawn_new 21 ?E ''s1'' ''t1'' demo_start ''c1'' demo_world = (Inr p, w1)"
    "w_procs w1 = []" by blast
  obtain q w' where a: "account ?E ''s1'' ''t1'' demo_start p w1 = (q, w')" by fastforce
  have facts: "cwd_ok demo_start" "\<not> process_cap ?E demo_session \<le> 0"
    "count_running_processes ''s1'' (w_procs demo_world) = 0"
    by (simp_all add: cwd_ok_def demo_start_def is_safe_relative_cwd_def demo_session_def demo_limits_def
        process_cap_def default_settings_def testbed_def demo_world_def start_world_def count_running_processes_def)
  have "\<exists>y. q = Inr y"
    using account_run [OF a] spawn_new_row [OF s(1)] s(2) by (cases q) auto
  moreover have "start_process 21 ?E ''s1'' ''t1'' demo_start demo_world = (q, w')"
    using s a facts unfolding start_process_guards log.guarded_open [OF demo_world_facts(1)]
    by (simp add: session_to_start_def bindM_def get_row_run demo_world_facts assert_some_run launch_parts)
  ultimately obtain y where run: "start_process 21 ?E ''s1'' ''t1'' demo_start demo_world = (Inr y, w')" by auto
  with start_process_behaviour [OF demo_world_wf, where fuel = 21 and E = ?E and sid = "''s1''" and
      tenant = "''t1''" and req = demo_start]
  have "count_running_processes ''s1'' (w_procs w') = 1"
    by (auto simp: demo_world_def start_world_def count_running_processes_def)
  with run demo_world_wf show ?thesis by blast
qed

text \<open>
  C34: \<open>destroy\<close> with the hook the application installs: whenever it ends the row \<open>DESTROYED\<close>, and the
  session had a container, every process of the session that was running is exited with code 137,
  no process of the session runs any more, and no other row of the table has changed. This holds
  even if a signal, the removal of the container or of the volume fails.
\<close>

theorem destroy_ends_processes:
  assumes "sessions_wf (w_sess w)" "is_healthy w" "get_session sid tenant (w_sess w) = Some row"
    "s_status row \<noteq> DESTROYING" "s_container row \<noteq> None"
  shows "case destroy_session E (destroy_hook E) sid tenant w of (q, w') \<Rightarrow>
    sess_status (w_sess w') sid = Some DESTROYED \<and> reaped sid (w_procs w) (w_procs w') \<and>
    count_running_processes sid (w_procs w') = 0"
proof -
  obtain q w' where run: "destroy_session E (destroy_hook E) sid tenant w = (q, w')" by fastforce
  note f = get_session_found [OF assms(3)] and u = get_session_unscoped [OF assms(1,3)]
  have "destroy_locked E (destroy_hook E) row ''api'' w = (q, w')"
    using run assms(3) unfolding destroy_session_def log.guarded_open [OF assms(2)]
    by (simp add: bindM_def get_row_run)
  from destroy_locked_reaps [OF this _ _ assms(5)] u f assms(4)
  have "reaped sid (w_procs w) (w_procs w')" by (auto simp: terminal_def)
  moreover have "moved_to sid DESTROYED (w_sess w) (w_sess w')"
    using destroy_session_run [OF run destroy_hook_safe assms(1)] assms(2-4) by simp
  ultimately show ?thesis
    unfolding run by (auto simp: moved_to_status reaped_def running_of_def count_running_processes_def)
qed

text \<open>A running process of the session of the examples.\<close>

definition demo_process :: process where
  "demo_process = new_process 5 ''p1'' ''s1'' ''t1'' None [''sleep'', ''9''] None (Some 7) ''/log'' ''/exit''"

definition busy_world :: "tb world" where
  "busy_world = demo_world\<lparr>w_procs := [demo_process]\<rparr>"

lemma busy_world_facts:
  "sessions_wf (w_sess busy_world)" "is_healthy busy_world"
  "get_session ''s1'' ''t1'' (w_sess busy_world) = Some demo_session" "processes_wf (w_procs busy_world)"
  "get_process ''s1'' ''p1'' (Some ''t1'') (w_procs busy_world) = Some demo_process"
  "p_state demo_process = P_RUNNING" "p_ospid demo_process = Some 7"
  using demo_world_wf demo_world_facts(1,2)
  by (simp_all add: busy_world_def is_healthy_def processes_wf_def keyed_def process_ok_def demo_process_def
      new_process_def get_process_def tenant_matches_def)

lemma destroy_ends_processes_witness:
  "\<exists>q w'. destroy_session (testbed default_settings) (destroy_hook (testbed default_settings)) ''s1'' ''t1'' busy_world = (q, w') \<and>
     count_running_processes ''s1'' (w_procs busy_world) = 1 \<and> count_running_processes ''s1'' (w_procs w') = 0"
proof -
  let ?E = "testbed default_settings"
  obtain q w' where run: "destroy_session ?E (destroy_hook ?E) ''s1'' ''t1'' busy_world = (q, w')" by fastforce
  have "s_status demo_session \<noteq> DESTROYING" "s_container demo_session \<noteq> None"
    by (simp_all add: demo_session_def)
  from destroy_ends_processes [OF busy_world_facts(1-3) this, where E = ?E] run
  show ?thesis by (simp add: busy_world_def demo_process_def new_process_def count_running_processes_def)
qed

text \<open>
  C35: both polling loops end. With a monotonic clock that advances by what is slept, the wait for the
  pid file ends within 21 rounds and the wait after a SIGTERM within five rounds for each second of
  grace and one more; more fuel than that changes nothing.
\<close>

theorem polling_ends:
  assumes "clocked E t"
  shows "fst (read_pid_with_retry 21 E cid path w) \<noteq> Inl Unfinished \<and>
    read_pid_with_retry (21 + k) E cid path w = read_pid_with_retry 21 E cid path w \<and>
    fst (sigterm_then_sigkill (Suc (nat (5 * g))) E cid i g w) \<noteq> Inl Unfinished \<and>
    sigterm_then_sigkill (Suc (nat (5 * g)) + k) E cid i g w = sigterm_then_sigkill (Suc (nat (5 * g))) E cid i g w"
proof -
  obtain q w1 where m: "monotonic_ns E w = (q, w1)" by fastforce
  note cm = clocked_mono [OF assms m]
  have "fst (poll_pid (Suc 20) E cid path (t (w_out w) + 1000000000) w1) \<noteq> Inl Unfinished"
    using cm by (intro poll_pid_ends [OF assms]) simp
  then have p: "fst (poll_pid 21 E cid path (t (w_out w) + 1000000000) w1) \<noteq> Inl Unfinished" by simp
  obtain q2 w2 where s: "outM (signal_pid E cid i 15) w = (q2, w2)" by fastforce
  note cs = passes_outM [OF clocked_probes(4) [OF assms] s]
  obtain q3 w3 where m3: "monotonic_ns E w2 = (q3, w3)" by fastforce
  note cm3 = clocked_mono [OF assms m3]
  have d: "fst (wait_dead (Suc (nat (5 * g))) E cid i (t (w_out w2) + g * 1000000000) w3) \<noteq> Inl Unfinished"
    using cm3 by (intro wait_dead_ends [OF assms]) simp
  show ?thesis
    using p d poll_pid_more [OF p, of k] wait_dead_more [OF d, of k] m cm s cs m3 cm3
    unfolding read_pid_with_retry_def sigterm_then_sigkill_def
    by (cases q2) (simp_all add: bindM_def thenM_def del: wait_dead.simps poll_pid.simps)
qed

lemma testbed_clocked: "clocked (testbed S) (\<lambda>x. tb_clock x * 1000000)"
proof -
  have "passes (\<lambda>x. tb_clock x * 1000000) (tb_find tb_containers c)" for c
    by (simp add: passes_def tb_find_def)
  then have "passes (\<lambda>x. tb_clock x * 1000000) (thenM (tb_find tb_containers c) (ret ''exec''))" for c
    by (intro passes_then) simp_all
  moreover have "passes (\<lambda>x. tb_clock x * 1000000) (bindM (getsM tb_reply) (\<lambda>s. ret (Some s, None)))"
    "passes (\<lambda>x. tb_clock x * 1000000) (bindM (getsM tb_code) (\<lambda>c. ret (Some c)))"
    by (simp_all add: passes_def)
  ultimately show ?thesis by (simp add: clocked_def testbed_def tb_sdk_def)
qed

lemma polling_ends_witness:
  "fst (read_pid_with_retry 21 (testbed default_settings) ''c1'' ''/pid'' busy_world) \<noteq> Inl Unfinished \<and>
   fst (sigterm_then_sigkill 51 (testbed default_settings) ''c1'' 7 10 busy_world) \<noteq> Inl Unfinished"
  using polling_ends [OF testbed_clocked, where cid = "''c1''" and path = "''/pid''" and w = busy_world and g = 10
      and i = 7 and k = 0] by simp

text \<open>
  \<open>stop\<close> of a process. With an unhealthy log nothing happens. A normal return means: the process is
  the session's; if it is exited already, or its pid was never read, nothing at all was done and the
  row is the answer; otherwise it was sent SIGTERM, it was then seen dead or sent SIGKILL, and the
  stop is on record with the exit code of the answer.
\<close>

theorem stop_process_behaviour:
  "case stop_process fuel E sid tenant pid g w of
     (Inl e, w') \<Rightarrow> is_healthy w \<or> e = AuditUnhealthy \<and> w' = w
   | (Inr y, w') \<Rightarrow> is_healthy w \<and> (\<exists>ses row. get_session sid tenant (w_sess w) = Some ses \<and>
       get_process sid pid (Some tenant) (w_procs w) = Some row \<and>
       (if stoppable row
        then \<exists>i cid. p_ospid row = Some i \<and> s_container ses = Some cid \<and> pr_id y = pid \<and>
          (\<exists>x. fst (signal_pid E cid i 15 x) = Inr ()) \<and>
          ((\<exists>x. fst (pid_alive E cid i x) = Inr False) \<or> (\<exists>x. fst (signal_pid E cid i 9 x) = Inr ())) \<and>
          (\<exists>ts. event_line ts (stop_event tenant sid pid (pr_exit_code y)) \<in> recorded w')
        else y = row_to_response row \<and> w' = w))"
proof -
  obtain q w' where run: "stop_process fuel E sid tenant pid g w = (q, w')" by fastforce
  show ?thesis
  proof (cases q)
    case (Inl e)
    with run show ?thesis by (cases "is_healthy w") (auto simp: stop_process_def log.guarded_refused)
  next
    case (Inr y)
    from stop_process_returns [OF run [unfolded Inr]] show ?thesis unfolding run Inr by simp
  qed
qed

text \<open>
  The exit code. When the process of a running row is found dead, and the supervisor has written
  its exit code, the answer of \<open>get\<close> and the row are exited with exactly this code.
\<close>

theorem exit_code_is_read:
  assumes "sessions_wf (w_sess w)" "processes_wf (w_procs w)"
    and "get_session sid tenant (w_sess w) = Some ses" "s_container ses = Some cid"
    and "get_process sid pid (Some tenant) (w_procs w) = Some row" "p_state row = P_RUNNING" "p_ospid row = Some i"
    and "\<And>x. fst (pid_alive E cid i x) = Inr False"
    and "\<And>x. fst (read_text_in_container E cid (p_exit row) x) = Inr (Some (str_int c @ NL))"
  shows "case get_session_process E sid tenant pid w of (q, w') \<Rightarrow>
    \<exists>row'. q = Inr (row_to_response row') \<and> get_process sid pid (Some tenant) (w_procs w') = Some row' \<and>
      p_state row' = P_EXITED \<and> p_exit_code row' = Some c \<and> p_argv row' = p_argv row"
proof -
  have u: "r_get_unscoped sid w = (Inr (Some ses), w)"
    using get_session_unscoped [OF assms(1,3)] by (simp add: r_get_unscoped_def)
  obtain x1 where alive: "outM (pid_alive E cid i) w = (Inr False, w\<lparr>w_out := x1\<rparr>)"
    using assms(8) [of "w_out w"] by (cases "pid_alive E cid i (w_out w)") (simp add: outM_def)
  obtain x2 where body: "outM (read_text_in_container E cid (p_exit row)) (w\<lparr>w_out := x1\<rparr>) =
      (Inr (Some (str_int c @ NL)), w\<lparr>w_out := x2\<rparr>)"
    using assms(9) [of x1] by (cases "read_text_in_container E cid (p_exit row) x1") (simp add: outM_def)
  have code: "read_exit_code 5 E cid (p_exit row) (w\<lparr>w_out := x1\<rparr>) = (Inr (Some c), w\<lparr>w_out := x2\<rparr>)"
    using body exit_of_text_round [of c] by (simp add: numeral_eq_Suc bindM_def)
  obtain ts x3 where now: "o_now E x2 = (ts, x3)" by fastforce
  have key: "p_id row = pid" "p_session row = sid" "p_tenant row = tenant"
    using get_process_key [OF assms(5)] by (simp_all add: tenant_matches_def)
  let ?row = "row\<lparr>p_state := P_EXITED, p_exit_code := Some c, p_exited := Some ts, p_last_polled := Some ts\<rparr>"
  let ?w = "w\<lparr>w_out := x3, w_procs := mark_process_exited ts pid (Some c) None (w_procs w)\<rparr>"
  have fin: "get_process sid pid (Some tenant) (w_procs ?w) = Some ?row"
    using get_process_mark [OF assms(2,5,6)] by simp
  have "maybe_refresh E row sid True w = (Inr ?row, ?w)"
    using assms(4,7) u alive code now key fin
    by (cases "p_last_polled row") (simp_all add: maybe_refresh_def bindM_def thenM_def r_mark_run)
  then have "get_session_process E sid tenant pid w = (Inr (row_to_response ?row), ?w)"
    using assms(3,5,6) by (simp add: get_session_process_def bindM_def get_row_run find_process_run)
  with fin show ?thesis by simp
qed

definition dead_context :: "tb ctx" where
  "dead_context = (testbed default_settings)\<lparr>dk := tb_sdk\<lparr>
     o_exec_create := (\<lambda>c opts. ret (hd (x_cmd opts))),
     o_exec_start := (\<lambda>e. ret (Some (str_int 3 @ NL), None)),
     o_exec_inspect := (\<lambda>e. ret (Some (if e = ''/bin/kill'' then 1 else 0)))\<rparr>\<rparr>"

lemma dead_context_facts:
  "fst (pid_alive dead_context ''c1'' i x) = Inr False"
  "fst (read_text_in_container dead_context ''c1'' path x) = Inr (Some (str_int 3 @ NL))"
proof -
  have "list_all (in_range 0 127) (digits n)" for n
    using isdigit_digits [of n] by (auto simp: isdigit_def list_all_iff in_range_def is_digit_def)
  then have "decode_replace (str_int 3 @ NL) = str_int 3 @ NL"
    by (intro decode_replace_ascii) (simp add: str_int_def NL_def in_range_def)
  then show "fst (pid_alive dead_context ''c1'' i x) = Inr False"
    "fst (read_text_in_container dead_context ''c1'' path x) = Inr (Some (str_int 3 @ NL))"
    by (simp_all add: pid_alive_def read_text_in_container_def exec_simple_def dead_context_def bindM_def
        agent_opts_def exit_code_of_def)
qed

lemma exit_code_is_read_witness:
  "\<exists>y w'. get_session_process dead_context ''s1'' ''t1'' ''p1'' busy_world = (Inr y, w') \<and> pr_exit_code y = Some 3"
proof -
  have "s_container demo_session = Some ''c1''" by (simp add: demo_session_def)
  from exit_code_is_read [OF busy_world_facts(1,4,3) this busy_world_facts(5-7) dead_context_facts]
  show ?thesis by (cases "get_session_process dead_context ''s1'' ''t1'' ''p1'' busy_world") (auto simp: row_to_response_def)
qed

end
