(* ===== verification/Reapers.thy ===== *)
theory Reapers
  imports Processes
begin

text \<open>
  The background sweeps: the session reaper (\<open>api/reaper.py\<close>), the orphan reaper
  (\<open>api/orphan_reaper.py\<close>) and the resource sampler (\<open>api/sampler.py\<close>), and the loop that all three
  run. Metrics are left out.
\<close>

section \<open>The session reaper\<close>

text \<open>\<open>try: ... except Exception: log\<close>.\<close>

definition logged :: "('s, exn, unit) M \<Rightarrow> ('s, exn, unit) M" where
  "logged m = tryM m (\<lambda>_. ret ())"

definition idle_stop :: "'x ctx \<Rightarrow> session \<Rightarrow> ('x, unit) W" where
  "idle_stop E row =
     bindM (getsM (\<lambda>w. count_running_processes (s_id row) (w_procs w))) (\<lambda>running.
     if 0 < running then ret () else logged (reap_stop E row ''idle''))"

definition ttl_destroy :: "'x ctx \<Rightarrow> (session \<Rightarrow> ('x, unit) W) \<Rightarrow> session \<Rightarrow> ('x, unit) W" where
  "ttl_destroy E hook row = logged (reap_destroy E hook row ''ttl'')"

definition idle_ms :: "'x ctx \<Rightarrow> int" where
  "idle_ms E = idle_stop_minutes (cfg E) * 60 * 1000"

definition ttl_ms :: "'x ctx \<Rightarrow> int" where
  "ttl_ms E = hard_destroy_hours (cfg E) * 60 * 60 * 1000"

definition reaper_tick :: "'x ctx \<Rightarrow> (session \<Rightarrow> ('x, unit) W) \<Rightarrow> ('x, unit) W" where
  "reaper_tick E hook =
     thenM (logged (maintenance_tick E))
    (bindM (now_ms E) (\<lambda>now.
     bindM (getsM (\<lambda>w. list_idle_running (now - idle_ms E) (w_sess w))) (\<lambda>idle.
     thenM (forM idle (idle_stop E))
    (bindM (getsM (\<lambda>w. list_expired (now - ttl_ms E) (w_sess w))) (\<lambda>expired.
     forM expired (ttl_destroy E hook))))))"

section \<open>The orphan reaper\<close>

definition LABEL_KEY :: string where
  "LABEL_KEY = ''sandbox.session_id''"

text \<open>\<open>labels.get(key) or other\<close>.\<close>

definition label_or :: "string \<Rightarrow> string \<Rightarrow> listed \<Rightarrow> string" where
  "label_or key other item =
     (case map_of (v_labels item) key of None \<Rightarrow> other | Some v \<Rightarrow> if v = [] then other else v)"

text \<open>
  The age in microseconds; \<open>None\<close> is infinite, for a resource without a usable time stamp. The
  clock is read in milliseconds.
\<close>

definition age_of :: "ms \<Rightarrow> listed \<Rightarrow> int option" where
  "age_of now item = (if 0 < v_created_us item then Some (now * 1000 - v_created_us item) else None)"

definition too_young :: "int \<Rightarrow> int option \<Rightarrow> bool" where
  "too_young grace_s age = (case age of None \<Rightarrow> False | Some a \<Rightarrow> a < grace_s * 1000000)"

text \<open>\<open>int(age)\<close> rounds towards zero.\<close>

definition whole_seconds :: "int \<Rightarrow> int" where
  "whole_seconds a = (if 0 \<le> a then a div 1000000 else - (- a div 1000000))"

definition orphan_event :: "string \<Rightarrow> ms \<Rightarrow> listed \<Rightarrow> event" where
  "orphan_event kind now item =
     ok_event ''orphan.reap'' (label_or ''sandbox.tenant_id'' ''unknown'' item) (label_or LABEL_KEY [] item)
       (JObj [(''resource_type'', JStr kind), (''name'', JStr (v_name item)),
         (''label_session_id'', JStr (label_or LABEL_KEY [] item)),
         (''age_seconds'', case age_of now item of None \<Rightarrow> JNull | Some a \<Rightarrow> JInt (whole_seconds a))])"

text \<open>One removal; the budget goes down only when it and its record succeeded.\<close>

definition reap_orphan ::
  "'x ctx \<Rightarrow> string \<Rightarrow> ms \<Rightarrow> (string \<Rightarrow> ('x, exn, unit) M) \<Rightarrow> listed \<Rightarrow> int \<Rightarrow> ('x, int) W" where
  "reap_orphan E kind now remove item budget =
     tryM (thenM (outM (remove (v_name item)))
          (thenM (emit E (orphan_event kind now item)) (ret (budget - 1))))
       (\<lambda>_. ret budget)"

primrec sweep ::
  "'x ctx \<Rightarrow> string \<Rightarrow> ms \<Rightarrow> (string \<Rightarrow> ('x, exn, unit) M) \<Rightarrow> listed list \<Rightarrow> int \<Rightarrow> ('x, int) W" where
  "sweep E kind now remove [] budget = ret budget"
| "sweep E kind now remove (item # items) budget =
     (if budget \<le> 0 then sweep E kind now remove items budget
      else
        let sid = label_or LABEL_KEY [] item in
        if sid = [] then sweep E kind now remove items budget
        else
          bindM (r_get_unscoped sid) (\<lambda>row.
          if row \<noteq> None then sweep E kind now remove items budget
          else if too_young (orphan_reap_grace_s (cfg E)) (age_of now item)
          then sweep E kind now remove items budget
          else bindM (reap_orphan E kind now remove item budget) (sweep E kind now remove items)))"

definition orphan_tick :: "'x ctx \<Rightarrow> ('x, unit) W" where
  "orphan_tick E =
     bindM (now_ms E) (\<lambda>now.
     bindM (tryM (outM (list_containers_with_label E LABEL_KEY)) (\<lambda>_. ret [])) (\<lambda>containers.
     bindM (sweep E ''container'' now (remove_container E) containers (orphan_reap_max_per_tick (cfg E))) (\<lambda>budget.
     if budget \<le> 0 then ret ()
     else
       bindM (tryM (outM (list_volumes_with_label E LABEL_KEY)) (\<lambda>_. ret [])) (\<lambda>volumes.
       bindM (sweep E ''volume'' now (remove_volume E) volumes budget) (\<lambda>_. ret ())))))"

section \<open>The sampler\<close>

definition stats_json :: "stats \<Rightarrow> json" where
  "stats_json s = JObj [(''cpu_percent'', JHundredths (cpu_hundredths s)),
     (''memory_bytes'', JInt (memory_bytes s)), (''memory_limit_bytes'', JInt (memory_limit_bytes s)),
     (''blkio_read_bytes'', JInt (blkio_read_bytes s)), (''blkio_write_bytes'', JInt (blkio_write_bytes s))]"

definition sample_event :: "session \<Rightarrow> stats \<Rightarrow> event" where
  "sample_event row s = ok_event ''session.sample'' (s_tenant row) (s_id row) (stats_json s)"

definition sample_row :: "'x ctx \<Rightarrow> session \<Rightarrow> ('x, unit) W" where
  "sample_row E row =
     (case container_of row of
        None \<Rightarrow> ret ()
      | Some cid \<Rightarrow> logged (bindM (outM (container_stats E cid)) (\<lambda>found.
          case found of None \<Rightarrow> ret () | Some s \<Rightarrow> emit E (sample_event row s))))"

definition sampler_tick :: "'x ctx \<Rightarrow> ('x, unit) W" where
  "sampler_tick E =
     bindM (monotonic_ns E) (\<lambda>_.
     bindM (now_ms E) (\<lambda>now.
     bindM (getsM (\<lambda>w. list_idle_running (now + 1) (w_sess w))) (\<lambda>rows.
     thenM (forM rows (sample_row E))
    (bindM (monotonic_ns E) (\<lambda>_. ret ())))))"

section \<open>The loop\<close>

text \<open>
  The task of a sweep. \<open>wakes\<close> says of each wait, in order, whether the stop event was set during
  it; at the end of the list the task is still waiting. The result is whether the task has ended.
\<close>

record loop =
  l_task :: bool
  l_stop :: bool

definition loop_idle :: loop where
  "loop_idle = \<lparr>l_task = False, l_stop = False\<rparr>"

text \<open>\<open>enabled\<close> is the test of the interval that the sampler and the orphan reaper make.\<close>

definition loop_start :: "bool \<Rightarrow> loop \<Rightarrow> loop" where
  "loop_start enabled l = (if \<not> enabled \<or> l_task l then l else \<lparr>l_task = True, l_stop = False\<rparr>)"

definition loop_stop :: "loop \<Rightarrow> loop" where
  "loop_stop l = (if \<not> l_task l then l else \<lparr>l_task = False, l_stop = True\<rparr>)"

primrec loop_run :: "('s, exn, unit) M \<Rightarrow> bool list \<Rightarrow> ('s, exn, bool) M" where
  "loop_run tick [] = ret False"
| "loop_run tick (stop # wakes) =
     thenM (logged tick) (if stop then ret True else loop_run tick wakes)"

text \<open>The three tasks of the service. Only the reaper cannot be switched off.\<close>

definition reaper_start :: "loop \<Rightarrow> loop" where
  "reaper_start l = loop_start True l"

definition orphan_start :: "settings \<Rightarrow> loop \<Rightarrow> loop" where
  "orphan_start S l = loop_start (0 < orphan_reap_interval_s S) l"

definition sampler_start :: "settings \<Rightarrow> loop \<Rightarrow> loop" where
  "sampler_start S l = loop_start (0 < resource_sample_interval_s S) l"

definition orphan_stop :: "loop \<Rightarrow> loop" where
  "orphan_stop l = loop_stop l"

definition sampler_stop :: "loop \<Rightarrow> loop" where
  "sampler_stop l = loop_stop l"

definition reaper_run :: "'x ctx \<Rightarrow> bool list \<Rightarrow> ('x, bool) W" where
  "reaper_run E wakes = loop_run (reaper_tick E (destroy_hook E)) wakes"

definition orphan_run :: "'x ctx \<Rightarrow> bool list \<Rightarrow> ('x, bool) W" where
  "orphan_run E wakes = loop_run (orphan_tick E) wakes"

definition sampler_run :: "'x ctx \<Rightarrow> bool list \<Rightarrow> ('x, bool) W" where
  "sampler_run E wakes = loop_run (sampler_tick E) wakes"

text \<open>What the reaper reports after a sweep: the number of sessions in each status.\<close>

definition status_gauge :: "sessions \<Rightarrow> (status \<times> nat) list" where
  "status_gauge t = map (\<lambda>st. (st, status_counts t st)) [CREATING, RUNNING, IDLE, STOPPED, DESTROYING, DESTROYED]"

lemma status_gauge_total: "sum_list (map snd (status_gauge t)) = length t"
proof (induction t)
  case (Cons r t)
  then show ?case by (cases "s_status r") (simp_all add: status_gauge_def status_counts_def)
qed (simp add: status_gauge_def status_counts_def)

section \<open>What a sweep of the reaper does\<close>

lemma logged_run: "logged m w = (Inr (), snd (m w))"
  by (cases "m w"; cases "fst (m w)") (auto simp: logged_def tryM_def)

lemma keeps_logged [keeps_rules]: "keeps I m \<Longrightarrow> keeps I (logged m)"
  unfolding logged_def by (intro keeps_rules)

lemma keeps_idle_stop [keeps_rules]: "sess_closed I \<Longrightarrow> keeps I (idle_stop E row)"
  unfolding idle_stop_def by (intro keeps_rules)

lemma keeps_ttl_destroy [keeps_rules]:
  "sess_closed I \<Longrightarrow> (\<And>r. keeps I (hook r)) \<Longrightarrow> keeps I (ttl_destroy E hook row)"
  unfolding ttl_destroy_def by (intro keeps_rules)

lemma keeps_reaper_tick [keeps_rules]:
  "sess_closed I \<Longrightarrow> (\<And>r. keeps I (hook r)) \<Longrightarrow> keeps I (reaper_tick E hook)"
  unfolding reaper_tick_def by (intro keeps_rules) simp_all

lemma thenM_logged: "thenM (logged m) n w = n (snd (m w))"
  by (simp add: thenM_def bindM_def logged_run)

lemma reap_stop_run:
  assumes "reap_stop E row reason w = (q, w')"
  shows "w_procs w' = w_procs w \<and> (w_sess w' = w_sess w \<or>
    (\<exists>c. get_unscoped (s_id row) (w_sess w) = Some c \<and> live (s_status c) \<and>
      moved_to (s_id row) STOPPED (w_sess w) (w_sess w')))"
proof
  show "w_procs w' = w_procs w"
    using keeps_run [OF keeps_reap_stop [OF closed_other(1)] _ assms, of "w_procs w"] by simp
  show "w_sess w' = w_sess w \<or> (\<exists>c. get_unscoped (s_id row) (w_sess w) = Some c \<and> live (s_status c) \<and>
      moved_to (s_id row) STOPPED (w_sess w) (w_sess w'))"
  proof (cases "\<exists>c cid. get_unscoped (s_id row) (w_sess w) = Some c \<and> live (s_status c) \<and> s_container c = Some cid")
    case False
    with assms show ?thesis
      by (auto simp: reap_stop_def r_get_unscoped_def assert_some_run bindM_def
          split: option.splits if_splits)
  next
    case True
    then obtain c cid where c: "get_unscoped (s_id row) (w_sess w) = Some c" "live (s_status c)"
      "s_container c = Some cid" by blast
    let ?ev = "ok_event ''session.stop'' (s_tenant row) (s_id row) (JObj [(''reason'', JStr reason)])"
    have run: "thenM (outM (stop_container E cid)) (thenM (r_transition E (s_id row) STOPPED) (emit E ?ev)) w = (q, w')"
      using assms c by (simp add: reap_stop_def r_get_unscoped_def bindM_def assert_some_run)
    obtain q1 w1 where o: "outM (stop_container E cid) w = (q1, w1)" by fastforce
    show ?thesis
    proof (cases q1)
      case (Inl e)
      with run o outM_sess [OF o] show ?thesis by (auto simp: thenM_def bindM_def)
    next
      case (Inr u)
      obtain q2 w2 where t: "r_transition E (s_id row) STOPPED w1 = (q2, w2)" by fastforce
      have "lifecycle (s_status c) STOPPED" using c(2) by (auto simp: live_def intro: lifecycle.intros)
      from r_transition_moves [OF _ this t] c(1) outM_sess [OF o]
      have m: "q2 = Inr ()" "moved_to (s_id row) STOPPED (w_sess w) (w_sess w2)" by auto
      have "emit E ?ev w2 = (q, w')" using run o Inr t m(1) by (simp add: thenM_def bindM_def)
      then have "w_sess w' = w_sess w2" by (rule same_sessD [OF same_sess_simps(3)])
      with m c show ?thesis by auto
    qed
  qed
qed

lemma reap_destroy_run:
  assumes "reap_destroy E hook row reason w = (q, w')" "sess_safe hook"
  shows "case get_unscoped (s_id row) (w_sess w) of
      None \<Rightarrow> w_sess w' = w_sess w
    | Some c \<Rightarrow> if terminal (s_status c) then w_sess w' = w_sess w
        else moved_to (s_id row) DESTROYED (w_sess w) (w_sess w')"
proof (cases "get_unscoped (s_id row) (w_sess w)")
  case None
  with assms(1) show ?thesis by (simp add: reap_destroy_def r_get_unscoped_def)
next
  case (Some c)
  have id: "s_id c = s_id row" using Some by (rule get_unscoped_id)
  show ?thesis
  proof (cases "terminal (s_status c)")
    case True
    with assms(1) Some show ?thesis by (simp add: reap_destroy_def r_get_unscoped_def)
  next
    case False
    with assms(1) Some have "destroy_locked E hook c reason w = (q, w')"
      by (simp add: reap_destroy_def r_get_unscoped_def)
    from destroy_locked_run [OF this assms(2)] Some id False show ?thesis by simp
  qed
qed

text \<open>
  \<open>became C t t'\<close>: every row of \<open>t\<close> is still there, and the change of its status satisfies \<open>C\<close>.
\<close>

definition became :: "(string \<Rightarrow> status \<Rightarrow> status \<Rightarrow> bool) \<Rightarrow> sessions \<Rightarrow> sessions \<Rightarrow> bool" where
  "became C t t' \<longleftrightarrow> (\<forall>i r. get_unscoped i t = Some r \<longrightarrow>
     (\<exists>r'. get_unscoped i t' = Some r' \<and> row_fixed r r' \<and> C i (s_status r) (s_status r')))"

lemma became_refl: "(\<And>i s. C i s s) \<Longrightarrow> became C t t"
  by (auto simp: became_def row_fixed_def)

lemma became_trans:
  assumes "became C t t'" "became D t' t''" "\<And>i a b c. C i a b \<Longrightarrow> D i b c \<Longrightarrow> F i a c"
  shows "became F t t''"
  unfolding became_def
proof (intro allI impI)
  fix i r assume "get_unscoped i t = Some r"
  with assms(1) obtain r1 where r1: "get_unscoped i t' = Some r1" "row_fixed r r1" "C i (s_status r) (s_status r1)"
    unfolding became_def by blast
  with assms(2) obtain r2 where "get_unscoped i t'' = Some r2" "row_fixed r1 r2" "D i (s_status r1) (s_status r2)"
    unfolding became_def by blast
  with r1 assms(3) show "\<exists>r'. get_unscoped i t'' = Some r' \<and> row_fixed r r' \<and> F i (s_status r) (s_status r')"
    by (auto simp: row_fixed_def)
qed

lemma became_moved:
  assumes "moved_to sid st t t'" "get_unscoped sid t = Some c" "C sid (s_status c) st" "\<And>i s. i \<noteq> sid \<Longrightarrow> C i s s"
  shows "became C t t'"
  unfolding became_def
proof (intro allI impI)
  fix i r assume r: "get_unscoped i t = Some r"
  show "\<exists>r'. get_unscoped i t' = Some r' \<and> row_fixed r r' \<and> C i (s_status r) (s_status r')"
  proof (cases "i = sid")
    case True
    with assms(1,2,3) r show ?thesis by (auto simp: moved_to_def)
  next
    case False
    with assms(1,4) r show ?thesis by (auto simp: moved_to_def only_row_def row_fixed_def)
  qed
qed

lemma idle_stops_run:
  assumes "forM rows (idle_stop E) w = (q, w')"
  shows "q = Inr () \<and> w_procs w' = w_procs w \<and>
    became (\<lambda>i a b. b = a \<or> live a \<and> b = STOPPED \<and> i \<in> s_id ` set rows \<and>
      count_running_processes i (w_procs w) \<le> 0) (w_sess w) (w_sess w')"
  using assms
proof (induction rows arbitrary: w)
  case Nil
  then show ?case by (simp add: became_refl)
next
  case (Cons row rows)
  let ?C = "\<lambda>rows w i a b. b = a \<or> live a \<and> b = STOPPED \<and> i \<in> s_id ` set rows \<and>
      count_running_processes i (w_procs (w :: 'a world)) \<le> 0"
  obtain q1 w1 where r: "idle_stop E row w = (q1, w1)" by fastforce
  have one: "q1 = Inr () \<and> w_procs w1 = w_procs w \<and> became (?C [row] w) (w_sess w) (w_sess w1)"
  proof (cases "0 < count_running_processes (s_id row) (w_procs w)")
    case True
    with r show ?thesis by (simp add: idle_stop_def became_refl)
  next
    case False
    obtain q2 w2 where s: "reap_stop E row ''idle'' w = (q2, w2)" by fastforce
    have e: "q1 = Inr ()" "w1 = w2" using r s False by (simp_all add: idle_stop_def logged_run)
    from reap_stop_run [OF s] show ?thesis
    proof (elim conjE disjE exE)
      assume "w_procs w2 = w_procs w" "w_sess w2 = w_sess w"
      with e show ?thesis by (simp add: became_refl)
    next
      fix c assume "w_procs w2 = w_procs w" and c: "get_unscoped (s_id row) (w_sess w) = Some c" "live (s_status c)"
        and m: "moved_to (s_id row) STOPPED (w_sess w) (w_sess w2)"
      moreover have "became (?C [row] w) (w_sess w) (w_sess w2)"
        using c(2) False by (intro became_moved [OF m c(1)]) auto
      ultimately show ?thesis using e by simp
    qed
  qed
  have "forM rows (idle_stop E) w1 = (q, w')" using Cons.prems r one by (simp add: thenM_def bindM_def)
  note rest = Cons.IH [OF this]
  have "became (?C (row # rows) w) (w_sess w) (w_sess w')"
    by (rule became_trans [OF conjunct2 [OF conjunct2 [OF one]] conjunct2 [OF conjunct2 [OF rest]]])
      (use one in \<open>auto simp: live_def\<close>)
  with rest one show ?case by simp
qed

lemma ttl_destroys_run:
  assumes "forM rows (ttl_destroy E hook) w = (q, w')" "sess_safe hook"
  shows "q = Inr () \<and>
    became (\<lambda>i a b. b = (if i \<in> s_id ` set rows \<and> \<not> terminal a then DESTROYED else a)) (w_sess w) (w_sess w')"
  using assms(1)
proof (induction rows arbitrary: w)
  case Nil
  then show ?case by (simp add: became_refl)
next
  case (Cons row rows)
  let ?C = "\<lambda>rows i a b. b = (if i \<in> s_id ` set rows \<and> \<not> terminal a then DESTROYED else a)"
  obtain q2 w1 where s: "reap_destroy E hook row ''ttl'' w = (q2, w1)" by fastforce
  have one: "became (?C [row]) (w_sess w) (w_sess w1)"
  proof (cases "\<exists>c. get_unscoped (s_id row) (w_sess w) = Some c \<and> \<not> terminal (s_status c)")
    case True
    then obtain c where c: "get_unscoped (s_id row) (w_sess w) = Some c" "\<not> terminal (s_status c)" by blast
    with reap_destroy_run [OF s assms(2)] have "moved_to (s_id row) DESTROYED (w_sess w) (w_sess w1)" by simp
    then show ?thesis using c by (intro became_moved) auto
  next
    case False
    then have "w_sess w1 = w_sess w" using reap_destroy_run [OF s assms(2)] by (auto split: option.splits)
    moreover have "terminal (s_status c)" if "get_unscoped (s_id row) (w_sess w) = Some c" for c
      using False that by blast
    ultimately show ?thesis by (auto simp: became_def row_fixed_def)
  qed
  have "forM rows (ttl_destroy E hook) w1 = (q, w')"
    using Cons.prems s by (simp add: thenM_def bindM_def ttl_destroy_def [of E hook row] logged_run)
  note rest = Cons.IH [OF this]
  have "became (?C (row # rows)) (w_sess w) (w_sess w')"
    by (rule became_trans [OF one conjunct2 [OF rest]]) (auto split: if_splits)
  with rest show ?case by simp
qed

lemma reaper_tick_run:
  assumes run: "reaper_tick E hook w = (q, w')" and hook: "sess_safe hook" and wf: "sessions_wf (w_sess w)"
  shows "q = Inr () \<and> (let now = fst (o_now E (w_out (snd (maintenance_tick E w)))) in
    became (\<lambda>i a b. \<exists>r. get_unscoped i (w_sess w) = Some r \<and> a = s_status r \<and>
      (if \<not> terminal a \<and> s_created r < now - ttl_ms E then b = DESTROYED
       else b = a \<or> b = STOPPED \<and> live a \<and> s_last r < now - idle_ms E \<and>
         count_running_processes i (w_procs w) \<le> 0))
      (w_sess w) (w_sess w'))"
proof -
  obtain q1 w1 where m: "maintenance_tick E w = (q1, w1)" by fastforce
  have w1: "w_sess w1 = w_sess w" "w_procs w1 = w_procs w"
    using keeps_run [OF keeps_maintenance _ m, of "\<lambda>v. w_sess v = w_sess w"]
      keeps_run [OF keeps_maintenance _ m, of "\<lambda>v. w_procs v = w_procs w"] by simp_all
  obtain now x where n: "o_now E (w_out w1) = (now, x)" by fastforce
  let ?idle = "list_idle_running (now - idle_ms E) (w_sess w)"
  obtain q2 w2 where i: "forM ?idle (idle_stop E) (w1\<lparr>w_out := x\<rparr>) = (q2, w2)" by fastforce
  note ir = idle_stops_run [OF i]
  let ?exp = "list_expired (now - ttl_ms E) (w_sess w2)"
  have d: "forM ?exp (ttl_destroy E hook) w2 = (q, w')"
    using run m w1 n i ir by (simp add: reaper_tick_def thenM_logged bindM_def thenM_def [of "forM _ _"] now_ms_def outM_read)
  note dr = ttl_destroys_run [OF d hook]
  let ?C = "\<lambda>i a b. (b = a \<or> live a \<and> b = STOPPED \<and> i \<in> s_id ` set ?idle \<and> count_running_processes i (w_procs w) \<le> 0)"
  let ?D = "\<lambda>i a b. b = (if i \<in> s_id ` set ?exp \<and> \<not> terminal a then DESTROYED else a)"
  have c: "became ?C (w_sess w) (w_sess w2)" and dd: "became ?D (w_sess w2) (w_sess w')"
    using ir w1 dr by simp_all
  have uniq: "r = r'" if "r \<in> set (w_sess w)" "get_unscoped (s_id r) (w_sess w) = Some r'" for r r'
    using wf that t_get_keyed [of s_id "w_sess w" r] by (simp add: sessions_wf_def get_unscoped_def)
  have main: "became (\<lambda>i a b. \<exists>r. get_unscoped i (w_sess w) = Some r \<and> a = s_status r \<and>
      (if \<not> terminal a \<and> s_created r < now - ttl_ms E then b = DESTROYED
       else b = a \<or> b = STOPPED \<and> live a \<and> s_last r < now - idle_ms E \<and>
         count_running_processes i (w_procs w) \<le> 0)) (w_sess w) (w_sess w')"
    unfolding became_def
  proof (intro allI impI)
    fix i r assume r: "get_unscoped i (w_sess w) = Some r"
    with c obtain r2 where r2: "get_unscoped i (w_sess w2) = Some r2" "row_fixed r r2" "?C i (s_status r) (s_status r2)"
      unfolding became_def by blast
    with dd obtain r' where r': "get_unscoped i (w_sess w') = Some r'" "row_fixed r2 r'" "?D i (s_status r2) (s_status r')"
      unfolding became_def by blast
    have t: "terminal (s_status r2) = terminal (s_status r)" using r2(3) by (auto simp: live_def terminal_def)
    have idle: "i \<in> s_id ` set ?idle \<Longrightarrow> s_last r < now - idle_ms E"
    proof -
      assume "i \<in> s_id ` set ?idle"
      then obtain y where "y \<in> set (w_sess w)" "s_id y = i" "s_last y < now - idle_ms E"
        by (auto simp: list_idle_running_def)
      with uniq [of y r] r show ?thesis by simp
    qed
    have exp: "i \<in> s_id ` set ?exp" if "\<not> terminal (s_status r)" "s_created r < now - ttl_ms E"
    proof -
      have "r2 \<in> set ?exp"
        using that t r2(2) get_unscoped_in [OF r2(1)] by (simp add: list_expired_def row_fixed_def)
      then show ?thesis using get_unscoped_id [OF r2(1)] by blast
    qed
    have wf2: "i \<in> s_id ` set ?exp \<Longrightarrow> \<not> terminal (s_status r2) \<Longrightarrow> s_created r < now - ttl_ms E"
    proof -
      assume "i \<in> s_id ` set ?exp"
      moreover have "sessions_wf (w_sess w2)"
        using keeps_run [OF keeps_for [OF keeps_idle_stop [OF closed_wf(1)]] _ i] wf w1 by simp
      ultimately show ?thesis
        using r2(1,2) t_get_keyed [of s_id "w_sess w2"]
        by (auto simp: list_expired_def row_fixed_def sessions_wf_def get_unscoped_def)
    qed
    show "\<exists>r'. get_unscoped i (w_sess w') = Some r' \<and> row_fixed r r' \<and> (\<exists>ra. get_unscoped i (w_sess w) = Some ra \<and>
        s_status r = s_status ra \<and>
        (if \<not> terminal (s_status r) \<and> s_created ra < now - ttl_ms E then s_status r' = DESTROYED
         else s_status r' = s_status r \<or> s_status r' = STOPPED \<and> live (s_status r) \<and>
           s_last ra < now - idle_ms E \<and> count_running_processes i (w_procs w) \<le> 0))"
      using r r' r2 t idle exp wf2 by (auto simp: row_fixed_def split: if_splits)
  qed
  have now: "fst (o_now E (w_out (snd (maintenance_tick E w)))) = now" using n m by simp
  show ?thesis
    unfolding Let_def
    by (rule conjI [OF conjunct1 [OF dr]], unfold now) (rule main)
qed

section \<open>What a sweep for orphans does\<close>

text \<open>
  The abstract sweep: it knows which items are due and attempts them one after another until the
  budget is used up.
\<close>

definition due :: "sessions \<Rightarrow> int \<Rightarrow> ms \<Rightarrow> listed \<Rightarrow> bool" where
  "due t grace_s now item \<longleftrightarrow> label_or LABEL_KEY [] item \<noteq> [] \<and>
     get_unscoped (label_or LABEL_KEY [] item) t = None \<and> \<not> too_young grace_s (age_of now item)"

primrec attempt_all ::
  "'x ctx \<Rightarrow> string \<Rightarrow> ms \<Rightarrow> (string \<Rightarrow> ('x, exn, unit) M) \<Rightarrow> listed list \<Rightarrow> int \<Rightarrow> ('x, int) W" where
  "attempt_all E kind now remove [] budget = ret budget"
| "attempt_all E kind now remove (item # items) budget =
     (if budget \<le> 0 then ret budget
      else bindM (reap_orphan E kind now remove item budget) (attempt_all E kind now remove items))"

lemma keeps_reap_orphan [keeps_rules]: "quiet I \<Longrightarrow> keeps I (reap_orphan E kind now remove item b)"
  unfolding reap_orphan_def by (intro keeps_rules keeps_out) simp_all

lemma keeps_sweep [keeps_rules]: "quiet I \<Longrightarrow> keeps I (sweep E kind now remove items b)"
  by (induction items arbitrary: b) (auto simp: Let_def intro!: keeps_rules)

lemma reap_orphan_run:
  assumes "reap_orphan E kind now remove item b w = (q, w')"
  shows "\<exists>b'. q = Inr b' \<and> b - 1 \<le> b' \<and> b' \<le> b \<and> w_sess w' = w_sess w"
proof -
  have "w_sess w' = w_sess w"
    using keeps_run [OF keeps_reap_orphan [OF quiet_simps(1)] _ assms, of "w_sess w"] by simp
  then show ?thesis
    using assms by (auto simp: reap_orphan_def tryM_def thenM_def bindM_def split: prod.splits sum.splits)
qed

lemma sweep_spent: "b \<le> 0 \<Longrightarrow> sweep E kind now remove items b w = (Inr b, w)"
  by (induction items) simp_all

lemma attempt_spent: "b \<le> 0 \<Longrightarrow> attempt_all E kind now remove items b w = (Inr b, w)"
  by (cases items) simp_all

lemma sweep_attempts:
  "sweep E kind now remove items b w =
    attempt_all E kind now remove (filter (due (w_sess w) (orphan_reap_grace_s (cfg E)) now) items) b w"
proof (induction items arbitrary: b w)
  case (Cons item items)
  show ?case
  proof (cases "b \<le> 0")
    case True
    then show ?thesis by (simp add: sweep_spent attempt_spent)
  next
    case False
    obtain q w1 where r: "reap_orphan E kind now remove item b w = (q, w1)" by fastforce
    from reap_orphan_run [OF r] False Cons.IH r show ?thesis
      by (auto simp: due_def Let_def r_get_unscoped_def bindM_def [of "reap_orphan _ _ _ _ _ _"])
  qed
qed simp

lemma attempt_all_run:
  "attempt_all E kind now remove items b w = (q, w') \<Longrightarrow>
    \<exists>b'. q = Inr b' \<and> min b 0 \<le> b' \<and> b' \<le> b \<and> b - b' \<le> int (length items) \<and> w_sess w' = w_sess w"
proof (induction items arbitrary: b w)
  case (Cons item items)
  show ?case
  proof (cases "b \<le> 0")
    case True
    with Cons.prems show ?thesis by (auto simp: attempt_spent)
  next
    case False
    obtain q1 w1 where r: "reap_orphan E kind now remove item b w = (q1, w1)" by fastforce
    from reap_orphan_run [OF r] obtain b1 where b1: "q1 = Inr b1" "b - 1 \<le> b1" "b1 \<le> b" "w_sess w1 = w_sess w" by blast
    with Cons.prems r False have "attempt_all E kind now remove items b1 w1 = (q, w')" by (simp add: bindM_def)
    from Cons.IH [OF this] b1 False show ?thesis by auto
  qed
qed auto

section \<open>The loop is its ticks\<close>

definition rounds :: "bool list \<Rightarrow> nat" where
  "rounds wakes = (if True \<in> set wakes then Suc (length (takeWhile Not wakes)) else length wakes)"

lemma loop_run_rounds:
  "loop_run tick wakes w = (Inr (True \<in> set wakes), ((\<lambda>s. snd (tick s)) ^^ rounds wakes) w)"
proof (induction wakes arbitrary: w)
  case (Cons stop wakes)
  have "((\<lambda>s. snd (tick s)) ^^ n) (snd (tick w)) = ((\<lambda>s. snd (tick s)) ^^ Suc n) w" for n
    by (simp only: funpow_Suc_right comp_apply)
  with Cons show ?case by (cases stop) (simp_all add: thenM_logged rounds_def funpow_Suc_right del: funpow.simps(2))
qed (simp add: rounds_def)

text \<open>What the loop relies on: a tick keeps the invariant of the state, even when it crashes.\<close>

locale periodic =
  fixes tick :: "('s, exn, unit) M"
    and inv :: "'s \<Rightarrow> bool"
  assumes tick_keeps: "inv s \<Longrightarrow> inv (snd (tick s))"
begin

lemma rounds_keep: "inv s \<Longrightarrow> inv (((\<lambda>s. snd (tick s)) ^^ n) s)"
  by (induction n) (simp_all add: tick_keeps)

lemma loop_keeps: "inv s \<Longrightarrow> inv (snd (loop_run tick wakes s))"
  by (simp add: loop_run_rounds rounds_keep)

end

lemma keeps_orphan_tick [keeps_rules]: "quiet I \<Longrightarrow> keeps I (orphan_tick E)"
  unfolding orphan_tick_def by (intro keeps_rules keeps_out) simp_all

lemma keeps_sample_row: "quiet I \<Longrightarrow> keeps I (sample_row E row)"
  unfolding sample_row_def by (intro keeps_rules keeps_out) simp_all

lemma keeps_sampler_tick [keeps_rules]: "quiet I \<Longrightarrow> keeps I (sampler_tick E)"
  unfolding sampler_tick_def by (intro keeps_rules keeps_sample_row) simp_all

text \<open>The tables the sweeps rely on.\<close>

definition tables_wf :: "'x world \<Rightarrow> bool" where
  "tables_wf w \<longleftrightarrow> sessions_wf (w_sess w) \<and> processes_wf (w_procs w)"

lemma keeps_tables_wf:
  "keeps (\<lambda>w. sessions_wf (w_sess w)) m \<Longrightarrow> keeps (on_procs processes_wf) m \<Longrightarrow> keeps tables_wf m"
  by (simp add: keeps_def tables_wf_def)

interpretation reaper_loop: periodic "reaper_tick E (destroy_hook E)" tables_wf
proof unfold_locales
  have s: "keeps (\<lambda>w. sessions_wf (w_sess w)) (destroy_hook E row)" for row
    using destroy_hook_safe [of E] unfolding sess_safe_def same_sess_def keeps_def by metis
  have "keeps tables_wf (reaper_tick E (destroy_hook E))"
    by (intro keeps_tables_wf keeps_reaper_tick closed_wf s keeps_destroy_hook table_invariants) simp_all
  then show "tables_wf w \<Longrightarrow> tables_wf (snd (reaper_tick E (destroy_hook E) w))" for w by (rule keepsD)
qed

interpretation orphan_loop: periodic "orphan_tick E" tables_wf
proof unfold_locales
  have "keeps tables_wf (orphan_tick E)" by (intro keeps_tables_wf keeps_orphan_tick) simp_all
  then show "tables_wf w \<Longrightarrow> tables_wf (snd (orphan_tick E w))" for w by (rule keepsD)
qed

interpretation sampler_loop: periodic "sampler_tick E" tables_wf
proof unfold_locales
  have "keeps tables_wf (sampler_tick E)" by (intro keeps_tables_wf keeps_sampler_tick) simp_all
  then show "tables_wf w \<Longrightarrow> tables_wf (snd (sampler_tick E w))" for w by (rule keepsD)
qed

text \<open>However long the tasks run and whatever crashes in them, the tables stay well formed.\<close>

lemma tasks_keep_tables:
  assumes "tables_wf w"
  shows "tables_wf (snd (reaper_run E wakes w))" "tables_wf (snd (orphan_run E wakes w))"
    "tables_wf (snd (sampler_run E wakes w))"
  unfolding reaper_run_def orphan_run_def sampler_run_def
  by (rule reaper_loop.loop_keeps orphan_loop.loop_keeps sampler_loop.loop_keeps, rule assms)+

section \<open>Properties\<close>


text \<open>A session that is long overdue, on a day-old clock.\<close>

definition old_world :: "tb world" where
  "old_world = busy_world\<lparr>w_out := (w_out busy_world)\<lparr>tb_clock := 10 ^ 9\<rparr>\<rparr>"


text \<open>
  C37: the sweep for orphans does exactly what its specification does: it attempts, in their order and
  while the budget lasts, the items whose label names no session of the registry and which are
  older than the grace period, and nothing else. It never raises, the budget goes down by at most
  one for each of them and not below zero, and the sessions table is left alone.
\<close>

theorem orphan_sweep_refines:
  "sweep E kind now remove items b w =
     attempt_all E kind now remove (filter (due (w_sess w) (orphan_reap_grace_s (cfg E)) now) items) b w \<and>
   (case sweep E kind now remove items b w of (q, w') \<Rightarrow>
     \<exists>b'. q = Inr b' \<and> min b 0 \<le> b' \<and> b' \<le> b \<and>
       b - b' \<le> int (length (filter (due (w_sess w) (orphan_reap_grace_s (cfg E)) now) items)) \<and>
       w_sess w' = w_sess w)"
proof -
  let ?due = "filter (due (w_sess w) (orphan_reap_grace_s (cfg E)) now) items"
  obtain q w' where run: "attempt_all E kind now remove ?due b w = (q, w')" by fastforce
  from attempt_all_run [OF run] show ?thesis by (simp add: sweep_attempts run)
qed

end
