(* ===== verification/Auth.thy ===== *)
theory Auth
  imports SessionResults
begin

text \<open>
  Bearer tokens (\<open>api/auth.py\<close>): authentication, scopes, rotation with its grace window, and the
  bootstrap of the default and the admin tenant. The keyed hash is a parameter. The proofs use
  the tables through the interface \<open>token_store\<close>.
\<close>

section \<open>The authenticator\<close>

definition ADMIN_TENANT_ID :: string where
  "ADMIN_TENANT_ID = ''__admin__''"

record auth_context =
  c_tenant :: string
  c_token :: string
  c_scopes :: "scope list option"
  c_admin :: bool

definition hash_token :: "'x ctx \<Rightarrow> string \<Rightarrow> string" where
  "hash_token E plaintext = o_hash E (token_pepper (cfg E)) plaintext"

definition context_of :: "string \<Rightarrow> string \<Rightarrow> scope list option \<Rightarrow> auth_context" where
  "context_of token_id tenant_id scopes =
     \<lparr>c_tenant = tenant_id, c_token = token_id, c_scopes = scopes,
      c_admin = (tenant_id = ADMIN_TENANT_ID)\<rparr>"

definition authenticate_full :: "'x ctx \<Rightarrow> string \<Rightarrow> ('x, auth_context) W" where
  "authenticate_full E bearer =
     bindM (getsM (\<lambda>w. lookup_token (hash_token E bearer) (w_tokens w))) (\<lambda>row.
     case row of
       None \<Rightarrow> raise Unauthorized
     | Some (token_id, tenant_id, revoked_at, scopes) \<Rightarrow>
         (case revoked_at of
            None \<Rightarrow> ret (context_of token_id tenant_id scopes)
          | Some at \<Rightarrow>
              bindM (now_ms E) (\<lambda>now.
              if at \<le> now then raise Unauthorized
              else ret (context_of token_id tenant_id scopes))))"

definition authenticate :: "'x ctx \<Rightarrow> string \<Rightarrow> ('x, string) W" where
  "authenticate E bearer = bindM (authenticate_full E bearer) (\<lambda>ctx. ret (c_tenant ctx))"

definition issue_initial_token ::
  "'x ctx \<Rightarrow> string \<Rightarrow> string \<Rightarrow> scope list option \<Rightarrow> string option \<Rightarrow> ('x, string) W" where
  "issue_initial_token E tenant_id plaintext scopes note_text =
     bindM (new_ulid E) (\<lambda>token_id.
     thenM (r_insert_token E token_id tenant_id (hash_token E plaintext) scopes note_text)
           (ret token_id))"

definition rotate_token :: "'x ctx \<Rightarrow> string \<Rightarrow> string \<Rightarrow> ('x, string \<times> int) W" where
  "rotate_token E tenant_id current_token_id =
     bindM (outM (readM (o_secret E))) (\<lambda>plaintext.
     bindM (new_ulid E) (\<lambda>new_id.
     bindM (getsM (\<lambda>w. get_token_by_id current_token_id (w_tokens w))) (\<lambda>existing.
     thenM (r_insert_token E new_id tenant_id (hash_token E plaintext)
        (case existing of None \<Rightarrow> None | Some k \<Rightarrow> k_scopes k)
        (case existing of None \<Rightarrow> None | Some k \<Rightarrow> k_note k))
    (bindM (now_ms E) (\<lambda>now.
     let grace = token_grace_seconds (cfg E) in
     thenM (r_revoke_token current_token_id (now + grace * 1000)) (ret (plaintext, grace)))))))"

definition has_scope :: "auth_context \<Rightarrow> scope \<Rightarrow> bool" where
  "has_scope ctx required =
     (if c_admin ctx then True
      else case c_scopes ctx of None \<Rightarrow> True | Some ss \<Rightarrow> required \<in> set ss)"

definition bootstrap_admin_token :: "'x ctx \<Rightarrow> ('x, unit) W" where
  "bootstrap_admin_token E =
     (if admin_token (cfg E) = [] then ret ()
      else bindM (getsM (\<lambda>w. lookup_token (hash_token E (admin_token (cfg E))) (w_tokens w)))
       (\<lambda>existing.
        if existing \<noteq> None then ret ()
        else thenM (r_create_tenant E ADMIN_TENANT_ID ''admin (synthetic)'' no_limits None)
          (thenM (issue_initial_token E ADMIN_TENANT_ID (admin_token (cfg E)) None
                    (Some ''bootstrap from SANDBOX_ADMIN_TOKEN''))
                 (ret ()))))"

definition bootstrap_default_tenant :: "'x ctx \<Rightarrow> ('x, bool) W" where
  "bootstrap_default_tenant E =
     bindM (getsM (\<lambda>w. count_tenants (w_tenants w))) (\<lambda>n.
     if 0 < n then thenM (bootstrap_admin_token E) (ret False)
     else if api_token (cfg E) = [] then ret False
     else
       thenM (r_create_tenant E ''default'' ''default'' no_limits None)
      (thenM (issue_initial_token E ''default'' (api_token (cfg E)) None None)
      (thenM (bootstrap_admin_token E) (ret True))))"

section \<open>Authentication as a function of the clock\<close>

definition accepts :: "ms \<Rightarrow> string \<Rightarrow> tokens \<Rightarrow> auth_context option" where
  "accepts now h t =
     (case lookup_token h t of
        None \<Rightarrow> None
      | Some (kid, tenant, rv, scopes) \<Rightarrow>
          if (case rv of None \<Rightarrow> True | Some at \<Rightarrow> now < at) then Some (context_of kid tenant scopes)
          else None)"

lemma authenticate_accepts:
  assumes "authenticate_full E bearer w = (r, w')"
  shows "r = (case accepts (fst (o_now E (w_out w))) (hash_token E bearer) (w_tokens w) of
        None \<Rightarrow> Inl Unauthorized | Some ctx \<Rightarrow> Inr ctx)"
    "w_tokens w' = w_tokens w" "w_sess w' = w_sess w" "w_audit w' = w_audit w"
  using assms
  by (auto simp: authenticate_full_def accepts_def bindM_def now_ms_def outM_read
      split: option.splits prod.splits if_splits)

lemma r_insert_token_run:
  assumes "r_insert_token E kid tn h sc nt w = (r, w')"
  shows "(\<exists>ts. r = Inr () \<and> insert_token ts kid tn h sc nt (w_tokens w) = Inr (w_tokens w')) \<or>
    r = Inl IntegrityError \<and> w_tokens w' = w_tokens w"
proof -
  obtain ts x where "o_now E (w_out w) = (ts, x)" by fastforce
  with assms show ?thesis
    by (cases "insert_token ts kid tn h sc nt (w_tokens w)")
      (auto simp: r_insert_token_def bindM_def now_ms_def outM_read tryTable_def insert_token_def
        split: if_splits)
qed

lemma token_by_id:
  "tokens_wf t \<Longrightarrow> lookup_token h t = Some (kid, tn, rv, sc) \<Longrightarrow>
    \<exists>k. get_token_by_id kid t = Some k \<and> k_scopes k = sc"
  unfolding lookup_token_def get_token_by_id_def tokens_wf_def
  by (auto dest!: t_get_in dest: t_get_keyed)

lemma rotate_token_run:
  assumes run: "rotate_token E tn kid w = (Inr (plaintext, grace), w')"
    and wf: "tokens_wf (w_tokens w)" and old: "lookup_token h (w_tokens w) = Some (kid, tn0, rv, sc)"
  obtains kid' at where "grace = token_grace_seconds (cfg E)"
    "lookup_token (hash_token E plaintext) (w_tokens w') = Some (kid', tn, None, sc)"
    "lookup_token h (w_tokens w') = Some (kid, tn0, Some at, sc)"
    "\<And>h'' k q. h'' \<noteq> hash_token E plaintext \<Longrightarrow> lookup_token h'' (w_tokens w) = Some (k, q) \<Longrightarrow>
       k \<noteq> kid \<Longrightarrow> lookup_token h'' (w_tokens w') = Some (k, q)"
    "tokens_wf (w_tokens w')"
    "\<exists>x. at = fst (o_now E x) + grace * 1000"
proof -
  obtain p x1 where s: "o_secret E (w_out w) = (p, x1)" by fastforce
  obtain kid' x2 where u: "o_ulid E x1 = (kid', x2)" by fastforce
  let ?w = "w\<lparr>w_out := x2\<rparr>"
  from token_by_id [OF wf old] obtain k where k: "get_token_by_id kid (w_tokens w) = Some k" "k_scopes k = sc"
    by blast
  obtain q w1 where i: "r_insert_token E kid' tn (hash_token E p) sc (k_note k) ?w = (q, w1)" by fastforce
  obtain now x3 where n: "o_now E (w_out w1) = (now, x3)" by fastforce
  from run s u k i have q: "q = Inr ()"
    by (cases q) (auto simp: rotate_token_def bindM_def thenM_def new_ulid_def outM_read)
  from run s u k i q n have res: "plaintext = p" "grace = token_grace_seconds (cfg E)"
    "w' = w1\<lparr>w_out := x3, w_tokens := revoke_token kid (now + grace * 1000) (w_tokens w1)\<rparr>"
    by (auto simp: rotate_token_def bindM_def thenM_def new_ulid_def now_ms_def outM_read Let_def
        r_revoke_token_def)
  from r_insert_token_run [OF i] q obtain ts where
    ins: "insert_token ts kid' tn (hash_token E p) sc (k_note k) (w_tokens w) = Inr (w_tokens w1)" by auto
  show ?thesis
  proof (rule that [of kid' "now + grace * 1000"])
    show "lookup_token (hash_token E plaintext) (w_tokens w') = Some (kid', tn, None, sc)"
      "lookup_token h (w_tokens w') = Some (kid, tn0, Some (now + grace * 1000), sc)"
      using tok.rotate_finds [OF wf old ins, of "now + grace * 1000"] by (simp_all add: res)
    show "\<And>h'' k q. h'' \<noteq> hash_token E plaintext \<Longrightarrow> lookup_token h'' (w_tokens w) = Some (k, q) \<Longrightarrow>
       k \<noteq> kid \<Longrightarrow> lookup_token h'' (w_tokens w') = Some (k, q)"
      using tok.rotate_others [OF wf ins] by (simp add: res)
    show "tokens_wf (w_tokens w')"
      using insert_token_wf [OF wf ins] by (simp add: res revoke_token_wf)
    show "\<exists>x. now + grace * 1000 = fst (o_now E x) + grace * 1000"
      using n by (metis fst_conv)
  qed (rule res(2))
qed

lemma r_create_tenant_run:
  assumes "r_create_tenant E tid nm l eg w = (r, w')"
  shows "r = Inr () \<and> w_tokens w' = w_tokens w \<and>
    (\<exists>ts. w_tenants w' = create_tenant ts tid nm l eg (w_tenants w))"
proof -
  obtain ts x where "o_now E (w_out w) = (ts, x)" by fastforce
  with assms have "r = Inr ()" "w_tokens w' = w_tokens w"
    "w_tenants w' = create_tenant ts tid nm l eg (w_tenants w)"
    by (auto simp: r_create_tenant_def bindM_def now_ms_def outM_read)
  then show ?thesis by blast
qed

lemma r_insert_token_tenants: "r_insert_token E kid tn h sc nt w = (r, w') \<Longrightarrow> w_tenants w' = w_tenants w"
  by (auto simp: r_insert_token_def bindM_def now_ms_def outM_read tryTable_def insert_token_def
      split: prod.splits if_splits)

lemma issue_initial_token_run:
  assumes "issue_initial_token E tn plaintext sc nt w = (Inr kid, w')"
  shows "w_tenants w' = w_tenants w \<and>
    (\<exists>ts. insert_token ts kid tn (hash_token E plaintext) sc nt (w_tokens w) = Inr (w_tokens w'))"
proof -
  obtain i x where u: "o_ulid E (w_out w) = (i, x)" by fastforce
  obtain q w1 where r: "r_insert_token E i tn (hash_token E plaintext) sc nt (w\<lparr>w_out := x\<rparr>) = (q, w1)"
    by fastforce
  from assms u r have "q = Inr ()" "kid = i" "w' = w1"
    by (auto simp: issue_initial_token_def bindM_def thenM_def new_ulid_def outM_read split: sum.splits)
  with r_insert_token_run [OF r] r_insert_token_tenants [OF r] show ?thesis by auto
qed

lemma create_tenant_count: "0 < count_tenants (create_tenant ts tid nm l eg t)"
  by (auto simp: count_tenants_def create_tenant_def t_get_None)

text \<open>What the admin bootstrap leaves: the admin token is known, and no other token is lost.\<close>

lemma bootstrap_admin_run:
  assumes "bootstrap_admin_token E w = (Inr u, w')" "tokens_wf (w_tokens w)"
  shows "(admin_token (cfg E) = [] \<or> lookup_token (hash_token E (admin_token (cfg E))) (w_tokens w') \<noteq> None) \<and>
    (\<forall>h q. lookup_token h (w_tokens w) = Some q \<longrightarrow> lookup_token h (w_tokens w') = Some q) \<and>
    tokens_wf (w_tokens w') \<and> (0 < count_tenants (w_tenants w) \<longrightarrow> 0 < count_tenants (w_tenants w'))"
proof (cases "admin_token (cfg E) = [] \<or> lookup_token (hash_token E (admin_token (cfg E))) (w_tokens w) \<noteq> None")
  case True
  then have "w' = w" using assms(1) by (auto simp: bootstrap_admin_token_def split: if_splits)
  with True assms(2) show ?thesis by auto
next
  case False
  obtain q w1 where c: "r_create_tenant E ADMIN_TENANT_ID ''admin (synthetic)'' no_limits None w = (q, w1)"
    by fastforce
  note c1 = r_create_tenant_run [OF c]
  from assms(1) False c c1 obtain kid where
    i: "issue_initial_token E ADMIN_TENANT_ID (admin_token (cfg E)) None
      (Some ''bootstrap from SANDBOX_ADMIN_TOKEN'') w1 = (Inr kid, w')"
    by (auto simp: bootstrap_admin_token_def thenM_def bindM_def split: prod.splits sum.splits)
  from issue_initial_token_run [OF i] c1 obtain ts where
    ins: "insert_token ts kid ADMIN_TENANT_ID (hash_token E (admin_token (cfg E))) None
      (Some ''bootstrap from SANDBOX_ADMIN_TOKEN'') (w_tokens w) = Inr (w_tokens w')" by auto
  have "lookup_token h (w_tokens w') = Some q" if "lookup_token h (w_tokens w) = Some q" for h q
    using tok.find_add [OF assms(2) ins, of h] tok.add_fresh [OF assms(2) ins] that by auto
  moreover have "0 < count_tenants (w_tenants w')"
    using issue_initial_token_run [OF i] c1 create_tenant_count by auto
  ultimately show ?thesis
    using tok.find_add [OF assms(2) ins] insert_token_wf [OF assms(2) ins] by auto
qed

section \<open>Properties\<close>

text \<open>
  C26: a rotation that returns issues a token that is accepted at once, for the same tenant the
  caller names and with exactly the scopes of the old token; the old token is accepted until the
  grace period after the rotation is over and never afterwards; all other tokens are accepted as
  before.
\<close>

theorem rotation_window:
  assumes "rotate_token E tn kid w = (Inr (plaintext, grace), w')" "tokens_wf (w_tokens w)"
    and "lookup_token h (w_tokens w) = Some (kid, tn0, rv, sc)"
  shows "\<exists>kid' x. grace = token_grace_seconds (cfg E) \<and>
    (\<forall>now. accepts now (hash_token E plaintext) (w_tokens w') = Some (context_of kid' tn sc) \<and>
      accepts now h (w_tokens w') =
        (if now < fst (o_now E x) + grace * 1000 then Some (context_of kid tn0 sc) else None) \<and>
      (\<forall>h'' k q. h'' \<noteq> hash_token E plaintext \<longrightarrow> lookup_token h'' (w_tokens w) = Some (k, q) \<longrightarrow>
        k \<noteq> kid \<longrightarrow> accepts now h'' (w_tokens w') = accepts now h'' (w_tokens w)))"
  using assms
proof (rule rotate_token_run)
  fix kid' at
  assume new: "grace = token_grace_seconds (cfg E)"
      "lookup_token (hash_token E plaintext) (w_tokens w') = Some (kid', tn, None, sc)"
      "lookup_token h (w_tokens w') = Some (kid, tn0, Some at, sc)"
    and others: "\<And>h'' k q. h'' \<noteq> hash_token E plaintext \<Longrightarrow> lookup_token h'' (w_tokens w) = Some (k, q) \<Longrightarrow>
       k \<noteq> kid \<Longrightarrow> lookup_token h'' (w_tokens w') = Some (k, q)"
    and "\<exists>x. at = fst (o_now E x) + grace * 1000"
  then obtain x where "at = fst (o_now E x) + grace * 1000" by blast
  with new others show ?thesis
    by (intro exI [of _ kid'] exI [of _ x]) (auto simp: accepts_def)
qed

definition demo_tokens :: tokens where
  "demo_tokens = [\<lparr>k_id = ''k1'', k_tenant = ''t1'', k_hash = ''#secret'', k_issued = 1,
     k_revoked = None, k_scopes = Some [File_read], k_note = None\<rparr>]"

lemma rotation_window_witness:
  "\<exists>p g w' c. rotate_token (testbed default_settings) ''t1'' ''k1''
        ((start_world tb_start)\<lparr>w_tokens := demo_tokens\<rparr>) = (Inr (p, g), w') \<and>
     accepts c ''#secret'' (w_tokens w') = None \<and>
     accepts (c - 1) ''#secret'' (w_tokens w') = Some (context_of ''k1'' ''t1'' (Some [File_read]))"
proof -
  let ?E = "testbed default_settings" and ?w = "(start_world tb_start)\<lparr>w_tokens := demo_tokens\<rparr>"
  have wf: "tokens_wf (w_tokens ?w)" by (simp add: tokens_wf_def keyed_def demo_tokens_def)
  have old: "lookup_token ''#secret'' (w_tokens ?w) = Some (''k1'', ''t1'', None, Some [File_read])"
    by (simp add: lookup_token_def demo_tokens_def)
  have "\<exists>p g w'. rotate_token ?E ''t1'' ''k1'' ?w = (Inr (p, g), w')"
    by (simp add: rotate_token_def bindM_def thenM_def new_ulid_def now_ms_def outM_read testbed_def
        tb_start_def tb_fresh_def get_token_by_id_def demo_tokens_def r_insert_token_def tryTable_def
        insert_token_def hash_token_def default_settings_def start_world_def Let_def r_revoke_token_def)
  then obtain p g w' where run: "rotate_token ?E ''t1'' ''k1'' ?w = (Inr (p, g), w')" by blast
  from rotation_window [OF run wf old] obtain x where
    "\<forall>now. accepts now ''#secret'' (w_tokens w') = (if now < fst (o_now ?E x) + g * 1000
       then Some (context_of ''k1'' ''t1'' (Some [File_read])) else None)" by blast
  then have "accepts (fst (o_now ?E x) + g * 1000) ''#secret'' (w_tokens w') = None"
    "accepts (fst (o_now ?E x) + g * 1000 - 1) ''#secret'' (w_tokens w') =
       Some (context_of ''k1'' ''t1'' (Some [File_read]))" by simp_all
  with run show ?thesis by blast
qed

text \<open>
  Revoking all tokens of a tenant locks out every one of them from that moment on, and changes
  nothing for the tokens of other tenants.
\<close>

theorem revoke_all_locks_out:
  assumes "ts \<le> now"
  shows "case accepts now h (snd (revoke_all_tenant_tokens ts tenant t)) of
      None \<Rightarrow> (case accepts now h t of None \<Rightarrow> True | Some ctx \<Rightarrow> c_tenant ctx = tenant)
    | Some ctx \<Rightarrow> c_tenant ctx \<noteq> tenant \<and> accepts now h t = Some ctx"
proof -
  have "lookup_token h (snd (revoke_all_tenant_tokens ts tenant t)) =
      map_option (\<lambda>(k, tn, rv, sc). (k, tn, if tn = tenant \<and> (case rv of None \<Rightarrow> True | Some at \<Rightarrow> ts < at)
        then Some ts else rv, sc)) (lookup_token h t)"
    by (induction t) (auto simp: lookup_token_def revoke_all_tenant_tokens_def token_active_def)
  then show ?thesis
    using assms by (auto simp: accepts_def context_of_def split: option.splits if_splits)
qed

lemma revoke_all_locks_out_witness:
  "(5::int) \<le> 9 \<and> accepts 9 ''#secret'' demo_tokens \<noteq> None \<and>
   accepts 9 ''#secret'' (snd (revoke_all_tenant_tokens 5 ''t1'' demo_tokens)) = None"
proof -
  have t: "accepts 9 ''#secret'' demo_tokens = Some (context_of ''k1'' ''t1'' (Some [File_read]))"
    by (simp add: accepts_def lookup_token_def demo_tokens_def)
  have "(5::int) \<le> 9" by simp
  from revoke_all_locks_out [OF this, where h = "''#secret''" and tenant = "''t1''" and t = demo_tokens] t show ?thesis
    by (auto simp: context_of_def split: option.splits)
qed

text \<open>
  The bootstrap creates the default tenant only where there is no tenant; afterwards the
  configured API token authenticates with all scopes as that tenant, and running the bootstrap
  again returns \<open>False\<close> and changes neither tenants nor tokens.
\<close>

theorem bootstrap_once:
  assumes "bootstrap_default_tenant E w = (Inr True, w')" "tokens_wf (w_tokens w)"
  shows "count_tenants (w_tenants w) = 0 \<and>
    (\<exists>kid. \<forall>now. accepts now (hash_token E (api_token (cfg E))) (w_tokens w') =
       Some (context_of kid ''default'' None)) \<and>
    (\<exists>w''. bootstrap_default_tenant E w' = (Inr False, w'') \<and> w_tokens w'' = w_tokens w' \<and>
       w_tenants w'' = w_tenants w')"
proof -
  obtain q w1 where c: "r_create_tenant E ''default'' ''default'' no_limits None w = (q, w1)" by fastforce
  note c1 = r_create_tenant_run [OF c]
  from assms(1) c c1 have n: "count_tenants (w_tenants w) = 0"
    and "\<exists>kid w2 u. issue_initial_token E ''default'' (api_token (cfg E)) None None w1 = (Inr kid, w2) \<and>
      bootstrap_admin_token E w2 = (Inr u, w')"
    by (auto simp: bootstrap_default_tenant_def thenM_def bindM_def split: if_splits prod.splits sum.splits)
  then obtain kid w2 u where i: "issue_initial_token E ''default'' (api_token (cfg E)) None None w1 = (Inr kid, w2)"
    and b: "bootstrap_admin_token E w2 = (Inr u, w')" by blast
  from issue_initial_token_run [OF i] c1 obtain ts where
    ins: "insert_token ts kid ''default'' (hash_token E (api_token (cfg E))) None None (w_tokens w) =
      Inr (w_tokens w2)" and ten: "w_tenants w2 = w_tenants w1" by auto
  note wf2 = insert_token_wf [OF assms(2) ins]
  note adm = bootstrap_admin_run [OF b wf2]
  have "lookup_token (hash_token E (api_token (cfg E))) (w_tokens w2) = Some (kid, ''default'', None, None)"
    using tok.find_add [OF assms(2) ins] by simp
  with adm have "\<forall>now. accepts now (hash_token E (api_token (cfg E))) (w_tokens w') =
      Some (context_of kid ''default'' None)" by (auto simp: accepts_def)
  moreover have "0 < count_tenants (w_tenants w2)"
    using ten c1 create_tenant_count by metis
  with adm have "0 < count_tenants (w_tenants w')" by blast
  then have "bootstrap_default_tenant E w' = (Inr False, w')"
    using adm by (auto simp: bootstrap_default_tenant_def bootstrap_admin_token_def thenM_def bindM_def)
  ultimately show ?thesis using n by blast
qed

lemma bootstrap_once_witness:
  "\<exists>w'. bootstrap_default_tenant (testbed (default_settings\<lparr>api_token := ''s3cret'', admin_token := ''adm''\<rparr>))
      (start_world tb_start) = (Inr True, w') \<and>
     (\<exists>kid. accepts 5 ''#s3cret'' (w_tokens w') = Some (context_of kid ''default'' None))"
proof -
  let ?E = "testbed (default_settings\<lparr>api_token := ''s3cret'', admin_token := ''adm''\<rparr>)"
  have "\<exists>w'. bootstrap_default_tenant ?E (start_world tb_start) = (Inr True, w')"
    by (simp add: bootstrap_default_tenant_def bootstrap_admin_token_def issue_initial_token_def
        bindM_def thenM_def new_ulid_def now_ms_def outM_read testbed_def tb_start_def tb_fresh_def
        r_insert_token_def r_create_tenant_def tryTable_def insert_token_def hash_token_def
        default_settings_def start_world_def count_tenants_def create_tenant_def lookup_token_def)
  then obtain w' where run: "bootstrap_default_tenant ?E (start_world tb_start) = (Inr True, w')" by blast
  have "tokens_wf (w_tokens (start_world tb_start))" by (simp add: start_world_def tokens_wf_def)
  from bootstrap_once [OF run this] run show ?thesis
    by (auto simp: hash_token_def testbed_def default_settings_def)
qed

end
