(* ===== verification/Idempotency.thy ===== *)
theory Idempotency
  imports Auth
begin

text \<open>
  The replay of mutating requests under an \<open>Idempotency-Key\<close> (\<open>api/idempotency.py\<close>): the dispatch of
  one request, and the interleavings of several with the same key.
\<close>

section \<open>One request\<close>

record http_request =
  q_method :: string
  q_path :: string
  q_route :: "string option"
  q_key :: "string option"
  q_auth :: string
  q_body :: string

text \<open>
  \<open>hr_replay\<close> is the header \<open>Idempotent-Replay\<close>. \<open>hr_route\<close> is what the application left in the scope of the
  request by the time it answered: the path template of the route, if routing has found one.
\<close>

record http_response =
  hr_status :: int
  hr_body :: string
  hr_ctype :: string
  hr_replay :: bool
  hr_route :: "string option"

definition MUTATING_METHODS :: "string list" where
  "MUTATING_METHODS = [''POST'', ''PUT'', ''PATCH'', ''DELETE'']"

definition cacheable_status :: "int \<Rightarrow> bool" where
  "cacheable_status status \<longleftrightarrow> 200 \<le> status \<and> status < 300"

text \<open>
  \<open>scope.get("route")\<close> is only there once routing has run, which is after the middleware.
\<close>

definition route_template :: "http_request \<Rightarrow> string" where
  "route_template req =
     (case q_route req of None \<Rightarrow> q_path req | Some t \<Rightarrow> if t = [] then q_path req else t)"

definition replay_response :: "int \<Rightarrow> string \<Rightarrow> string \<Rightarrow> http_response" where
  "replay_response status body ctype =
     \<lparr>hr_status = status, hr_body = body, hr_ctype = ctype, hr_replay = True, hr_route = None\<rparr>"

text \<open>The body is represented by its error code.\<close>

definition route_mismatch_response :: http_response where
  "route_mismatch_response =
     \<lparr>hr_status = 409, hr_body = ''idempotency_route_mismatch'', hr_ctype = ''application/json'',
     hr_replay = False, hr_route = None\<rparr>"

definition BEARER :: string where
  "BEARER = ''Bearer ''"

text \<open>Header values are Latin-1, where \<open>str.strip\<close> also takes the next-line and no-break-space characters.\<close>

definition header_space :: "char \<Rightarrow> bool" where
  "header_space c \<longleftrightarrow> is_space c \<or> (of_char c :: nat) \<in> {133, 160}"

definition header_strip :: "string \<Rightarrow> string" where
  "header_strip s = rev (dropWhile header_space (rev (dropWhile header_space s)))"

text \<open>
  The cases in which the middleware steps aside: \<open>None\<close>; otherwise the key and the bearer.
\<close>

definition keyed_request :: "http_request \<Rightarrow> (string \<times> string) option" where
  "keyed_request req =
     (if q_method req \<notin> set MUTATING_METHODS then None
      else case q_key req of
        None \<Rightarrow> None
      | Some k \<Rightarrow>
          if k = [] then None
          else if take (length BEARER) (q_auth req) \<noteq> BEARER then None
          else Some (k, header_strip (drop (length BEARER) (q_auth req))))"

definition lookup_cached :: "'x ctx \<Rightarrow> string \<Rightarrow> string \<Rightarrow> ('x, cached option) W" where
  "lookup_cached E tenant key =
     bindM (now_ms E) (\<lambda>now. getsM (\<lambda>w. lookup_idempotency now tenant key (w_idem w)))"

definition store_cached :: "'x ctx \<Rightarrow> string \<Rightarrow> string \<Rightarrow> cached \<Rightarrow> ('x, unit) W" where
  "store_cached E tenant key c =
     bindM (now_ms E) (\<lambda>ts.
     modifyM (\<lambda>w. w\<lparr>w_idem := store_idempotency ts (idempotency_ttl_s (cfg E)) tenant key c (w_idem w)\<rparr>))"

text \<open>The answer from the cache.\<close>

definition from_cache :: "string \<Rightarrow> cached \<Rightarrow> http_response" where
  "from_cache template c =
     (case c of (route, status, body, ctype) \<Rightarrow>
        if route \<noteq> template then route_mismatch_response else replay_response status body ctype)"

definition EVENT_STREAM :: string where
  "EVENT_STREAM = ''text/event-stream''"

definition is_stream :: "http_response \<Rightarrow> bool" where
  "is_stream resp \<longleftrightarrow> take (length EVENT_STREAM) (hr_ctype resp) = EVENT_STREAM"

text \<open>
  The body is decoded as UTF-8 before it is stored, which raises if it is not; the response sent is
  rebuilt from the same body, status and headers.
\<close>

definition remember :: "'x ctx \<Rightarrow> string \<Rightarrow> string \<Rightarrow> string \<Rightarrow> http_response \<Rightarrow> ('x, http_response) W" where
  "remember E tenant key template resp =
     (if \<not> cacheable_status (hr_status resp) \<or> is_stream resp then ret resp
      else if \<not> utf8 (hr_body resp) then raise ValueError
      else thenM (store_cached E tenant key (template, hr_status resp, hr_body resp, hr_ctype resp))
                 (ret resp))"

text \<open>
  \<open>next\<close> is the application behind the middleware. The lock has no effect on a request that runs
  alone.
\<close>

definition dispatch ::
  "'x ctx \<Rightarrow> (http_request \<Rightarrow> ('x, http_response) W) \<Rightarrow> http_request \<Rightarrow> ('x, http_response) W" where
  "dispatch E next req =
     (case keyed_request req of
        None \<Rightarrow> next req
      | Some (key, bearer) \<Rightarrow>
          bindM (tryM (bindM (authenticate E bearer) (\<lambda>tn. ret (Some tn))) (\<lambda>_. ret None)) (\<lambda>who.
          case who of
            None \<Rightarrow> next req
          | Some tenant \<Rightarrow>
              let template = route_template req in
              bindM (lookup_cached E tenant key) (\<lambda>hit.
              case hit of
                Some c \<Rightarrow> ret (from_cache template c)
              | None \<Rightarrow>
                  bindM (lookup_cached E tenant key) (\<lambda>again.
                  case again of
                    Some c \<Rightarrow> ret (from_cache template c)
                  | None \<Rightarrow> bindM (next req) (remember E tenant key template)))))"

section \<open>Several requests with one key\<close>

text \<open>
  The coroutines of one tenant and key, interleaved at their awaits. A lock is a number; \<open>inflight\<close> is
  the entry of the lock map, \<open>holder\<close> says who holds a lock.
\<close>

datatype pc = Arrived | Missed | Waiting nat | Holding nat | Executing nat | Finishing nat | Popped nat | Answered

record race =
  inflight :: "nat option"
  next_lock :: nat
  holder :: "nat \<Rightarrow> nat option"
  stored :: bool
  completed :: nat
  pcs :: "nat \<Rightarrow> pc"

definition race_start :: race where
  "race_start = \<lparr>inflight = None, next_lock = 0, holder = (\<lambda>_. None), stored = False, completed = 0,
     pcs = (\<lambda>_. Arrived)\<rparr>"

definition goto :: "nat \<Rightarrow> pc \<Rightarrow> race \<Rightarrow> race" where
  "goto i p s = s\<lparr>pcs := (pcs s)(i := p)\<rparr>"

definition grab :: "nat \<Rightarrow> nat option \<Rightarrow> race \<Rightarrow> race" where
  "grab l who s = s\<lparr>holder := (holder s)(l := who)\<rparr>"

text \<open>
  \<open>race_step ok s s'\<close>: one coroutine goes on to its next await. With \<open>ok\<close> every response that the
  application returns is one that is cached. \<open>crash\<close> is an exception of the application, which leaves
  the \<open>async with\<close> but not through \<open>_release_inflight\<close>; nor does \<open>late_hit\<close>, the hit of the second
  lookup.
\<close>

inductive race_step :: "bool \<Rightarrow> race \<Rightarrow> race \<Rightarrow> bool" for ok where
  hit: "pcs s i = Arrived \<Longrightarrow> stored s \<Longrightarrow> race_step ok s (goto i Answered s)"
| miss: "pcs s i = Arrived \<Longrightarrow> \<not> stored s \<Longrightarrow> race_step ok s (goto i Missed s)"
| join: "pcs s i = Missed \<Longrightarrow> inflight s = Some l \<Longrightarrow> race_step ok s (goto i (Waiting l) s)"
| new_lock: "pcs s i = Missed \<Longrightarrow> inflight s = None \<Longrightarrow>
    race_step ok s (goto i (Waiting (next_lock s)) (s\<lparr>inflight := Some (next_lock s), next_lock := Suc (next_lock s)\<rparr>))"
| acquire: "pcs s i = Waiting l \<Longrightarrow> holder s l = None \<Longrightarrow> race_step ok s (goto i (Holding l) (grab l (Some i) s))"
| late_hit: "pcs s i = Holding l \<Longrightarrow> stored s \<Longrightarrow> race_step ok s (goto i Answered (grab l None s))"
| execute: "pcs s i = Holding l \<Longrightarrow> \<not> stored s \<Longrightarrow> race_step ok s (goto i (Executing l) s)"
| store: "pcs s i = Executing l \<Longrightarrow>
    race_step ok s (goto i (Finishing l) (s\<lparr>stored := True, completed := Suc (completed s)\<rparr>))"
| skip: "pcs s i = Executing l \<Longrightarrow> \<not> ok \<Longrightarrow>
    race_step ok s (goto i (Finishing l) (s\<lparr>completed := Suc (completed s)\<rparr>))"
| crash: "pcs s i = Executing l \<Longrightarrow> race_step ok s (goto i Answered (grab l None s))"
| pop: "pcs s i = Finishing l \<Longrightarrow> race_step ok s (goto i (Popped l) (s\<lparr>inflight := None\<rparr>))"
| leave: "pcs s i = Popped l \<Longrightarrow> race_step ok s (goto i Answered (grab l None s))"

definition race_reach :: "bool \<Rightarrow> race \<Rightarrow> bool" where
  "race_reach ok s \<longleftrightarrow> (race_step ok)\<^sup>*\<^sup>* race_start s"

text \<open>
  The same as a function of the schedule: the coroutine that goes on, and how its request is answered
  where it is executing.
\<close>

datatype answer = Cached | Uncached | Crashed

definition race_next :: "nat \<Rightarrow> answer \<Rightarrow> race \<Rightarrow> race option" where
  "race_next i a s =
     (case pcs s i of
        Arrived \<Rightarrow> Some (goto i (if stored s then Answered else Missed) s)
      | Missed \<Rightarrow> Some (case inflight s of
          Some l \<Rightarrow> goto i (Waiting l) s
        | None \<Rightarrow> goto i (Waiting (next_lock s)) (s\<lparr>inflight := Some (next_lock s), next_lock := Suc (next_lock s)\<rparr>))
      | Waiting l \<Rightarrow> if holder s l = None then Some (goto i (Holding l) (grab l (Some i) s)) else None
      | Holding l \<Rightarrow> Some (if stored s then goto i Answered (grab l None s) else goto i (Executing l) s)
      | Executing l \<Rightarrow> Some (case a of
          Cached \<Rightarrow> goto i (Finishing l) (s\<lparr>stored := True, completed := Suc (completed s)\<rparr>)
        | Uncached \<Rightarrow> goto i (Finishing l) (s\<lparr>completed := Suc (completed s)\<rparr>)
        | Crashed \<Rightarrow> goto i Answered (grab l None s))
      | Finishing l \<Rightarrow> Some (goto i (Popped l) (s\<lparr>inflight := None\<rparr>))
      | Popped l \<Rightarrow> Some (goto i Answered (grab l None s))
      | Answered \<Rightarrow> None)"

fun race_run :: "(nat \<times> answer) list \<Rightarrow> race \<Rightarrow> race option" where
  "race_run [] s = Some s"
| "race_run ((i, a) # sched) s = (case race_next i a s of None \<Rightarrow> None | Some s' \<Rightarrow> race_run sched s')"

lemma race_next_step: "race_next i a s = Some s' \<Longrightarrow> (a = Uncached \<Longrightarrow> \<not> ok) \<Longrightarrow> race_step ok s s'"
  by (cases a) (auto simp: race_next_def intro: race_step.intros split: pc.splits option.splits if_splits)

section \<open>At most one execution while responses are cached\<close>

fun lock_of :: "pc \<Rightarrow> nat option" where
  "lock_of (Waiting l) = Some l"
| "lock_of (Holding l) = Some l"
| "lock_of (Executing l) = Some l"
| "lock_of (Finishing l) = Some l"
| "lock_of (Popped l) = Some l"
| "lock_of _ = None"

fun holds :: "pc \<Rightarrow> nat option" where
  "holds (Waiting l) = None"
| "holds p = lock_of p"

fun done_with :: "pc \<Rightarrow> bool" where
  "done_with (Finishing l) = True"
| "done_with (Popped l) = True"
| "done_with _ = False"

fun executing :: "pc \<Rightarrow> bool" where
  "executing (Executing l) = True"
| "executing _ = False"

definition race_inv :: "race \<Rightarrow> bool" where
  "race_inv s \<longleftrightarrow> (\<forall>i l. holds (pcs s i) = Some l \<longrightarrow> holder s l = Some i) \<and>
     (if stored s then completed s = 1 \<and> (\<forall>i. \<not> executing (pcs s i))
      else completed s = 0 \<and> (\<forall>i. \<not> done_with (pcs s i)) \<and>
        (\<forall>i l. lock_of (pcs s i) = Some l \<longrightarrow> inflight s = Some l))"

lemma race_simps [simp]:
  "pcs (goto i p s) = (pcs s)(i := p)" "inflight (goto i p s) = inflight s" "next_lock (goto i p s) = next_lock s"
  "holder (goto i p s) = holder s" "stored (goto i p s) = stored s" "completed (goto i p s) = completed s"
  "pcs (grab l w s) = pcs s" "inflight (grab l w s) = inflight s" "next_lock (grab l w s) = next_lock s"
  "holder (grab l w s) = (holder s)(l := w)" "stored (grab l w s) = stored s" "completed (grab l w s) = completed s"
  by (simp_all add: goto_def grab_def)

lemma race_holds:
  "race_inv s \<Longrightarrow> holds (pcs s i) = Some l \<Longrightarrow> holds (pcs s j) = Some l \<Longrightarrow> j = i"
  unfolding race_inv_def by (metis option.inject)

lemma race_invD:
  assumes "race_inv s"
  shows "holds (pcs s i) = Some l \<Longrightarrow> holder s l = Some i"
    "\<not> stored s \<Longrightarrow> lock_of (pcs s i) = Some l \<Longrightarrow> inflight s = Some l"
    "\<not> stored s \<Longrightarrow> \<not> done_with (pcs s i)" "stored s \<Longrightarrow> \<not> executing (pcs s i)"
  using assms by (auto simp: race_inv_def split: if_splits)

lemma holds_lock: "holds p = Some l \<Longrightarrow> lock_of p = Some l"
  by (cases p) simp_all

lemma executing_once:
  assumes inv: "race_inv s" and "executing (pcs s i)" "executing (pcs s j)"
  shows "j = i"
proof -
  obtain k l where kl: "pcs s i = Executing k" "pcs s j = Executing l"
    using assms(2,3) by (meson executing.elims(2))
  moreover have "\<not> stored s" using race_invD(4) [OF inv] assms(2) by blast
  ultimately have "k = l" using race_invD(2) [OF inv, of i k] race_invD(2) [OF inv, of j l] by simp
  with kl race_holds [OF inv, of i k j] show ?thesis by simp
qed

lemma race_step_inv: "race_step True s s' \<Longrightarrow> race_inv s \<Longrightarrow> race_inv s'"
proof (induction rule: race_step.cases)
  case (store t i l)
  then have inv: "race_inv t" and ex: "executing (pcs t i)" by simp_all
  have "\<not> stored t" using race_invD(4) [OF inv] ex by blast
  with executing_once [OF inv ex] store show ?case by (auto simp: race_inv_def split: if_splits)
next
  case (acquire t i l)
  then have "\<not> stored t \<Longrightarrow> inflight t = Some l" using race_invD(2) [of t i l] by simp
  with acquire show ?case by (auto simp: race_inv_def split: if_splits)
next
  case (execute t i l)
  then have "inflight t = Some l" using race_invD(2) [of t i l] by simp
  with execute show ?case by (auto simp: race_inv_def split: if_splits)
next
  case (new_lock t i)
  have "lock_of (pcs t j) = None" if "\<not> stored t" for j
    using that race_invD(2) [of t j] new_lock by (cases "lock_of (pcs t j)") auto
  with new_lock show ?case by (auto simp: race_inv_def split: if_splits)
next
  case (pop t i l)
  then have "stored t" using race_invD(3) [of t i] by fastforce
  with pop show ?case by (auto simp: race_inv_def split: if_splits)
next
  case (late_hit t i l)
  with race_holds [of t i l] show ?case by (auto simp: race_inv_def split: if_splits)
next
  case (crash t i l)
  with race_holds [of t i l] show ?case by (auto simp: race_inv_def split: if_splits)
next
  case (leave t i l)
  then have "stored t" using race_invD(3) [of t i] by fastforce
  with leave race_holds [of t i l] show ?case by (auto simp: race_inv_def split: if_splits)
qed (auto simp: race_inv_def split: if_splits)

lemma race_inv_start: "race_inv race_start"
  by (simp add: race_inv_def race_start_def)

lemma race_reach_inv: "race_reach True s \<Longrightarrow> race_inv s"
  unfolding race_reach_def
  by (induction rule: rtranclp_induct) (auto intro: race_step_inv race_inv_start)

lemma race_reach_step: "race_reach ok s \<Longrightarrow> race_step ok s s' \<Longrightarrow> race_reach ok s'"
  unfolding race_reach_def by (rule rtranclp.rtrancl_into_rtrancl)

lemma race_reach_start: "race_reach ok race_start"
  by (simp add: race_reach_def)

lemma race_run_reach:
  "race_run sched s = Some s' \<Longrightarrow> race_reach ok s \<Longrightarrow> (Uncached \<in> snd ` set sched \<Longrightarrow> \<not> ok) \<Longrightarrow> race_reach ok s'"
proof (induction sched arbitrary: s)
  case (Cons ia sched)
  obtain i a where ia: "ia = (i, a)" by force
  with Cons(2) obtain t where t: "race_next i a s = Some t" "race_run sched t = Some s'"
    by (auto split: option.splits)
  have "race_step ok s t" by (rule race_next_step [OF t(1)]) (use Cons(4) ia in force)
  with Cons(3) have "race_reach ok t" by (rule race_reach_step)
  then show ?case by (rule Cons(1) [OF t(2)]) (use Cons(4) in auto)
qed simp

section \<open>Replays\<close>

lemma authenticate_run:
  assumes "authenticate E bearer w = (q, w')"
  shows "w_idem w' = w_idem w"
  using assms
  by (auto simp: authenticate_def authenticate_full_def bindM_def now_ms_def outM_read
      split: option.splits prod.splits if_splits)

lemma lookup_cached_run:
  "lookup_cached E tn k w = (case o_now E (w_out w) of (now, x) \<Rightarrow>
     (Inr (lookup_idempotency now tn k (w_idem w)), w\<lparr>w_out := x\<rparr>))"
  by (simp add: lookup_cached_def bindM_def now_ms_def outM_read split: prod.splits)

lemma remember_run:
  assumes "remember E tn k template resp w = (Inr out, w')"
  shows "out = resp \<and> (cacheable_status (hr_status resp) \<and> \<not> is_stream resp \<longrightarrow>
    (\<exists>y t. w_idem w' = store_idempotency (fst (o_now E y)) (idempotency_ttl_s (cfg E)) tn k
       (template, hr_status resp, hr_body resp, hr_ctype resp) t))"
proof -
  obtain ts x where n: "o_now E (w_out w) = (ts, x)" by (cases "o_now E (w_out w)")
  show ?thesis
  proof (cases "cacheable_status (hr_status resp) \<and> \<not> is_stream resp")
    case True
    with assms n have "out = resp \<and> w_idem w' = store_idempotency ts (idempotency_ttl_s (cfg E)) tn k
       (template, hr_status resp, hr_body resp, hr_ctype resp) (w_idem w)"
      by (auto simp: remember_def store_cached_def bindM_def thenM_def now_ms_def outM_read split: if_splits)
    then have "out = resp \<and> w_idem w' = store_idempotency (fst (o_now E (w_out w))) (idempotency_ttl_s (cfg E)) tn k
       (template, hr_status resp, hr_body resp, hr_ctype resp) (w_idem w)" by (simp add: n)
    then show ?thesis by blast
  next
    case False
    with assms show ?thesis by (auto simp: remember_def split: if_splits)
  qed
qed

lemma dispatch_replays:
  assumes k: "keyed_request req = Some (key, bearer)"
    and auth: "authenticate E bearer w = (Inr tn, w1)" and now: "o_now E (w_out w1) = (now, x)"
    and hit: "lookup_idempotency now tn key (w_idem w1) = Some c"
  shows "dispatch E next req w = (Inr (from_cache (route_template req) c), w1\<lparr>w_out := x\<rparr>)"
  using assms by (simp add: dispatch_def bindM_def tryM_def lookup_cached_run Let_def)

lemma dispatch_stores:
  assumes k: "keyed_request req = Some (key, bearer)"
    and auth: "authenticate E bearer w = (Inr tn, w1)"
    and run: "dispatch E next req w = (Inr out, w')" and fresh: "\<not> hr_replay out" "cacheable_status (hr_status out)"
    and "\<not> is_stream out"
  shows "\<exists>y t. w_idem w' = store_idempotency (fst (o_now E y)) (idempotency_ttl_s (cfg E)) tn key
    (route_template req, hr_status out, hr_body out, hr_ctype out) t"
proof -
  have hit: "\<not> (\<exists>c. out = from_cache (route_template req) c)"
    using fresh by (auto simp: from_cache_def replay_response_def route_mismatch_response_def cacheable_status_def)
  from run k auth hit obtain resp v where "remember E tn key (route_template req) resp v = (Inr out, w')"
    by (auto simp: dispatch_def bindM_def tryM_def lookup_cached_run Let_def split: prod.splits option.splits sum.splits)
  from remember_run [OF this] fresh assms(6) show ?thesis by auto
qed

definition overlap :: "(nat \<times> answer) list" where
  "overlap = map (\<lambda>i. (i, Uncached)) [0, 0, 0, 0, 1, 1, 0, 0, 2, 2, 2, 2, 0, 1, 1]"

section \<open>Properties\<close>

text \<open>
  A request that was answered with a cacheable response is answered again from the cache: while
  the stored row is not expired, the same request of the same tenant gets the same status, body and
  content type, marked as a replay, and the application behind the middleware is not called,
  whatever it would do.
\<close>

theorem retry_is_replayed:
  assumes "keyed_request req = Some (key, bearer)" "authenticate E bearer w = (Inr tn, w1)"
    and "dispatch E next req w = (Inr out, w')"
    and "\<not> hr_replay out" "cacheable_status (hr_status out)" "\<not> is_stream out"
  shows "\<exists>y. \<forall>v next' now x. w_idem v = w_idem w' \<longrightarrow> fst (authenticate E bearer v) = Inr tn \<longrightarrow>
    o_now E (w_out (snd (authenticate E bearer v))) = (now, x) \<longrightarrow>
    now < fst (o_now E y) + idempotency_ttl_s (cfg E) * 1000 \<longrightarrow>
    dispatch E next' req v =
      (Inr (out\<lparr>hr_replay := True, hr_route := None\<rparr>), (snd (authenticate E bearer v))\<lparr>w_out := x\<rparr>)"
proof -
  from dispatch_stores [OF assms] obtain y t where
    st: "w_idem w' = store_idempotency (fst (o_now E y)) (idempotency_ttl_s (cfg E)) tn key
      (route_template req, hr_status out, hr_body out, hr_ctype out) t" by blast
  show ?thesis
  proof (intro exI [of _ y] allI impI)
    fix v next' now x
    assume v: "w_idem v = w_idem w'" "fst (authenticate E bearer v) = Inr tn"
      and n: "o_now E (w_out (snd (authenticate E bearer v))) = (now, x)"
        "now < fst (o_now E y) + idempotency_ttl_s (cfg E) * 1000"
    obtain v1 where a: "authenticate E bearer v = (Inr tn, v1)" using v(2) by (metis prod.collapse)
    have "lookup_idempotency now tn key (w_idem v1) =
        Some (route_template req, hr_status out, hr_body out, hr_ctype out)"
      unfolding authenticate_run [OF a] v(1) st by (rule idem.replay_within_ttl [OF n(2)])
    from dispatch_replays [OF assms(1) a _ this] n(1) a
    show "dispatch E next' req v = (Inr (out\<lparr>hr_replay := True, hr_route := None\<rparr>), (snd (authenticate E bearer v))\<lparr>w_out := x\<rparr>)"
      by (simp add: from_cache_def replay_response_def)
  qed
qed

definition demo_request :: http_request where
  "demo_request = \<lparr>q_method = ''POST'', q_path = ''/v1/sessions'', q_route = None, q_key = Some ''k'',
     q_auth = ''Bearer secret'', q_body = []\<rparr>"

definition demo_response :: http_response where
  "demo_response = \<lparr>hr_status = 201, hr_body = ''{}'', hr_ctype = ''application/json'', hr_replay = False, hr_route = None\<rparr>"

theorem retry_is_replayed_witness:
  "let E = testbed default_settings; w = (start_world tb_start)\<lparr>w_tokens := demo_tokens\<rparr>;
       go = dispatch E (\<lambda>_. ret demo_response) demo_request w
   in fst go = Inr demo_response \<and> (\<exists>y. \<forall>v next' now x. w_idem v = w_idem (snd go) \<longrightarrow>
     fst (authenticate E ''secret'' v) = Inr ''t1'' \<longrightarrow>
     o_now E (w_out (snd (authenticate E ''secret'' v))) = (now, x) \<longrightarrow>
     now < fst (o_now E y) + idempotency_ttl_s (cfg E) * 1000 \<longrightarrow>
     dispatch E next' demo_request v =
       (Inr (demo_response\<lparr>hr_replay := True, hr_route := None\<rparr>), (snd (authenticate E ''secret'' v))\<lparr>w_out := x\<rparr>))"
proof -
  let ?E = "testbed default_settings" and ?w = "(start_world tb_start)\<lparr>w_tokens := demo_tokens\<rparr>"
  have key: "keyed_request demo_request = Some (''k'', ''secret'')"
    by (simp add: keyed_request_def demo_request_def MUTATING_METHODS_def BEARER_def header_strip_def
        header_space_def is_space_def)
  have a: "authenticate ?E ''secret'' ?w = (Inr ''t1'', ?w)"
    by (simp add: authenticate_def authenticate_full_def bindM_def hash_token_def testbed_def default_settings_def
        lookup_token_def demo_tokens_def context_of_def)
  obtain q v where run: "dispatch ?E (\<lambda>_. ret demo_response) demo_request ?w = (q, v)"
    by fastforce
  have none: "lookup_cached ?E ''t1'' ''k'' ?w = (Inr None, ?w)"
    by (simp add: lookup_cached_run testbed_def start_world_def lookup_idempotency_def)
  have ok: "utf8 (hr_body demo_response)" "cacheable_status (hr_status demo_response)" "\<not> is_stream demo_response"
    by (simp_all add: demo_response_def utf8.simps(2) followers_def cacheable_status_def is_stream_def EVENT_STREAM_def)
  have clock: "o_now ?E x = (tb_clock x, x)" for x by (simp add: testbed_def)
  have q: "q = Inr demo_response"
    using run unfolding dispatch_def key
    by (simp add: bindM_def tryM_def a none remember_def ok store_cached_def thenM_def now_ms_def
        outM_read Let_def clock)
  show ?thesis
    unfolding Let_def run fst_conv snd_conv q
    by (intro conjI refl retry_is_replayed [OF key a run [unfolded q]])
      (simp_all add: demo_response_def cacheable_status_def is_stream_def EVENT_STREAM_def)
qed


definition one_run :: "(nat \<times> answer) list" where
  "one_run = map (\<lambda>i. (i, Cached)) [0, 0, 0, 0, 1, 1, 0, 0, 0, 1, 1]"

lemma one_run_state:
  "case race_run one_run race_start of None \<Rightarrow> False | Some s \<Rightarrow> completed s = 1 \<and> pcs s 1 = Answered"
  by (simp add: one_run_def race_next_def race_start_def goto_def grab_def)


text \<open>
  The lock does not carry that over to responses that are not cached (an error, an event
  stream): it is dropped from the map before the request that waits for it has run, a newcomer gets a
  fresh one, and the two requests with the same key execute at the same time.
\<close>

theorem uncached_requests_overlap:
  "\<exists>s. race_run overlap race_start = Some s \<and> race_reach False s \<and>
     executing (pcs s 1) \<and> executing (pcs s 2)"
proof -
  have "case race_run overlap race_start of None \<Rightarrow> False | Some s \<Rightarrow> executing (pcs s 1) \<and> executing (pcs s 2)"
    by (simp add: overlap_def race_next_def race_start_def goto_def grab_def)
  then show ?thesis using race_run_reach [OF _ race_reach_start, of overlap _ False] by (auto split: option.splits)
qed

end
