(* ===== verification/Server.thy ===== *)
theory Server
  imports Exec Files Reapers Idempotency
begin

text \<open>
  The HTTP application (\<open>api/server.py\<close>): authentication of a request, one definition per route, the
  start-up sequence, and \<open>serve\<close>, which answers a request. Path, query and body arrive validated by
  the framework; the request and response models are those of \<open>api/models.py\<close>. The middlewares
  in front are in \<open>HttpStack\<close>, the OpenAPI document in \<open>OpenApi\<close>.
\<close>

section \<open>Requests and answers\<close>

record create_tenant_request =
  ct_name :: string
  ct_display :: "string option"
  ct_limits :: "tenant_limits option"
  ct_egress :: "string list option"

record update_tenant_request =
  ut_display :: "string option"
  ut_limits :: "tenant_limits option"
  ut_egress :: "string list option"

record issue_token_request =
  it_scopes :: "scope list option"
  it_note :: "string option"

record session_response =
  sr_id :: string
  sr_status :: status
  sr_tenant :: string
  sr_limits :: limits
  sr_created :: ms
  sr_last :: ms
  sr_idle_stop_at :: "ms option"
  sr_hard_destroy_at :: ms

record tenant_response =
  tr_id :: string
  tr_name :: string
  tr_created :: ms
  tr_limits :: tenant_limits
  tr_egress :: "string list option"
  tr_active :: nat

record issue_token_response =
  ir_token_id :: string
  ir_token :: string
  ir_tenant :: string
  ir_scopes :: "scope list option"
  ir_issued :: ms

record usage_response =
  us_tenant :: string
  us_concurrent :: int
  us_max :: int
  us_workspace :: "int option"
  us_active :: nat

text \<open>
  \<open>A_stream\<close> is an event stream: its status is sent before the first event is asked for, so an
  exception of the generator (\<open>Inl\<close>) only cuts the body short.
\<close>

datatype reply =
    A_alive
  | A_ready bool bool
  | A_session session_response
  | A_nothing
  | A_exec exec_response
  | A_stream "exn + sse_event list"
  | A_file file_answer
  | A_listing "file_entry list"
  | A_content string int
  | A_rotated string int string
  | A_tenant tenant_response
  | A_tenants "tenant_response list"
  | A_tenant_gone string nat nat
  | A_issued issue_token_response
  | A_usage usage_response
  | A_process process_response
  | A_processes "process_response list"
  | A_log "string list"

definition to_response :: "settings \<Rightarrow> session \<Rightarrow> session_response" where
  "to_response S row =
     (case compute_etas row S of (idle, hard) \<Rightarrow>
       \<lparr>sr_id = s_id row, sr_status = s_status row, sr_tenant = s_tenant row, sr_limits = s_limits row,
        sr_created = s_created row, sr_last = s_last row, sr_idle_stop_at = idle, sr_hard_destroy_at = hard\<rparr>)"

section \<open>Authentication of a request\<close>

text \<open>The value of the \<open>Authorization\<close> header, if there is one.\<close>

definition bearer_of :: "string option \<Rightarrow> ('s, exn, string) M" where
  "bearer_of authorization =
     (case authorization of
        None \<Rightarrow> raise Unauthorized
      | Some a \<Rightarrow>
          if take (length BEARER) a \<noteq> BEARER then raise Unauthorized
          else ret (header_strip (drop (length BEARER) a)))"

definition auth :: "'x ctx \<Rightarrow> string option \<Rightarrow> ('x, string) W" where
  "auth E authorization = bindM (bearer_of authorization) (authenticate E)"

definition auth_full :: "'x ctx \<Rightarrow> string option \<Rightarrow> ('x, auth_context) W" where
  "auth_full E authorization = bindM (bearer_of authorization) (authenticate_full E)"

definition require_scope :: "'x ctx \<Rightarrow> scope \<Rightarrow> string option \<Rightarrow> ('x, string) W" where
  "require_scope E sc authorization =
     bindM (auth_full E authorization) (\<lambda>c.
     if \<not> has_scope c sc then raise (ForbiddenScope (scope_name sc)) else ret (c_tenant c))"

definition require_admin :: "'x ctx \<Rightarrow> string option \<Rightarrow> ('x, string) W" where
  "require_admin E authorization =
     (if admin_token (cfg E) = [] then raise (HttpError 503 ''admin_disabled'')
      else bindM (auth_full E authorization) (\<lambda>c.
        if \<not> c_admin c then raise Unauthorized else ret (c_tenant c)))"

definition auth_with_token_id :: "'x ctx \<Rightarrow> string option \<Rightarrow> ('x, string \<times> string) W" where
  "auth_with_token_id E authorization =
     bindM (bearer_of authorization) (\<lambda>token.
     bindM (getsM (\<lambda>w. lookup_token (hash_token E token) (w_tokens w))) (\<lambda>row.
     case row of
       None \<Rightarrow> raise Unauthorized
     | Some (token_id, tenant_id, revoked_at, scopes) \<Rightarrow>
         (case revoked_at of
            None \<Rightarrow> ret (tenant_id, token_id)
          | Some at \<Rightarrow>
              bindM (now_ms E) (\<lambda>now.
              if at \<le> now then raise Unauthorized else ret (tenant_id, token_id)))))"

section \<open>Sessions and execution\<close>

definition readyz :: "'x ctx \<Rightarrow> ('x, reply) W" where
  "readyz E = bindM (outM (health E)) (\<lambda>d. bindM (getsM is_healthy) (\<lambda>a. ret (A_ready d a)))"

definition session_reply :: "'x ctx \<Rightarrow> session \<Rightarrow> ('x, reply) W" where
  "session_reply E row = ret (A_session (to_response (cfg E) row))"

definition create_session_route :: "'x ctx \<Rightarrow> limits option \<Rightarrow> string \<Rightarrow> ('x, reply) W" where
  "create_session_route E lim tenant = bindM (create_session E tenant lim) (session_reply E)"

definition get_session_route :: "'x ctx \<Rightarrow> string \<Rightarrow> string \<Rightarrow> ('x, reply) W" where
  "get_session_route E sid tenant = bindM (get_row sid tenant) (session_reply E)"

definition stop_session_route :: "'x ctx \<Rightarrow> string \<Rightarrow> string \<Rightarrow> ('x, reply) W" where
  "stop_session_route E sid tenant = bindM (stop_session E sid tenant) (session_reply E)"

definition resume_session_route :: "'x ctx \<Rightarrow> string \<Rightarrow> string \<Rightarrow> ('x, reply) W" where
  "resume_session_route E sid tenant = bindM (resume_session E sid tenant) (session_reply E)"

definition destroy_session_route :: "'x ctx \<Rightarrow> string \<Rightarrow> string \<Rightarrow> ('x, reply) W" where
  "destroy_session_route E sid tenant =
     thenM (destroy_session E (destroy_hook E) sid tenant) (ret A_nothing)"

definition exec_session :: "'x ctx \<Rightarrow> string \<Rightarrow> exec_request \<Rightarrow> string \<Rightarrow> ('x, reply) W" where
  "exec_session E sid req tenant = bindM (run_exec E sid tenant req) (\<lambda>y. ret (A_exec y))"

text \<open>\<open>n\<close> is the number of events the client reads before it goes away.\<close>

definition exec_session_stream ::
  "'x ctx \<Rightarrow> string \<Rightarrow> exec_request \<Rightarrow> nat \<Rightarrow> string \<Rightarrow> ('x, reply) W" where
  "exec_session_stream E sid req n tenant =
     thenM (validate_stream_request req)
       (\<lambda>w. case run_stream E sid tenant req n w of (r, w') \<Rightarrow> (Inr (A_stream r), w'))"

section \<open>Files\<close>

definition write_file_route :: "'x ctx \<Rightarrow> string \<Rightarrow> file_write_request \<Rightarrow> string \<Rightarrow> ('x, reply) W" where
  "write_file_route E sid req tenant = bindM (write_file E sid tenant req) (\<lambda>a. ret (A_file a))"

definition write_file_raw :: "'x ctx \<Rightarrow> string \<Rightarrow> string \<Rightarrow> string \<Rightarrow> int \<Rightarrow> string \<Rightarrow> ('x, reply) W" where
  "write_file_raw E sid path body mode tenant =
     bindM (write_raw E sid tenant path body mode) (\<lambda>a. ret (A_file a))"

definition list_files :: "'x ctx \<Rightarrow> string \<Rightarrow> string \<Rightarrow> string \<Rightarrow> ('x, reply) W" where
  "list_files E sid dir tenant = bindM (list_dir E sid tenant dir) (\<lambda>es. ret (A_listing es))"

definition read_file_route :: "'x ctx \<Rightarrow> string \<Rightarrow> string \<Rightarrow> string \<Rightarrow> ('x, reply) W" where
  "read_file_route E sid path tenant =
     bindM (read_file E sid tenant path) (\<lambda>(content, mode). ret (A_content content mode))"

definition delete_file_route :: "'x ctx \<Rightarrow> string \<Rightarrow> string \<Rightarrow> bool \<Rightarrow> string \<Rightarrow> ('x, reply) W" where
  "delete_file_route E sid path recursive tenant =
     thenM (delete_file E sid tenant path recursive) (ret A_nothing)"

section \<open>Processes\<close>

definition start_process_route :: "nat \<Rightarrow> 'x ctx \<Rightarrow> string \<Rightarrow> start_request \<Rightarrow> string \<Rightarrow> ('x, reply) W" where
  "start_process_route fuel E sid req tenant =
     bindM (start_process fuel E sid tenant req) (\<lambda>p. ret (A_process p))"

definition list_processes_route :: "'x ctx \<Rightarrow> string \<Rightarrow> string \<Rightarrow> ('x, reply) W" where
  "list_processes_route E sid tenant =
     bindM (list_session_processes E sid tenant) (\<lambda>ps. ret (A_processes ps))"

definition get_process_route :: "'x ctx \<Rightarrow> string \<Rightarrow> string \<Rightarrow> string \<Rightarrow> ('x, reply) W" where
  "get_process_route E sid pid tenant =
     bindM (get_session_process E sid tenant pid) (\<lambda>p. ret (A_process p))"

definition delete_process_route :: "nat \<Rightarrow> 'x ctx \<Rightarrow> string \<Rightarrow> string \<Rightarrow> string \<Rightarrow> ('x, reply) W" where
  "delete_process_route fuel E sid pid tenant =
     bindM (delete_session_process fuel E sid tenant pid) (\<lambda>p. ret (A_process p))"

text \<open>One server-sent event for each chunk of the log.\<close>

definition QUOTE :: string where
  "QUOTE = [CHR 0x22]"

definition log_frame :: "string \<Rightarrow> string" where
  "log_frame chunk =
     ''event: log'' @ NL @ ''data: {'' @ QUOTE @ ''chunk_b64'' @ QUOTE @ '': '' @ QUOTE @ b64encode chunk @ QUOTE @ ''}'' @
     NL @ NL"

text \<open>
  The frames of what the producer delivers. An exception of the producer is logged and ends the
  stream; a session without a container is one, for the Docker client refuses an empty id.
\<close>

definition log_events :: "'x ctx \<Rightarrow> session \<Rightarrow> process \<Rightarrow> ('x, string list) W" where
  "log_events E ses p =
     (case s_container ses of
        None \<Rightarrow> ret []
      | Some cid \<Rightarrow> bindM (outM (stream_log_lines E cid (p_log p))) (\<lambda>(chunks, err). ret (map log_frame chunks)))"

definition stream_process_logs :: "'x ctx \<Rightarrow> string \<Rightarrow> string \<Rightarrow> string \<Rightarrow> ('x, reply) W" where
  "stream_process_logs E sid pid tenant =
     bindM (get_row sid tenant) (\<lambda>ses.
     bindM (find_process sid tenant pid) (\<lambda>p.
     thenM (bump_activity E sid)
    (bindM (log_events E ses p) (\<lambda>frames. ret (A_log frames)))))"

section \<open>Tenants\<close>

definition rotate_token_route :: "'x ctx \<Rightarrow> string \<times> string \<Rightarrow> ('x, reply) W" where
  "rotate_token_route E auth_pair =
     (case auth_pair of (tenant_id, current_token_id) \<Rightarrow>
        bindM (rotate_token E tenant_id current_token_id) (\<lambda>(plaintext, grace).
        ret (A_rotated plaintext grace tenant_id)))"

definition limits_of :: "tenant \<Rightarrow> tenant_limits" where
  "limits_of t = \<lparr>l_max_concurrency = t_max_concurrency t, l_max_workspace_gib = t_max_workspace_gib t,
     l_max_exec_timeout_s = t_max_exec_timeout_s t\<rparr>"

definition tenant_dict_to_response :: "tenant \<Rightarrow> nat \<Rightarrow> tenant_response" where
  "tenant_dict_to_response t active =
     \<lparr>tr_id = t_id t, tr_name = t_name t, tr_created = t_created t, tr_limits = limits_of t,
      tr_egress = t_egress t, tr_active = active\<rparr>"

definition tenant_event :: "string \<Rightarrow> string \<Rightarrow> json \<Rightarrow> event" where
  "tenant_event kind tenant payload = \<lparr>ev_kind = kind, ev_tenant = tenant, ev_session = None,
     ev_payload = payload, ev_result = ''ok'', ev_duration = None\<rparr>"

definition find_tenant :: "string \<Rightarrow> ('x, tenant option) W" where
  "find_tenant tid = getsM (\<lambda>w. get_tenant_full tid (w_tenants w))"

definition the_tenant :: "string \<Rightarrow> ('x, tenant) W" where
  "the_tenant tid =
     bindM (find_tenant tid) (\<lambda>found.
     case found of None \<Rightarrow> raise (HttpError 404 ''tenant_not_found'') | Some t \<Rightarrow> ret t)"

definition active_tokens :: "'x ctx \<Rightarrow> string \<Rightarrow> ('x, nat) W" where
  "active_tokens E tid =
     bindM (now_ms E) (\<lambda>now. getsM (\<lambda>w. count_active_tokens now tid (w_tokens w)))"

definition create_tenant_route :: "'x ctx \<Rightarrow> create_tenant_request \<Rightarrow> ('x, reply) W" where
  "create_tenant_route E req =
     (let tid = ct_name req in
     bindM (find_tenant tid) (\<lambda>existing.
     if existing \<noteq> None then raise InvalidArgument
     else
       thenM (r_create_tenant E tid
         (case ct_display req of None \<Rightarrow> tid | Some d \<Rightarrow> if d = [] then tid else d)
         (case ct_limits req of None \<Rightarrow> no_limits | Some l \<Rightarrow> l) (ct_egress req))
      (bindM (find_tenant tid) (\<lambda>found.
       bindM (assert_some found) (\<lambda>t.
       thenM (emit E (tenant_event ''tenant.create'' tid (JObj [(''by'', JStr ''admin'')])))
             (ret (A_tenant (tenant_dict_to_response t 0))))))))"

primrec count_each :: "'x ctx \<Rightarrow> tenant list \<Rightarrow> ('x, tenant_response list) W" where
  "count_each E [] = ret []"
| "count_each E (t # ts) =
     bindM (active_tokens E (t_id t)) (\<lambda>n.
     bindM (count_each E ts) (\<lambda>rs. ret (tenant_dict_to_response t n # rs)))"

definition list_tenants_route :: "'x ctx \<Rightarrow> ('x, reply) W" where
  "list_tenants_route E =
     bindM (getsM (\<lambda>w. list_tenants_full (w_tenants w))) (\<lambda>rows.
     bindM (count_each E rows) (\<lambda>entries. ret (A_tenants entries)))"

definition get_tenant_route :: "'x ctx \<Rightarrow> string \<Rightarrow> ('x, reply) W" where
  "get_tenant_route E tid =
     bindM (the_tenant tid) (\<lambda>t.
     bindM (active_tokens E tid) (\<lambda>n. ret (A_tenant (tenant_dict_to_response t n))))"

definition update_tenant_route :: "'x ctx \<Rightarrow> string \<Rightarrow> update_tenant_request \<Rightarrow> ('x, reply) W" where
  "update_tenant_route E tid req =
     thenM (the_tenant tid)
    (thenM (modifyM (\<lambda>w. w\<lparr>w_tenants := update_tenant tid (ut_display req)
        (map_option l_max_concurrency (ut_limits req)) (map_option l_max_workspace_gib (ut_limits req))
        (map_option l_max_exec_timeout_s (ut_limits req)) (map_option Some (ut_egress req)) (w_tenants w)\<rparr>))
    (bindM (find_tenant tid) (\<lambda>found.
     bindM (assert_some found) (\<lambda>t.
     bindM (active_tokens E tid) (\<lambda>n. ret (A_tenant (tenant_dict_to_response t n)))))))"

definition revoke_all :: "'x ctx \<Rightarrow> string \<Rightarrow> ('x, nat) W" where
  "revoke_all E tid =
     bindM (now_ms E) (\<lambda>ts.
     bindM (getsM (\<lambda>w. fst (revoke_all_tenant_tokens ts tid (w_tokens w)))) (\<lambda>n.
     thenM (modifyM (\<lambda>w. w\<lparr>w_tokens := snd (revoke_all_tenant_tokens ts tid (w_tokens w))\<rparr>)) (ret n)))"

text \<open>The sessions of the tenant, one after the other; a failure is logged and not counted.\<close>

definition destroy_one :: "'x ctx \<Rightarrow> string \<Rightarrow> session \<Rightarrow> ('x, nat) W" where
  "destroy_one E tid row =
     (if s_tenant row \<noteq> tid then ret 0
      else tryM (thenM (reap_destroy E (destroy_hook E) row ''tenant_deleted'') (ret 1)) (\<lambda>_. ret 0))"

primrec destroy_each :: "'x ctx \<Rightarrow> string \<Rightarrow> session list \<Rightarrow> ('x, nat) W" where
  "destroy_each E tid [] = ret 0"
| "destroy_each E tid (row # rows) =
     bindM (destroy_one E tid row) (\<lambda>n.
     bindM (destroy_each E tid rows) (\<lambda>m. ret (n + m)))"

definition nat_json :: "nat \<Rightarrow> json" where
  "nat_json n = JInt (int n)"

definition delete_tenant_route :: "'x ctx \<Rightarrow> string \<Rightarrow> ('x, reply) W" where
  "delete_tenant_route E tid =
     thenM (the_tenant tid)
    (bindM (revoke_all E tid) (\<lambda>revoked.
     bindM (getsM (\<lambda>w. list_non_terminal (w_sess w))) (\<lambda>rows.
     bindM (destroy_each E tid rows) (\<lambda>destroyed.
     thenM (modifyM (\<lambda>w. w\<lparr>w_tenants := delete_tenant_row tid (w_tenants w)\<rparr>))
    (thenM (emit E (tenant_event ''tenant.delete'' tid
        (JObj [(''sessions_destroyed'', nat_json destroyed), (''tokens_revoked'', nat_json revoked)])))
           (ret (A_tenant_gone tid destroyed revoked)))))))"

definition scopes_json :: "scope list option \<Rightarrow> json" where
  "scopes_json ss = (case ss of None \<Rightarrow> JNull | Some l \<Rightarrow> JList (map (\<lambda>s. JStr (scope_name s)) l))"

definition issue_token_route :: "'x ctx \<Rightarrow> string \<Rightarrow> issue_token_request \<Rightarrow> ('x, reply) W" where
  "issue_token_route E tid req =
     thenM (the_tenant tid)
    (bindM (outM (readM (o_secret E))) (\<lambda>plaintext.
     bindM (issue_initial_token E tid plaintext (it_scopes req) (it_note req)) (\<lambda>token_id.
     bindM (getsM (\<lambda>w. get_token_by_id token_id (w_tokens w))) (\<lambda>found.
     bindM (assert_some found) (\<lambda>k.
     thenM (emit E (tenant_event ''tenant.token.issue'' tid
        (JObj [(''token_id'', JStr token_id), (''scopes'', scopes_json (it_scopes req)),
          (''note'', opt_json (it_note req))])))
     (ret (A_issued \<lparr>ir_token_id = token_id, ir_token = plaintext, ir_tenant = tid, ir_scopes = k_scopes k,
        ir_issued = k_issued k\<rparr>)))))))"

definition revoke_token_route :: "'x ctx \<Rightarrow> string \<Rightarrow> string \<Rightarrow> ('x, reply) W" where
  "revoke_token_route E tid kid =
     bindM (getsM (\<lambda>w. get_token_by_id kid (w_tokens w))) (\<lambda>info.
     if (case info of None \<Rightarrow> True | Some k \<Rightarrow> k_tenant k \<noteq> tid) then raise (HttpError 404 ''token_not_found'')
     else
       bindM (now_ms E) (\<lambda>now.
       thenM (r_revoke_token kid now)
      (thenM (emit E (tenant_event ''tenant.token.revoke'' tid (JObj [(''token_id'', JStr kid)])))
             (ret A_nothing))))"

text \<open>\<open>tenant.get("max_concurrency") or ...\<close>: a stored zero counts as none.\<close>

definition get_tenant_usage :: "'x ctx \<Rightarrow> string \<Rightarrow> auth_context \<Rightarrow> ('x, reply) W" where
  "get_tenant_usage E tid c =
     (if \<not> c_admin c \<and> c_tenant c \<noteq> tid then raise Unauthorized
      else
        bindM (the_tenant tid) (\<lambda>t.
        bindM (getsM (\<lambda>w. count_concurrent tid (w_sess w))) (\<lambda>concurrent.
        bindM (active_tokens E tid) (\<lambda>n.
        ret (A_usage \<lparr>us_tenant = tid, us_concurrent = concurrent,
          us_max = (case t_max_concurrency t of
              None \<Rightarrow> tenant_max_concurrent (cfg E)
            | Some m \<Rightarrow> if m = 0 then tenant_max_concurrent (cfg E) else m),
          us_workspace = None, us_active = n\<rparr>)))))"

section \<open>The application\<close>

datatype route =
    Healthz
  | Readyz
  | Create_session "limits option"
  | Get_session string
  | Stop_session string
  | Resume_session string
  | Destroy_session string
  | Exec_session string exec_request
  | Exec_stream string exec_request nat
  | Write_file string file_write_request
  | Write_raw string string string int
  | List_files string string
  | Read_file string string
  | Delete_file string string bool
  | Start_process string start_request
  | List_processes string
  | Get_process string string
  | Delete_process string string
  | Process_logs string string
  | Rotate_token
  | Create_tenant create_tenant_request
  | List_tenants
  | Get_tenant string
  | Update_tenant string update_tenant_request
  | Delete_tenant string
  | Issue_token string issue_token_request
  | Revoke_token string string
  | Tenant_usage string

text \<open>The dependency that a route declares.\<close>

datatype guard = Open | Any_token | Scoped scope | Admin | Token_pair | Self

fun guard_of :: "route \<Rightarrow> guard" where
  "guard_of Healthz = Open"
| "guard_of Readyz = Open"
| "guard_of (Create_session l) = Scoped Session_create"
| "guard_of (Get_session sid) = Any_token"
| "guard_of (Stop_session sid) = Any_token"
| "guard_of (Resume_session sid) = Any_token"
| "guard_of (Destroy_session sid) = Scoped Session_destroy"
| "guard_of (Exec_session sid req) = Scoped Exec_scope"
| "guard_of (Exec_stream sid req n) = Scoped Exec_scope"
| "guard_of (Write_file sid req) = Scoped File_write"
| "guard_of (Write_raw sid p b m) = Scoped File_write"
| "guard_of (List_files sid d) = Scoped File_read"
| "guard_of (Read_file sid p) = Scoped File_read"
| "guard_of (Delete_file sid p rec) = Scoped File_delete"
| "guard_of (Start_process sid req) = Scoped Processes_scope"
| "guard_of (List_processes sid) = Scoped Processes_scope"
| "guard_of (Get_process sid pid) = Scoped Processes_scope"
| "guard_of (Delete_process sid pid) = Scoped Processes_scope"
| "guard_of (Process_logs sid pid) = Scoped Processes_scope"
| "guard_of Rotate_token = Token_pair"
| "guard_of (Tenant_usage tid) = Self"
| "guard_of _ = Admin"

text \<open>What a route does for an authenticated tenant, and for an administrator.\<close>

fun tenant_route :: "nat \<Rightarrow> 'x ctx \<Rightarrow> route \<Rightarrow> string \<Rightarrow> ('x, reply) W" where
  "tenant_route fuel E (Create_session l) tenant = create_session_route E l tenant"
| "tenant_route fuel E (Get_session sid) tenant = get_session_route E sid tenant"
| "tenant_route fuel E (Stop_session sid) tenant = stop_session_route E sid tenant"
| "tenant_route fuel E (Resume_session sid) tenant = resume_session_route E sid tenant"
| "tenant_route fuel E (Destroy_session sid) tenant = destroy_session_route E sid tenant"
| "tenant_route fuel E (Exec_session sid req) tenant = exec_session E sid req tenant"
| "tenant_route fuel E (Exec_stream sid req n) tenant = exec_session_stream E sid req n tenant"
| "tenant_route fuel E (Write_file sid req) tenant = write_file_route E sid req tenant"
| "tenant_route fuel E (Write_raw sid p b m) tenant = write_file_raw E sid p b m tenant"
| "tenant_route fuel E (List_files sid d) tenant = list_files E sid d tenant"
| "tenant_route fuel E (Read_file sid p) tenant = read_file_route E sid p tenant"
| "tenant_route fuel E (Delete_file sid p rec) tenant = delete_file_route E sid p rec tenant"
| "tenant_route fuel E (Start_process sid req) tenant = start_process_route fuel E sid req tenant"
| "tenant_route fuel E (List_processes sid) tenant = list_processes_route E sid tenant"
| "tenant_route fuel E (Get_process sid pid) tenant = get_process_route E sid pid tenant"
| "tenant_route fuel E (Delete_process sid pid) tenant = delete_process_route fuel E sid pid tenant"
| "tenant_route fuel E (Process_logs sid pid) tenant = stream_process_logs E sid pid tenant"
| "tenant_route fuel E _ tenant = ret A_alive"

fun admin_route :: "'x ctx \<Rightarrow> route \<Rightarrow> ('x, reply) W" where
  "admin_route E (Create_tenant req) = create_tenant_route E req"
| "admin_route E List_tenants = list_tenants_route E"
| "admin_route E (Get_tenant tid) = get_tenant_route E tid"
| "admin_route E (Update_tenant tid req) = update_tenant_route E tid req"
| "admin_route E (Delete_tenant tid) = delete_tenant_route E tid"
| "admin_route E (Issue_token tid req) = issue_token_route E tid req"
| "admin_route E (Revoke_token tid kid) = revoke_token_route E tid kid"
| "admin_route E _ = ret A_alive"

definition serve :: "nat \<Rightarrow> 'x ctx \<Rightarrow> route \<Rightarrow> string option \<Rightarrow> ('x, reply) W" where
  "serve fuel E rt authorization =
     (case guard_of rt of
        Open \<Rightarrow> (if rt = Readyz then readyz E else ret A_alive)
      | Any_token \<Rightarrow> bindM (auth E authorization) (tenant_route fuel E rt)
      | Scoped sc \<Rightarrow> bindM (require_scope E sc authorization) (tenant_route fuel E rt)
      | Admin \<Rightarrow> thenM (require_admin E authorization) (admin_route E rt)
      | Token_pair \<Rightarrow> bindM (auth_with_token_id E authorization) (rotate_token_route E)
      | Self \<Rightarrow> bindM (auth_full E authorization) (\<lambda>c.
          case rt of Tenant_usage tid \<Rightarrow> get_tenant_usage E tid c | _ \<Rightarrow> ret A_alive))"

section \<open>Start-up\<close>

definition LOOPBACK :: "string list" where
  "LOOPBACK = [''127.0.0.1'', ''localhost'', ''::1'']"

text \<open>
  What \<open>lifespan\<close> does before it serves; the schema is the subject of \<open>Schema\<close>, the background
  loops that it starts are those of \<open>Reapers\<close>.
\<close>

definition startup :: "'x ctx \<Rightarrow> ('x, unit) W" where
  "startup E =
     (if dev_mode (cfg E) \<and> bind_host (cfg E) \<notin> set LOOPBACK then raise RuntimeError
      else if api_token (cfg E) = [] then raise RuntimeError
      else
        thenM (bootstrap_default_tenant E)
       (thenM (outM (ensure_runtime E))
       (bindM (outM (health E)) (\<lambda>up.
        thenM (if up then
                 thenM (outM (ensure_network E))
                   (tryM (thenM (reconcile_on_startup E) (ret ())) (\<lambda>_. ret ()))
               else ret ())
        (if pin_on_activity (cfg E) then ret ()
         else emit E (tenant_event ''config.pin_policy_non_default'' ''__system__''
           (JObj [(''pin_on_activity'', JBool False)])))))))"

end
