(* ===== verification/Tenancy.thy ===== *)
theory Tenancy
  imports Server
begin

text \<open>
  Tenant isolation. Whatever the service does for one tenant leaves the rows of every other tenant
  alone, in every table. The argument is one invariant, \<open>isolated\<close>, that each operation keeps
  when it runs for its tenant; it rests on the lookups being scoped and on processes and their
  session having the same owner.
\<close>

section \<open>The invariant\<close>

definition owners_agree :: "'x world \<Rightarrow> bool" where
  "owners_agree w \<longleftrightarrow> (\<forall>p \<in> set (w_procs w). \<exists>r. get_unscoped (p_session p) (w_sess w) = Some r \<and>
     s_tenant r = p_tenant p)"

definition registry_wf :: "'x world \<Rightarrow> bool" where
  "registry_wf w \<longleftrightarrow> tables_wf w \<and> owners_agree w \<and> tokens_wf (w_tokens w)"

text \<open>What a world holds for everybody but one tenant.\<close>

definition same_for_others :: "string \<Rightarrow> 'x world \<Rightarrow> 'x world \<Rightarrow> bool" where
  "same_for_others tn v w \<longleftrightarrow>
     filter (\<lambda>r. s_tenant r \<noteq> tn) (w_sess w) = filter (\<lambda>r. s_tenant r \<noteq> tn) (w_sess v) \<and>
     filter (\<lambda>p. p_tenant p \<noteq> tn) (w_procs w) = filter (\<lambda>p. p_tenant p \<noteq> tn) (w_procs v) \<and>
     filter (\<lambda>k. k_tenant k \<noteq> tn) (w_tokens w) = filter (\<lambda>k. k_tenant k \<noteq> tn) (w_tokens v) \<and>
     w_tenants w = w_tenants v \<and> w_idem w = w_idem v"

definition isolated :: "string \<Rightarrow> 'x world \<Rightarrow> 'x world \<Rightarrow> bool" where
  "isolated tn v w \<longleftrightarrow> registry_wf w \<and> same_for_others tn v w"

text \<open>No other tenant has a session, or a process, with this identifier.\<close>

definition owned :: "string \<Rightarrow> 'x world \<Rightarrow> string \<Rightarrow> bool" where
  "owned tn v sid \<longleftrightarrow> (\<forall>r \<in> set (w_sess v). s_id r = sid \<longrightarrow> s_tenant r = tn)"

definition owned_process :: "string \<Rightarrow> 'x world \<Rightarrow> string \<Rightarrow> bool" where
  "owned_process tn v pid \<longleftrightarrow> (\<forall>p \<in> set (w_procs v). p_id p = pid \<longrightarrow> p_tenant p = tn)"

named_theorems iso_rules "operations that keep a tenant isolated"

lemma isolated_quiet: "quiet (isolated tn v)" "frame (isolated tn v)"
  by (simp_all add: quiet_def frame_def isolated_def registry_wf_def tables_wf_def owners_agree_def
      same_for_others_def)

lemma isolated_start: "registry_wf w \<Longrightarrow> isolated tn w w"
  by (simp add: isolated_def same_for_others_def)

lemma same_members:
  "filter P xs = filter P ys \<Longrightarrow> (x \<in> set xs \<and> P x) = (x \<in> set ys \<and> P x)"
  by (metis mem_Collect_eq set_filter)

lemma isolated_owned: "isolated tn v w \<Longrightarrow> owned tn w sid = owned tn v sid"
  unfolding isolated_def same_for_others_def owned_def
  using same_members [where P = "\<lambda>r. s_tenant r \<noteq> tn"] by blast

lemma isolated_owned_process: "isolated tn v w \<Longrightarrow> owned_process tn w pid = owned_process tn v pid"
  unfolding isolated_def same_for_others_def owned_process_def
  using same_members [where P = "\<lambda>p. p_tenant p \<noteq> tn"] by blast

section \<open>Lookups find what is owned\<close>

lemma keyed_same: "keyed key t \<Longrightarrow> a \<in> set t \<Longrightarrow> b \<in> set t \<Longrightarrow> key a = key b \<Longrightarrow> a = b"
  by (metis option.inject t_get_keyed)

lemma found_owned:
  assumes "isolated tn v w" "get_session sid tn (w_sess w) = Some r"
  shows "owned tn v sid"
proof -
  have "keyed s_id (w_sess w)" using assms(1) by (simp add: isolated_def registry_wf_def tables_wf_def sessions_wf_def)
  with get_session_found [OF assms(2)] have "owned tn w sid" unfolding owned_def by (metis keyed_same)
  with isolated_owned [OF assms(1)] show ?thesis by simp
qed

lemma tenant_process_owned:
  assumes "isolated tn v w" "p \<in> set (w_procs w)" "p_tenant p = tn"
  shows "owned_process tn v (p_id p)"
proof -
  have "keyed p_id (w_procs w)" using assms(1) by (simp add: isolated_def registry_wf_def tables_wf_def processes_wf_def)
  with assms(2,3) have "owned_process tn w (p_id p)" unfolding owned_process_def by (metis keyed_same)
  with isolated_owned_process [OF assms(1)] show ?thesis by simp
qed

lemma keeps_gets_bind: "(\<And>w. I w \<Longrightarrow> keeps I (f (g w))) \<Longrightarrow> keeps I (bindM (getsM g) f)"
  by (simp add: keeps_def)

lemma keeps_get_row_bind [iso_rules]:
  assumes "\<And>r. owned tn v sid \<Longrightarrow> s_id r = sid \<Longrightarrow> s_tenant r = tn \<Longrightarrow> keeps (isolated tn v) (f r)"
  shows "keeps (isolated tn v) (bindM (get_row sid tn) f)"
proof (rule keepsI)
  fix w assume w: "isolated tn v w"
  show "isolated tn v (snd (bindM (get_row sid tn) f w))"
  proof (cases "get_session sid tn (w_sess w)")
    case None
    with w show ?thesis by (simp add: bindM_def get_row_run)
  next
    case (Some r)
    with assms [OF found_owned [OF w Some]] get_session_found [OF Some] have "keeps (isolated tn v) (f r)" by simp
    with Some w show ?thesis by (simp add: bindM_def get_row_run keepsD)
  qed
qed

lemma get_process_found:
  "get_process sid pid (Some tn) t = Some p \<Longrightarrow> p \<in> set t \<and> p_id p = pid \<and> p_session p = sid \<and> p_tenant p = tn"
proof -
  assume "get_process sid pid (Some tn) t = Some p"
  then obtain ps where "filter (\<lambda>p. p_id p = pid \<and> p_session p = sid \<and> tenant_matches (Some tn) p) t = p # ps"
    by (auto simp: get_process_def split: list.splits)
  then have "p \<in> set (filter (\<lambda>p. p_id p = pid \<and> p_session p = sid \<and> tenant_matches (Some tn) p) t)"
    by (simp only: list.set_intros)
  then show ?thesis by (simp add: tenant_matches_def)
qed

lemma keeps_find_process_bind [iso_rules]:
  assumes "\<And>p. owned_process tn v pid \<Longrightarrow> p_id p = pid \<Longrightarrow> p_tenant p = tn \<Longrightarrow> keeps (isolated tn v) (f p)"
  shows "keeps (isolated tn v) (bindM (find_process sid tn pid) f)"
proof (rule keepsI)
  fix w assume w: "isolated tn v w"
  show "isolated tn v (snd (bindM (find_process sid tn pid) f w))"
  proof (cases "get_process sid pid (Some tn) (w_procs w)")
    case None
    with w show ?thesis by (simp add: bindM_def find_process_def)
  next
    case (Some p)
    from get_process_found [OF this] have p: "p \<in> set (w_procs w)" "p_id p = pid" "p_tenant p = tn" by simp_all
    with tenant_process_owned [OF w p(1,3)] assms have "keeps (isolated tn v) (f p)" by simp
    with Some w show ?thesis by (simp add: bindM_def find_process_def keepsD)
  qed
qed

section \<open>Calls of the registry\<close>

fun op_target :: "sess_op \<Rightarrow> string" where
  "op_target (Op_insert ts sid tenant vol l) = sid"
| "op_target (Op_container sid cid) = sid"
| "op_target (Op_transition ts sid st) = sid"
| "op_target (Op_touch ts sid) = sid"
| "op_target (Op_orphan ts sid) = sid"

fun op_for :: "string \<Rightarrow> sess_op \<Rightarrow> bool" where
  "op_for tn (Op_insert ts sid tenant vol l) \<longleftrightarrow> tenant = tn"
| "op_for tn _ \<longleftrightarrow> True"

lemma filter_t_upd:
  "(\<And>r. r \<in> set t \<Longrightarrow> P r \<Longrightarrow> \<not> Q r \<and> \<not> Q (f r)) \<Longrightarrow> filter Q (t_upd P f t) = filter Q t"
  by (induction t) auto

lemma filter_t_del: "(\<And>r. r \<in> set t \<Longrightarrow> P r \<Longrightarrow> \<not> Q r) \<Longrightarrow> filter Q (t_del P t) = filter Q t"
  by (induction t) auto

lemma sess_op_others:
  assumes "apply_sess_op x t = Inr t'" "op_for tn x" "\<forall>r \<in> set t. s_id r = op_target x \<longrightarrow> s_tenant r = tn"
  shows "filter (\<lambda>r. s_tenant r \<noteq> tn) t' = filter (\<lambda>r. s_tenant r \<noteq> tn) t"
proof (cases x)
  case Op_insert
  with assms show ?thesis by (auto simp: insert_session_def new_session_def split: if_splits)
next
  case Op_container
  with assms show ?thesis by (auto simp: set_container_def intro!: filter_t_upd)
next
  case Op_transition
  with assms show ?thesis
    by (auto simp: transition_def write_status_def split: option.splits if_splits intro!: filter_t_upd)
next
  case Op_touch
  with assms show ?thesis by (auto simp: touch_activity_def intro!: filter_t_upd)
next
  case Op_orphan
  with assms show ?thesis by (auto simp: transition_orphaned_def intro!: filter_t_upd)
qed

lemma sess_op_owners:
  assumes "owners_agree w" "apply_sess_op x (w_sess w) = Inr t"
  shows "owners_agree (w\<lparr>w_sess := t\<rparr>)"
  unfolding owners_agree_def
proof
  fix p assume "p \<in> set (w_procs (w\<lparr>w_sess := t\<rparr>))"
  with assms(1) obtain r where r: "get_unscoped (p_session p) (w_sess w) = Some r" "s_tenant r = p_tenant p"
    unfolding owners_agree_def by auto
  from apply_sess_op_row [OF assms(2) r(1)] r(2)
  show "\<exists>r. get_unscoped (p_session p) (w_sess (w\<lparr>w_sess := t\<rparr>)) = Some r \<and> s_tenant r = p_tenant p"
    by (auto simp: row_fixed_def)
qed

lemma isolated_op:
  assumes "isolated tn v w" "owned tn v (op_target x)" "op_for tn x" "apply_sess_op x (w_sess w) = Inr t"
  shows "isolated tn v (w\<lparr>w_sess := t\<rparr>)"
proof -
  from isolated_owned [OF assms(1)] assms(2) have "\<forall>r \<in> set (w_sess w). s_id r = op_target x \<longrightarrow> s_tenant r = tn"
    unfolding owned_def by blast
  from sess_op_others [OF assms(4,3) this] sess_op_owners [OF _ assms(4)] apply_sess_op_wf [OF _ assms(4)] assms(1)
  show ?thesis by (simp add: isolated_def registry_wf_def tables_wf_def same_for_others_def)
qed

lemma iso_r_set_container [iso_rules]: "owned tn v sid \<Longrightarrow> keeps (isolated tn v) (r_set_container sid cid)"
  unfolding r_set_container_def
  by (rule keeps_modify) (rule isolated_op [where x = "Op_container sid cid"], simp_all)

lemma iso_r_transition [iso_rules]: "owned tn v sid \<Longrightarrow> keeps (isolated tn v) (r_transition E sid st)"
  unfolding r_transition_def
  by (intro keeps_rules keeps_tryTable isolated_quiet)
    (auto dest!: map_sum_Inr intro: isolated_op [where x = "Op_transition _ _ _"])

lemma iso_r_touch [iso_rules]: "owned tn v sid \<Longrightarrow> keeps (isolated tn v) (r_touch_activity E sid)"
  unfolding r_touch_activity_def
  by (intro keeps_rules keeps_modify isolated_quiet) (auto intro: isolated_op [where x = "Op_touch _ _"])

lemma iso_bump [iso_rules]: "owned tn v sid \<Longrightarrow> keeps (isolated tn v) (bump_activity E sid)"
  unfolding bump_activity_def by (intro keeps_rules iso_rules)

text \<open>A step on the processes table: rows may change or go, but neither their session nor their owner.\<close>

lemma isolated_procs:
  assumes "isolated tn v w" "processes_wf t" "filter (\<lambda>p. p_tenant p \<noteq> tn) t = filter (\<lambda>p. p_tenant p \<noteq> tn) (w_procs w)"
    and "\<And>p. p \<in> set t \<Longrightarrow> \<exists>q \<in> set (w_procs w). p_session q = p_session p \<and> p_tenant q = p_tenant p"
  shows "isolated tn v (w\<lparr>w_procs := t\<rparr>)"
proof -
  have "owners_agree (w\<lparr>w_procs := t\<rparr>)"
    using assms(1,4) unfolding isolated_def registry_wf_def owners_agree_def by fastforce
  with assms(1-3) show ?thesis by (simp add: isolated_def registry_wf_def tables_wf_def same_for_others_def)
qed

lemma isolated_owned_rows:
  "isolated tn v w \<Longrightarrow> owned_process tn v pid \<Longrightarrow> p \<in> set (w_procs w) \<Longrightarrow> p_id p = pid \<Longrightarrow> p_tenant p = tn"
  using isolated_owned_process [of tn v w pid] by (simp add: owned_process_def)

lemma iso_marks [iso_rules]:
  assumes "owned_process tn v pid"
  shows "keeps (isolated tn v) (r_mark_process_exited E pid c)" "keeps (isolated tn v) (r_touch_process_polled E pid)"
    "keeps (isolated tn v) (r_delete_process sid pid)"
proof -
  note rows = isolated_owned_rows [OF _ assms]
  show "keeps (isolated tn v) (r_mark_process_exited E pid c)"
    unfolding r_mark_process_exited_def
  proof (intro keeps_rules keeps_modify isolated_quiet isolated_procs)
    fix ts w assume w: "isolated tn v w"
    show "processes_wf (mark_process_exited ts pid c None (w_procs w))"
      using w by (simp add: isolated_def registry_wf_def tables_wf_def mark_process_exited_wf)
    show "filter (\<lambda>p. p_tenant p \<noteq> tn) (mark_process_exited ts pid c None (w_procs w)) =
        filter (\<lambda>p. p_tenant p \<noteq> tn) (w_procs w)"
      unfolding mark_process_exited_def using rows [OF w] by (intro filter_t_upd) auto
    show "\<exists>q \<in> set (w_procs w). p_session q = p_session p \<and> p_tenant q = p_tenant p"
      if "p \<in> set (mark_process_exited ts pid c None (w_procs w))" for p
      using that by (auto simp: mark_process_exited_def set_t_upd split: if_splits)
  qed
  show "keeps (isolated tn v) (r_touch_process_polled E pid)"
    unfolding r_touch_process_polled_def
  proof (intro keeps_rules keeps_modify isolated_quiet isolated_procs)
    fix ts w assume w: "isolated tn v w"
    show "processes_wf (touch_process_polled ts pid (w_procs w))"
      using w by (simp add: isolated_def registry_wf_def tables_wf_def touch_process_polled_wf)
    show "filter (\<lambda>p. p_tenant p \<noteq> tn) (touch_process_polled ts pid (w_procs w)) =
        filter (\<lambda>p. p_tenant p \<noteq> tn) (w_procs w)"
      unfolding touch_process_polled_def using rows [OF w] by (intro filter_t_upd) auto
    show "\<exists>q \<in> set (w_procs w). p_session q = p_session p \<and> p_tenant q = p_tenant p"
      if "p \<in> set (touch_process_polled ts pid (w_procs w))" for p
      using that by (auto simp: touch_process_polled_def set_t_upd split: if_splits)
  qed
  show "keeps (isolated tn v) (r_delete_process sid pid)"
    unfolding r_delete_process_def
  proof (intro keeps_modify isolated_procs)
    fix w assume w: "isolated tn v w"
    show "processes_wf (delete_process sid pid (w_procs w))"
      using w by (simp add: isolated_def registry_wf_def tables_wf_def delete_process_wf)
    show "filter (\<lambda>p. p_tenant p \<noteq> tn) (delete_process sid pid (w_procs w)) =
        filter (\<lambda>p. p_tenant p \<noteq> tn) (w_procs w)"
      unfolding delete_process_def using rows [OF w] by (intro filter_t_del) auto
    show "\<exists>q \<in> set (w_procs w). p_session q = p_session p \<and> p_tenant q = p_tenant p"
      if "p \<in> set (delete_process sid pid (w_procs w))" for p
      using that by (auto simp: delete_process_def set_t_del)
  qed
qed

section \<open>Sessions\<close>

lemma iso_prims [iso_rules]:
  "keeps (isolated tn v) (outM m)" "keeps (isolated tn v) (emit E ev)" "keeps (isolated tn v) precheck"
  "keeps (isolated tn v) (now_ms E)" "keeps (isolated tn v) (monotonic_ns E)" "keeps (isolated tn v) (new_ulid E)"
  "keeps (isolated tn v) (run_setup E a b c d)" "keeps (isolated tn v) (run_teardown E a b c)"
  "keeps (isolated tn v) (remove_container_of E row)"
  by (intro keeps_rules keeps_out isolated_quiet)+

lemma iso_get_row [iso_rules]: "keeps (isolated tn v) (get_row sid tn)"
  by (rule keeps_get_row)

lemma iso_stop_session [iso_rules]: "keeps (isolated tn v) (stop_session E sid tn)"
  unfolding stop_session_def by (intro iso_rules keeps_rules isolated_quiet)

lemma iso_resume_session [iso_rules]: "keeps (isolated tn v) (resume_session E sid tn)"
  unfolding resume_session_def by (intro iso_rules keeps_rules isolated_quiet)

lemma running_owned:
  assumes "isolated tn v w" "owned tn v sid" "p \<in> set (list_running_processes_unscoped sid (w_procs w))"
  shows "owned_process tn v (p_id p)"
proof -
  from assms(3) have p: "p \<in> set (w_procs w)" "p_session p = sid" by (simp_all add: list_running_processes_unscoped_def)
  with assms(1) obtain r where r: "get_unscoped sid (w_sess w) = Some r" "s_tenant r = p_tenant p"
    unfolding isolated_def registry_wf_def owners_agree_def by blast
  from assms(2) isolated_owned [OF assms(1)] have "owned tn w sid" by simp
  with r have "p_tenant p = tn" unfolding owned_def using get_unscoped_in get_unscoped_id by metis
  with tenant_process_owned [OF assms(1) p(1)] show ?thesis by simp
qed

lemma iso_reap_rows: "(\<And>p. p \<in> set ps \<Longrightarrow> owned_process tn v (p_id p)) \<Longrightarrow> keeps (isolated tn v) (reap_rows E cid ps)"
  by (induction ps) (auto intro!: iso_rules keeps_rules)

lemma iso_destroy_hook [iso_rules]: "owned tn v (s_id row) \<Longrightarrow> keeps (isolated tn v) (destroy_hook E row)"
  unfolding destroy_hook_def reap_session_processes_def
  by (intro keeps_rules keeps_gets_bind iso_reap_rows running_owned)

lemma iso_destroy_locked [iso_rules]:
  "owned tn v (s_id row) \<Longrightarrow> keeps (isolated tn v) (destroy_locked E (destroy_hook E) row reason)"
  unfolding destroy_locked_def by (intro iso_rules keeps_rules)

lemma iso_destroy_session [iso_rules]: "keeps (isolated tn v) (destroy_session E (destroy_hook E) sid tn)"
  unfolding destroy_session_def by (intro iso_rules keeps_rules) simp

text \<open>An insertion that succeeds makes the identifier the tenant's.\<close>

lemma iso_insert_then [iso_rules]:
  assumes "owned tn v sid \<Longrightarrow> keeps (isolated tn v) m"
  shows "keeps (isolated tn v) (thenM (r_insert E sid tn vol l) m)"
proof (rule keepsI)
  fix w assume w: "isolated tn v w"
  obtain ts x where n: "o_now E (w_out w) = (ts, x)" by fastforce
  have wx: "isolated tn v (w\<lparr>w_out := x\<rparr>)" using w isolated_quiet(2) [of tn v] by (simp add: frame_def)
  show "isolated tn v (snd (thenM (r_insert E sid tn vol l) m w))"
  proof (cases "insert_session ts sid tn vol l (w_sess w)")
    case (Inl e)
    with n wx show ?thesis by (simp add: r_insert_def thenM_def bindM_def now_ms_def outM_read tryTable_def)
  next
    case (Inr t)
    then have "owned tn w sid" by (auto simp: owned_def insert_session_def t_get_None split: if_splits)
    with isolated_owned [OF w] have o: "owned tn v sid" by simp
    have "isolated tn v (w\<lparr>w_out := x, w_sess := t\<rparr>)"
      by (rule isolated_op [OF wx, of "Op_insert ts sid tn vol l"]) (simp_all add: o Inr)
    from keepsD [OF assms [OF o] this] n Inr show ?thesis
      by (simp add: r_insert_def thenM_def bindM_def now_ms_def outM_read tryTable_def)
  qed
qed

lemma iso_provision [iso_rules]: "owned tn v sid \<Longrightarrow> keeps (isolated tn v) (provision E sid tn vol l)"
  unfolding provision_def by (intro iso_rules keeps_rules)

lemma iso_rollback [iso_rules]: "owned tn v sid \<Longrightarrow> keeps (isolated tn v) (rollback E sid vol)"
  unfolding rollback_def by (intro iso_rules keeps_rules)

lemma iso_create_session [iso_rules]: "keeps (isolated tn v) (create_session E tn lim)"
  unfolding create_session_def by (intro iso_rules keeps_rules)

section \<open>Execution and files\<close>

lemma iso_prepare_bind [iso_rules]:
  "(\<And>x. owned tn v sid \<Longrightarrow> keeps (isolated tn v) (f x)) \<Longrightarrow>
    keeps (isolated tn v) (bindM (prepare_exec E sid tn req) f)"
  unfolding prepare_exec_def bindM_assoc validate_exec_def by (intro iso_rules keeps_rules)

lemma iso_run_exec [iso_rules]: "keeps (isolated tn v) (run_exec E sid tn req)"
  unfolding run_exec_def encode_stdin_def by (intro iso_rules keeps_rules)

lemma iso_run_stream [iso_rules]: "keeps (isolated tn v) (run_stream E sid tn req n)"
  unfolding run_stream_def validate_stream_request_def by (intro iso_rules keeps_rules)

lemma iso_require_running_bind [iso_rules]:
  "(\<And>x. owned tn v sid \<Longrightarrow> keeps (isolated tn v) (f x)) \<Longrightarrow>
    keeps (isolated tn v) (bindM (require_running E sid tn) f)"
  unfolding require_running_def bindM_assoc by (intro iso_rules keeps_rules)

lemma keeps_check [keeps_rules]: "keeps I (checkM r)"
  by (simp add: keeps_def)

lemma iso_write_resolved [iso_rules]:
  "owned tn v sid \<Longrightarrow> keeps (isolated tn v) (write_resolved E ses tn sid path content mode)"
  unfolding write_resolved_def by (intro iso_rules keeps_rules)

lemma iso_write_file [iso_rules]: "keeps (isolated tn v) (write_file E sid tn req)"
  unfolding write_file_def by (intro iso_rules keeps_rules)

lemma iso_write_raw [iso_rules]: "keeps (isolated tn v) (write_raw E sid tn path content mode)"
  unfolding write_raw_def by (intro iso_rules keeps_rules)

lemma iso_read_file [iso_rules]: "keeps (isolated tn v) (read_file E sid tn path)"
  unfolding read_file_def by (intro iso_rules keeps_rules)

lemma iso_list_dir [iso_rules]: "keeps (isolated tn v) (list_dir E sid tn path)"
  unfolding list_dir_def by (intro iso_rules keeps_rules)

lemma iso_delete_file [iso_rules]: "keeps (isolated tn v) (delete_file E sid tn path rec)"
  unfolding delete_file_def by (intro iso_rules keeps_rules)

section \<open>Processes\<close>

lemma iso_polling [iso_rules]:
  "keeps (isolated tn v) (read_pid_with_retry n E cid path)" "keeps (isolated tn v) (read_exit_code n E cid path)"
  "keeps (isolated tn v) (sigterm_then_sigkill n E cid i g)"
  by (intro keeps_rules isolated_quiet)+

lemma iso_maybe_refresh [iso_rules]:
  "owned_process tn v (p_id row) \<Longrightarrow> keeps (isolated tn v) (maybe_refresh E row sid force)"
  unfolding maybe_refresh_def by (intro iso_rules keeps_rules)

lemma iso_refresh_all: "(\<And>p. p \<in> set ps \<Longrightarrow> owned_process tn v (p_id p)) \<Longrightarrow> keeps (isolated tn v) (refresh_all E sid ps)"
  by (induction ps) (auto intro!: iso_rules keeps_rules)

lemma listed_owned:
  "isolated tn v w \<Longrightarrow> p \<in> set (list_processes sid (Some tn) (w_procs w)) \<Longrightarrow> owned_process tn v (p_id p)"
  by (rule tenant_process_owned) (auto simp: list_processes_def tenant_matches_def)

lemma iso_process_reads [iso_rules]:
  "keeps (isolated tn v) (list_session_processes E sid tn)" "keeps (isolated tn v) (get_session_process E sid tn pid)"
  unfolding list_session_processes_def get_session_process_def
  by (intro iso_rules keeps_gets_bind iso_refresh_all listed_owned, assumption+) (intro iso_rules keeps_rules, simp)

lemma iso_stop_process [iso_rules]: "keeps (isolated tn v) (stop_process n E sid tn pid g)"
  unfolding stop_process_def by (intro iso_rules keeps_rules) simp

lemma iso_tail_logs [iso_rules]: "keeps (isolated tn v) (tail_logs E sid tn pid n)"
  unfolding tail_logs_def by (intro iso_rules keeps_rules)

text \<open>
  A start puts a row under a session; that the session is still there is a second invariant of what
  comes before.
\<close>

definition has_session :: "string \<Rightarrow> 'x world \<Rightarrow> bool" where
  "has_session sid w \<longleftrightarrow> get_unscoped sid (w_sess w) \<noteq> None"

abbreviation isolated_with :: "string \<Rightarrow> 'x world \<Rightarrow> string \<Rightarrow> 'x world \<Rightarrow> bool" where
  "isolated_with tn v sid w \<equiv> isolated tn v w \<and> has_session sid w"

lemma keeps_both: "keeps I m \<Longrightarrow> keeps J m \<Longrightarrow> keeps (\<lambda>w. I w \<and> J w) m"
  by (simp add: keeps_def)

lemma closed_has: "sess_closed (has_session sid)"
proof -
  have "has_session sid (w\<lparr>w_sess := t\<rparr>)"
    if "has_session sid w" "apply_sess_op x (w_sess w) = Inr t" for w :: "'a world" and x t
    using that apply_sess_op_row [OF that(2), of sid] by (auto simp: has_session_def)
  then show ?thesis by (simp add: sess_closed_def quiet_def frame_def has_session_def)
qed

lemma keeps_has_prims:
  "keeps (has_session sid) (r_insert_process p)" "keeps (has_session sid) (bump_activity E i)"
  "keeps (has_session sid) (outM m)" "keeps (has_session sid) (emit E ev)" "keeps (has_session sid) (now_ms E)"
  "keeps (has_session sid) (new_ulid E)" "keeps (has_session sid) (read_pid_with_retry n E cid path)"
  "keeps (has_session sid) (session_to_start E i tn)"
proof -
  note c = closed_has [of sid]
  show "keeps (has_session sid) (r_insert_process p)"
    by (auto simp: keeps_def r_insert_process_run has_session_def split: sum.splits)
  show "keeps (has_session sid) (session_to_start E i tn)" by (rule keeps_session_to_start [OF c])
qed (intro keeps_rules keeps_out closed_has sess_closed_quiet)+

lemma iso_insert_process:
  assumes "owned tn v sid" "p_session p = sid" "p_tenant p = tn" "process_ok p"
  shows "keeps (isolated_with tn v sid) (r_insert_process p)"
proof (rule keepsI)
  fix w assume "isolated_with tn v sid w"
  then have w: "isolated tn v w" and h: "has_session sid w" by simp_all
  show "isolated_with tn v sid (snd (r_insert_process p w))"
  proof (cases "insert_process p (w_procs w)")
    case (Inl e)
    with w h show ?thesis by (simp add: r_insert_process_run)
  next
    case (Inr t)
    then have t: "t = w_procs w @ [p]" "t_get p_id (p_id p) (w_procs w) = None"
      by (auto simp: insert_process_def split: if_splits)
    from h obtain r where r: "get_unscoped sid (w_sess w) = Some r" by (auto simp: has_session_def)
    have "owned tn w sid" using isolated_owned [OF w] assms(1) by simp
    with r have "s_tenant r = tn" unfolding owned_def using get_unscoped_in get_unscoped_id by metis
    with w r t assms have "isolated tn v (w\<lparr>w_procs := t\<rparr>)"
      by (auto simp: isolated_def registry_wf_def tables_wf_def owners_agree_def same_for_others_def
          processes_wf_def keyed_snoc)
    with Inr h show ?thesis by (simp add: r_insert_process_run has_session_def)
  qed
qed

lemma iso_launch: "owned tn v sid \<Longrightarrow> keeps (isolated_with tn v sid) (launch n E sid tn req cid)"
  unfolding launch_def Let_def
  by (intro keeps_bind keeps_then keeps_ret keeps_r_reads keeps_assert iso_insert_process keeps_both iso_rules keeps_has_prims)
    (simp_all add: new_process_def process_ok_def)

lemma iso_session_to_start: "keeps (isolated tn v) (session_to_start E sid tn)"
  unfolding session_to_start_def by (intro iso_rules keeps_rules)

lemma iso_session_to_start_bind:
  assumes "\<And>r. owned tn v sid \<Longrightarrow> keeps (isolated_with tn v sid) (f r)"
  shows "keeps (isolated tn v) (bindM (session_to_start E sid tn) f)"
proof (rule keepsI)
  fix w assume w: "isolated tn v w"
  show "isolated tn v (snd (bindM (session_to_start E sid tn) f w))"
  proof (cases "get_session sid tn (w_sess w)")
    case None
    with w show ?thesis by (simp add: bindM_def session_to_start_def get_row_run)
  next
    case (Some r)
    have "sessions_wf (w_sess w)" using w by (simp add: isolated_def registry_wf_def tables_wf_def)
    from get_session_unscoped [OF this Some] have h: "has_session sid w" by (simp add: has_session_def)
    have "keeps (isolated_with tn v sid) (bindM (session_to_start E sid tn) f)"
      using found_owned [OF w Some]
      by (intro keeps_bind keeps_both iso_session_to_start keeps_has_prims assms)
    from keepsD [OF this, of w] w h show ?thesis by simp
  qed
qed

lemma iso_start_process [iso_rules]: "keeps (isolated tn v) (start_process n E sid tn req)"
  unfolding start_process_def
  by (intro keeps_then keeps_if keeps_raise iso_rules iso_session_to_start_bind keeps_bind [OF keeps_assert]
      keeps_bind [OF keeps_gets] iso_launch)

lemma iso_delete_session_process [iso_rules]: "keeps (isolated tn v) (delete_session_process n E sid tn pid)"
  unfolding delete_session_process_def stop_process_def thenM_def bindM_assoc
  by (intro iso_rules keeps_rules) simp_all

section \<open>Tokens\<close>

text \<open>\<open>auth_with_token_id\<close> repeats \<open>authenticate_full\<close>.\<close>

lemma auth_pair: "auth_with_token_id E a = bindM (auth_full E a) (\<lambda>c. ret (c_tenant c, c_token c))"
proof (rule ext)
  fix w
  have "bindM (getsM (\<lambda>w. lookup_token (hash_token E b) (w_tokens w))) (\<lambda>row. case row of
      None \<Rightarrow> raise Unauthorized
    | Some (token_id, tenant_id, revoked_at, scopes) \<Rightarrow> (case revoked_at of
        None \<Rightarrow> ret (tenant_id, token_id)
      | Some at \<Rightarrow> bindM (now_ms E) (\<lambda>now. if at \<le> now then raise Unauthorized else ret (tenant_id, token_id)))) v =
    bindM (authenticate_full E b) (\<lambda>c. ret (c_tenant c, c_token c)) v" for b v
  proof (cases "lookup_token (hash_token E b) (w_tokens v)")
    case (Some row)
    obtain kid tn rv sc where row: "row = (kid, tn, rv, sc)" by (cases row)
    obtain now x where "o_now E (w_out v) = (now, x)" by fastforce
    then have n: "now_ms E v = (Inr now, v\<lparr>w_out := x\<rparr>)" by (simp add: now_ms_def outM_read)
    from Some row n show ?thesis
      by (cases rv) (simp_all add: authenticate_full_def bindM_def context_of_def)
  qed (simp add: authenticate_full_def bindM_def)
  then show "auth_with_token_id E a w = bindM (auth_full E a) (\<lambda>c. ret (c_tenant c, c_token c)) w"
    unfolding auth_with_token_id_def auth_full_def bindM_assoc
    by (simp add: bearer_of_def bindM_def [of "case a of None \<Rightarrow> raise Unauthorized | Some b \<Rightarrow> _ b"]
        split: option.splits)
qed

lemma isolated_tokens:
  assumes "isolated tn v w" "tokens_wf t" "filter (\<lambda>k. k_tenant k \<noteq> tn) t = filter (\<lambda>k. k_tenant k \<noteq> tn) (w_tokens w)"
  shows "isolated tn v (w\<lparr>w_tokens := t\<rparr>)"
  using assms by (simp add: isolated_def registry_wf_def tables_wf_def owners_agree_def same_for_others_def)

lemma iso_insert_token [iso_rules]: "keeps (isolated tn v) (r_insert_token E kid tn h sc nt)"
proof (rule keepsI)
  fix w assume w: "isolated tn v w"
  obtain ts x where n: "o_now E (w_out w) = (ts, x)" by fastforce
  have wx: "isolated tn v (w\<lparr>w_out := x\<rparr>)" using w isolated_quiet(2) [of tn v] by (simp add: frame_def)
  show "isolated tn v (snd (r_insert_token E kid tn h sc nt w))"
  proof (cases "insert_token ts kid tn h sc nt (w_tokens w)")
    case (Inl e)
    with n wx show ?thesis by (simp add: r_insert_token_def bindM_def now_ms_def outM_read tryTable_def)
  next
    case (Inr t)
    have "tokens_wf t" using w insert_token_wf [OF _ Inr] by (simp add: isolated_def registry_wf_def)
    with Inr have "isolated tn v (w\<lparr>w_out := x, w_tokens := t\<rparr>)"
      by (intro isolated_tokens [OF wx]) (auto simp: insert_token_def split: if_splits)
    with n Inr show ?thesis by (simp add: r_insert_token_def bindM_def now_ms_def outM_read tryTable_def)
  qed
qed

definition owned_token :: "string \<Rightarrow> 'x world \<Rightarrow> string \<Rightarrow> bool" where
  "owned_token tn v kid \<longleftrightarrow> (\<forall>k \<in> set (w_tokens v). k_id k = kid \<longrightarrow> k_tenant k = tn)"

lemma isolated_owned_token: "isolated tn v w \<Longrightarrow> owned_token tn w kid = owned_token tn v kid"
  unfolding isolated_def same_for_others_def owned_token_def
  using same_members [where P = "\<lambda>k. k_tenant k \<noteq> tn"] by blast

lemma iso_revoke_token [iso_rules]: "owned_token tn v kid \<Longrightarrow> keeps (isolated tn v) (r_revoke_token kid at)"
  unfolding r_revoke_token_def
proof (intro keeps_modify isolated_tokens)
  fix w assume o: "owned_token tn v kid" and w: "isolated tn v w"
  show "tokens_wf (revoke_token kid at (w_tokens w))"
    using w by (simp add: revoke_token_wf isolated_def registry_wf_def)
  show "filter (\<lambda>k. k_tenant k \<noteq> tn) (revoke_token kid at (w_tokens w)) = filter (\<lambda>k. k_tenant k \<noteq> tn) (w_tokens w)"
    unfolding revoke_token_def using o isolated_owned_token [OF w] by (intro filter_t_upd) (auto simp: owned_token_def)
qed

lemma iso_rotate [iso_rules]: "owned_token tn v kid \<Longrightarrow> keeps (isolated tn v) (rotate_token E tn kid)"
  unfolding rotate_token_def by (intro iso_rules keeps_rules)

lemma caller_token_owned:
  assumes "registry_wf w" "auth_full E a w = (Inr c, w1)"
  shows "owned_token (c_tenant c) w (c_token c)"
proof -
  from assms(2) obtain b where "authenticate_full E b w = (Inr c, w1)"
    by (auto simp: auth_full_def bearer_of_def bindM_def split: option.splits if_splits)
  from authenticate_accepts(1) [OF this] obtain kid tn rv sc where
    l: "lookup_token (hash_token E b) (w_tokens w) = Some (kid, tn, rv, sc)" and c: "c = context_of kid tn sc"
    by (auto simp: accepts_def split: option.splits prod.splits if_splits)
  then obtain k where k: "k \<in> set (w_tokens w)" "k_id k = kid" "k_tenant k = tn"
    by (auto simp: lookup_token_def dest!: t_get_in)
  moreover have "keyed k_id (w_tokens w)" using assms(1) by (simp add: registry_wf_def tokens_wf_def)
  ultimately show ?thesis unfolding owned_token_def c context_of_def using keyed_same [of k_id] by fastforce
qed

lemma auth_full_frame: "auth_full E a w = (q, w') \<Longrightarrow> \<exists>x. w' = w\<lparr>w_out := x\<rparr>"
proof -
  have [simp]: "\<exists>x. v = v\<lparr>w_out := x\<rparr>" for v :: "'a world" by (rule exI [of _ "w_out v"]) simp
  show "auth_full E a w = (q, w') \<Longrightarrow> \<exists>x. w' = w\<lparr>w_out := x\<rparr>"
    by (auto simp: auth_full_def bearer_of_def authenticate_full_def bindM_def now_ms_def outM_read
        split: option.splits if_splits prod.splits)
qed

section \<open>The routes\<close>

lemma iso_log_events [iso_rules]: "keeps (isolated tn v) (log_events E ses p)"
  unfolding log_events_def by (intro iso_rules keeps_rules)

lemma iso_stream_route [iso_rules]: "keeps (isolated tn v) (exec_session_stream E sid req n tn)"
proof -
  have "keeps (isolated tn v) (\<lambda>w. case run_stream E sid tn req n w of (r, w') \<Rightarrow> (Inr (A_stream r), w'))"
    using iso_run_stream [of tn v E sid req n] by (auto simp: keeps_def split: prod.splits)
  then show ?thesis unfolding exec_session_stream_def validate_stream_request_def by (intro keeps_rules)
qed

lemma iso_session_reply [iso_rules]: "keeps (isolated tn v) (session_reply E row)"
  unfolding session_reply_def by (rule keeps_ret)

lemma iso_tenant_route: "keeps (isolated tn v) (tenant_route n E rt tn)"
  by (cases rt)
    (simp_all add: create_session_route_def get_session_route_def stop_session_route_def resume_session_route_def
      destroy_session_route_def exec_session_def write_file_route_def write_file_raw_def list_files_def read_file_route_def
      delete_file_route_def start_process_route_def list_processes_route_def get_process_route_def
      delete_process_route_def stream_process_logs_def keeps_ret,
      (intro iso_rules keeps_rules)+)

lemma iso_usage: "keeps (isolated tn v) (get_tenant_usage E tid c)"
  unfolding get_tenant_usage_def the_tenant_def find_tenant_def active_tokens_def
  by (intro iso_rules keeps_rules)

section \<open>Requests\<close>

lemma guard_serve:
  assumes "auth_full E a w = (q, w1)"
  shows "guard_of rt = Any_token \<Longrightarrow> serve n E rt a w =
      (case q of Inl e \<Rightarrow> (Inl e, w1) | Inr c \<Rightarrow> tenant_route n E rt (c_tenant c) w1)"
    "guard_of rt = Scoped sc \<Longrightarrow> serve n E rt a w =
      (case q of Inl e \<Rightarrow> (Inl e, w1) | Inr c \<Rightarrow>
        if has_scope c sc then tenant_route n E rt (c_tenant c) w1 else (Inl (ForbiddenScope (scope_name sc)), w1))"
    "guard_of rt = Admin \<Longrightarrow> serve n E rt a w =
      (if admin_token (cfg E) = [] then (Inl (HttpError 503 ''admin_disabled''), w)
       else case q of Inl e \<Rightarrow> (Inl e, w1) | Inr c \<Rightarrow> if c_admin c then admin_route E rt w1 else (Inl Unauthorized, w1))"
    "guard_of rt = Token_pair \<Longrightarrow> serve n E rt a w =
      (case q of Inl e \<Rightarrow> (Inl e, w1) | Inr c \<Rightarrow> rotate_token_route E (c_tenant c, c_token c) w1)"
    "guard_of rt = Self \<Longrightarrow> serve n E rt a w =
      (case q of Inl e \<Rightarrow> (Inl e, w1) | Inr c \<Rightarrow>
        (case rt of Tenant_usage tid \<Rightarrow> get_tenant_usage E tid c w1 | _ \<Rightarrow> (Inr A_alive, w1)))"
proof -
  have auth: "auth E a w = (case q of Inl e \<Rightarrow> (Inl e, w1) | Inr c \<Rightarrow> (Inr (c_tenant c), w1))"
    using assms unfolding auth_def authenticate_def auth_full_def bindM_assoc [symmetric]
    by (simp add: bindM_def split: sum.splits)
  show "guard_of rt = Any_token \<Longrightarrow> serve n E rt a w =
      (case q of Inl e \<Rightarrow> (Inl e, w1) | Inr c \<Rightarrow> tenant_route n E rt (c_tenant c) w1)"
    by (cases q) (simp_all add: serve_def bindM_def auth)
  show "guard_of rt = Scoped sc \<Longrightarrow> serve n E rt a w =
      (case q of Inl e \<Rightarrow> (Inl e, w1) | Inr c \<Rightarrow>
        if has_scope c sc then tenant_route n E rt (c_tenant c) w1 else (Inl (ForbiddenScope (scope_name sc)), w1))"
    using assms by (cases q) (simp_all add: serve_def bindM_def require_scope_def)
  show "guard_of rt = Admin \<Longrightarrow> serve n E rt a w =
      (if admin_token (cfg E) = [] then (Inl (HttpError 503 ''admin_disabled''), w)
       else case q of Inl e \<Rightarrow> (Inl e, w1) | Inr c \<Rightarrow> if c_admin c then admin_route E rt w1 else (Inl Unauthorized, w1))"
    using assms by (cases q) (simp_all add: serve_def bindM_def thenM_def require_admin_def)
  show "guard_of rt = Token_pair \<Longrightarrow> serve n E rt a w =
      (case q of Inl e \<Rightarrow> (Inl e, w1) | Inr c \<Rightarrow> rotate_token_route E (c_tenant c, c_token c) w1)"
    using assms by (cases q) (simp_all add: serve_def bindM_def auth_pair)
  show "guard_of rt = Self \<Longrightarrow> serve n E rt a w =
      (case q of Inl e \<Rightarrow> (Inl e, w1) | Inr c \<Rightarrow>
        (case rt of Tenant_usage tid \<Rightarrow> get_tenant_usage E tid c w1 | _ \<Rightarrow> (Inr A_alive, w1)))"
    using assms by (cases q) (simp_all add: serve_def bindM_def split: route.splits)
qed

section \<open>Deleting a tenant\<close>

lemma keeps_evolved_destroy: "keeps (evolved t) (reap_destroy E (destroy_hook E) row reason)"
proof -
  have "keeps (evolved t) (destroy_hook E r)" for r
    using destroy_hook_safe [of E] unfolding sess_safe_def same_sess_def keeps_def evolved_def by metis
  then show ?thesis by (intro keeps_reap_destroy closed_evolved)
qed

lemma evolved_terminal:
  assumes "evolved t w" "get_unscoped i t = Some r" "terminal (s_status r)"
  shows "\<exists>r'. get_unscoped i (w_sess w) = Some r' \<and> terminal (s_status r')"
proof -
  from assms(1,2) obtain r' where r': "get_unscoped i (w_sess w) = Some r'" "row_step\<^sup>*\<^sup>* (s_status r) (s_status r')"
    unfolding evolved_def by blast
  have "terminal b" if "row_step\<^sup>*\<^sup>* a b" "terminal a" for a b
    using that by (induction rule: rtranclp_induct) (auto simp: terminal_def elim: row_step.cases)
  with r' assms(3) show ?thesis by blast
qed

lemma reap_destroy_terminal:
  assumes "reap_destroy E (destroy_hook E) row reason w = (q, w')" "get_unscoped (s_id row) (w_sess w) = Some r"
  shows "\<exists>r'. get_unscoped (s_id row) (w_sess w') = Some r' \<and> terminal (s_status r')"
  using reap_destroy_run [OF assms(1) destroy_hook_safe] assms(2)
  by (auto simp: moved_to_def split: if_splits)

lemma evolved_keeps_row: "evolved t w \<Longrightarrow> get_unscoped i t = Some r \<Longrightarrow> \<exists>r'. get_unscoped i (w_sess w) = Some r'"
  unfolding evolved_def by blast

lemma iso_reap_destroy [iso_rules]:
  assumes "owned tn v (s_id row)"
  shows "keeps (isolated tn v) (reap_destroy E (destroy_hook E) row reason)"
proof (rule keepsI)
  fix w assume w: "isolated tn v w"
  show "isolated tn v (snd (reap_destroy E (destroy_hook E) row reason w))"
  proof (cases "get_unscoped (s_id row) (w_sess w)")
    case None
    with w show ?thesis by (simp add: reap_destroy_def r_get_unscoped_def)
  next
    case (Some c)
    with assms have "owned tn v (s_id c)" using get_unscoped_id by simp
    with keepsD [OF iso_destroy_locked w] Some w show ?thesis by (simp add: reap_destroy_def r_get_unscoped_def)
  qed
qed

lemma evolved_trans:
  assumes "evolved t w" "evolved (w_sess w) v"
  shows "evolved t v"
  unfolding evolved_def
proof (intro allI impI)
  fix i r assume "get_unscoped i t = Some r"
  with assms(1) obtain r1 where 1: "get_unscoped i (w_sess w) = Some r1" "row_fixed r r1"
    "row_step\<^sup>*\<^sup>* (s_status r) (s_status r1)" unfolding evolved_def by blast
  with assms(2) obtain r2 where 2: "get_unscoped i (w_sess v) = Some r2" "row_fixed r1 r2"
    "row_step\<^sup>*\<^sup>* (s_status r1) (s_status r2)" unfolding evolved_def by blast
  from 1(3) 2(3) have "row_step\<^sup>*\<^sup>* (s_status r) (s_status r2)" by (rule rtranclp_trans)
  with 1(2) 2(1,2) show "\<exists>r'. get_unscoped i (w_sess v) = Some r' \<and> row_fixed r r' \<and>
      row_step\<^sup>*\<^sup>* (s_status r) (s_status r')"
    by (auto simp: row_fixed_def)
qed

lemma destroy_one_run:
  assumes one: "destroy_one E tid row w = (q, w')" and iso: "isolated tid v w"
    and own: "s_tenant row = tid \<Longrightarrow> owned tid v (s_id row)"
  shows "(\<exists>n. q = Inr n \<and> n \<le> 1) \<and> isolated tid v w' \<and> evolved (w_sess w) w' \<and>
    (s_tenant row = tid \<longrightarrow> get_unscoped (s_id row) (w_sess w) \<noteq> None \<longrightarrow>
      (\<exists>r. get_unscoped (s_id row) (w_sess w') = Some r \<and> terminal (s_status r)))"
proof (cases "s_tenant row = tid")
  case True
  obtain q2 w2 where 2: "reap_destroy E (destroy_hook E) row ''tenant_deleted'' w = (q2, w2)" by fastforce
  with one True have w': "w' = w2" and q: "\<exists>n. q = Inr n \<and> n \<le> 1"
    by (auto simp: destroy_one_def tryM_def thenM_def bindM_def split: sum.splits)
  have "isolated tid v w2" using keeps_run [OF iso_reap_destroy [OF own [OF True]] iso 2] .
  moreover have "evolved (w_sess w) w2" using keeps_run [OF keeps_evolved_destroy evolved_start 2] .
  ultimately show ?thesis using q reap_destroy_terminal [OF 2] unfolding w' by blast
next
  case False
  with one have "q = Inr 0" "w' = w" by (simp_all add: destroy_one_def)
  with False iso show ?thesis by (simp add: evolved_start)
qed

lemma destroy_each_run:
  assumes "destroy_each E tid rows w = (q, w')" "isolated tid v w"
    and "\<And>row. row \<in> set rows \<Longrightarrow> s_tenant row = tid \<Longrightarrow> owned tid v (s_id row)"
  shows "(\<exists>n. q = Inr n \<and> n \<le> length rows) \<and> isolated tid v w' \<and> evolved (w_sess w) w' \<and>
    (\<forall>row \<in> set rows. s_tenant row = tid \<longrightarrow> get_unscoped (s_id row) (w_sess w) \<noteq> None \<longrightarrow>
      (\<exists>r. get_unscoped (s_id row) (w_sess w') = Some r \<and> terminal (s_status r)))"
  using assms
proof (induction rows arbitrary: w q w')
  case Nil
  then show ?case by (auto simp: evolved_start)
next
  case (Cons row rows)
  obtain q1 w1 where 1: "destroy_one E tid row w = (q1, w1)" by fastforce
  note one = destroy_one_run [OF 1 Cons.prems(2) Cons.prems(3), simplified]
  from one obtain n where n: "q1 = Inr n" "n \<le> 1" and i1: "isolated tid v w1" and e1: "evolved (w_sess w) w1"
    and t1: "s_tenant row = tid \<longrightarrow> get_unscoped (s_id row) (w_sess w) \<noteq> None \<longrightarrow>
      (\<exists>r. get_unscoped (s_id row) (w_sess w1) = Some r \<and> terminal (s_status r))" by auto
  obtain q3 w3 where 3: "destroy_each E tid rows w1 = (q3, w3)" by fastforce
  from Cons.IH [OF 3 i1] Cons.prems(3) obtain m where m: "q3 = Inr m" "m \<le> length rows"
    and rest: "isolated tid v w3" "evolved (w_sess w1) w3"
      "\<forall>row \<in> set rows. s_tenant row = tid \<longrightarrow> get_unscoped (s_id row) (w_sess w1) \<noteq> None \<longrightarrow>
        (\<exists>r. get_unscoped (s_id row) (w_sess w3) = Some r \<and> terminal (s_status r))"
    by auto
  have out: "q = Inr (n + m)" "w' = w3"
    using Cons.prems(1) 1 3 n m by (simp_all add: bindM_def)
  have "evolved (w_sess w) w3"
    using e1 rest(2) by (rule evolved_trans)
  moreover have "\<exists>r. get_unscoped (s_id x) (w_sess w3) = Some r \<and> terminal (s_status r)"
    if "x \<in> set (row # rows)" "s_tenant x = tid" "get_unscoped (s_id x) (w_sess w) \<noteq> None" for x
  proof (cases "x = row")
    case True
    with t1 that obtain r where "get_unscoped (s_id x) (w_sess w1) = Some r" "terminal (s_status r)" by auto
    with evolved_terminal [OF rest(2)] show ?thesis by blast
  next
    case False
    with that have "x \<in> set rows" by simp
    moreover have "get_unscoped (s_id x) (w_sess w1) \<noteq> None" using evolved_keeps_row [OF e1] that(3) by blast
    ultimately show ?thesis using rest(3) that(2) by blast
  qed
  ultimately show ?case using out n m rest(1) by auto
qed

lemma iso_revoke_all [iso_rules]: "keeps (isolated tn v) (revoke_all E tn)"
  unfolding revoke_all_def
proof (intro iso_rules keeps_rules keeps_modify isolated_tokens)
  fix ts w assume w: "isolated tn v w"
  show "tokens_wf (snd (revoke_all_tenant_tokens ts tn (w_tokens w)))"
    using w by (simp add: revoke_all_wf isolated_def registry_wf_def)
  show "filter (\<lambda>k. k_tenant k \<noteq> tn) (snd (revoke_all_tenant_tokens ts tn (w_tokens w))) =
      filter (\<lambda>k. k_tenant k \<noteq> tn) (w_tokens w)"
    unfolding revoke_all_tenant_tokens_def snd_conv by (intro filter_t_upd) simp
qed

lemma revoke_all_run:
  assumes "revoke_all E tn w = (q, w')"
  obtains ts x where "q = Inr (count_active_tokens ts tn (w_tokens w))"
    "w' = w\<lparr>w_out := x, w_tokens := snd (revoke_all_tenant_tokens ts tn (w_tokens w))\<rparr>"
proof -
  obtain ts x where "o_now E (w_out w) = (ts, x)" by fastforce
  with assms that [of ts x] show ?thesis
    by (auto simp: revoke_all_def bindM_def thenM_def now_ms_def outM_read revoke_all_count)
qed

lemma keeps_hook_frame:
  assumes "frame I" "\<And>w t. I (w\<lparr>w_procs := t\<rparr>) = I w"
  shows "keeps I (destroy_hook E r)"
proof -
  have m: "keeps I (r_mark_process_exited E pid c)" for pid c
    unfolding r_mark_process_exited_def using assms by (intro keeps_rules keeps_modify) simp_all
  have "keeps I (reap_rows E cid ps)" for cid ps
  proof (induction ps)
    case Nil
    show ?case by (simp only: reap_rows.simps keeps_ret)
  next
    case (Cons p ps)
    then show ?case by (simp only: reap_rows.simps) (intro keeps_rules keeps_out m assms(1))
  qed
  then show ?thesis unfolding destroy_hook_def reap_session_processes_def by (intro keeps_rules)
qed

lemma keeps_tokens_destroy: "keeps (\<lambda>w. w_tokens w = c) (destroy_each E tid rows)"
proof -
  have t: "keeps (\<lambda>w. w_tokens w = c) (destroy_hook E r)" for r
    by (rule keeps_hook_frame) (simp_all add: frame_def)
  have one: "keeps (\<lambda>w. w_tokens w = c) (destroy_one E tid r)" for r
    unfolding destroy_one_def by (intro keeps_rules closed_other t)
  show ?thesis
  proof (induction rows)
    case Nil
    show ?case by (simp only: destroy_each.simps keeps_ret)
  next
    case (Cons row rows)
    then show ?case by (simp only: destroy_each.simps) (intro keeps_rules one)
  qed
qed

lemma non_terminal_owned:
  assumes "isolated tn v w" "r \<in> set (w_sess w)" "s_tenant r = tn"
  shows "owned tn v (s_id r)"
proof -
  have "keyed s_id (w_sess w)" using assms(1) by (simp add: isolated_def registry_wf_def tables_wf_def sessions_wf_def)
  with assms(2,3) have "owned tn w (s_id r)" unfolding owned_def using keyed_same [of s_id "w_sess w"] by metis
  with isolated_owned [OF assms(1)] show ?thesis by simp
qed

lemma closed_ids: "sess_closed (\<lambda>w. map s_id (w_sess w) = c)"
proof -
  have "map s_id t' = map s_id t" if "apply_sess_op x t = Inr t'" "\<not> is_insert x" for x t t'
    using that
    by (cases x) (auto simp: set_container_def transition_def write_status_def touch_activity_def
        transition_orphaned_def map_key_t_upd split: option.splits if_splits)
  then show ?thesis by (simp add: sess_closed_def quiet_def frame_def)
qed

lemma keeps_ids_destroy: "keeps (\<lambda>w. map s_id (w_sess w) = c) (destroy_each E tid rows)"
proof -
  have t: "keeps (\<lambda>w. map s_id (w_sess w) = c) (destroy_hook E r)" for r
    by (rule keeps_hook_frame) (simp_all add: frame_def)
  have one: "keeps (\<lambda>w. map s_id (w_sess w) = c) (destroy_one E tid r)" for r
    unfolding destroy_one_def by (intro keeps_rules closed_ids t)
  show ?thesis
  proof (induction rows)
    case Nil
    show ?case by (simp only: destroy_each.simps keeps_ret)
  next
    case (Cons row rows)
    then show ?case by (simp only: destroy_each.simps) (intro keeps_rules one)
  qed
qed

lemma none_left:
  assumes ev: "evolved (w_sess w1) w2" and ids: "map s_id (w_sess w2) = map s_id (w_sess w1)"
    and wf: "sessions_wf (w_sess w1)" "sessions_wf (w_sess w2)"
    and gone: "\<And>r. r \<in> set (w_sess w1) \<Longrightarrow> \<not> terminal (s_status r) \<Longrightarrow> s_tenant r = tid \<Longrightarrow>
      get_unscoped (s_id r) (w_sess w1) \<noteq> None \<Longrightarrow>
      \<exists>r'. get_unscoped (s_id r) (w_sess w2) = Some r' \<and> terminal (s_status r')"
  shows "count_concurrent tid (w_sess w2) = 0"
proof -
  have "terminal (s_status r)" if r: "r \<in> set (w_sess w2)" "s_tenant r = tid" for r
  proof -
    from r(1) wf(2) have now: "get_unscoped (s_id r) (w_sess w2) = Some r"
      by (auto simp: sessions_wf_def get_unscoped_def intro: t_get_keyed)
    from r(1) ids obtain r1 where r1: "r1 \<in> set (w_sess w1)" "s_id r1 = s_id r"
      by (metis (no_types, lifting) imageE image_eqI list.set_map)
    with wf(1) have was: "get_unscoped (s_id r) (w_sess w1) = Some r1"
      by (metis get_unscoped_def sessions_wf_def t_get_keyed)
    with ev now have "s_tenant r1 = tid" unfolding evolved_def row_fixed_def using r(2) by fastforce
    then show ?thesis
      using evolved_terminal [OF ev was] gone [OF r1(1)] now was r1(2) by fastforce
  qed
  then show ?thesis by (auto simp: count_concurrent_def filter_empty_conv)
qed

lemma delete_tenant_run:
  assumes wf: "registry_wf w" and found: "get_tenant_full tid (w_tenants w) = Some t"
    and run: "delete_tenant_route E tid w = (q, w')"
  obtains ts n w2 x where "q = Inr (A_tenant_gone tid n (count_active_tokens ts tid (w_tokens w)))"
    "isolated tid w w2" "count_concurrent tid (w_sess w2) = 0"
    "w_tokens w2 = snd (revoke_all_tenant_tokens ts tid (w_tokens w))"
    "emit E x (w2\<lparr>w_tenants := delete_tenant_row tid (w_tenants w2)\<rparr>) = (Inr (), w')"
proof -
  obtain q1 w1 where 1: "revoke_all E tid w = (q1, w1)" by fastforce
  have i1: "isolated tid w w1" using keeps_run [OF iso_revoke_all isolated_start [OF wf] 1] .
  from revoke_all_run [OF 1] obtain ts x where q1: "q1 = Inr (count_active_tokens ts tid (w_tokens w))"
    and w1: "w1 = w\<lparr>w_out := x, w_tokens := snd (revoke_all_tenant_tokens ts tid (w_tokens w))\<rparr>" by blast
  let ?rows = "list_non_terminal (w_sess w1)"
  obtain q2 w2 where 2: "destroy_each E tid ?rows w1 = (q2, w2)" by fastforce
  have "owned tid w (s_id row)" if "row \<in> set ?rows" "s_tenant row = tid" for row
    using non_terminal_owned [OF i1 _ that(2)] that(1) by (simp add: list_non_terminal_def)
  from destroy_each_run [OF 2 i1 this] obtain n where q2: "q2 = Inr n" and i2: "isolated tid w w2"
    and ev: "evolved (w_sess w1) w2"
    and gone: "\<forall>row \<in> set ?rows. s_tenant row = tid \<longrightarrow> get_unscoped (s_id row) (w_sess w1) \<noteq> None \<longrightarrow>
      (\<exists>r. get_unscoped (s_id row) (w_sess w2) = Some r \<and> terminal (s_status r))" by blast
  have tok: "w_tokens w2 = w_tokens w1" using keeps_run [OF keeps_tokens_destroy refl 2] .
  have none: "count_concurrent tid (w_sess w2) = 0"
    by (rule none_left [OF ev keeps_run [OF keeps_ids_destroy refl 2]])
      (use i1 i2 gone in \<open>auto simp: isolated_def registry_wf_def tables_wf_def list_non_terminal_def\<close>)
  let ?ev = "tenant_event ''tenant.delete'' tid (JObj [(''sessions_destroyed'', nat_json n),
    (''tokens_revoked'', nat_json (count_active_tokens ts tid (w_tokens w)))])"
  obtain q3 w3 where 3: "emit E ?ev (w2\<lparr>w_tenants := delete_tenant_row tid (w_tenants w2)\<rparr>) = (q3, w3)" by fastforce
  have "q3 = Inr ()" using emit_ok [of E ?ev] 3 by (metis fst_conv)
  moreover have "q = Inr (A_tenant_gone tid n (count_active_tokens ts tid (w_tokens w))) \<and> w' = w3"
    using run found 1 q1 2 q2 3 calculation
    by (simp add: delete_tenant_route_def the_tenant_def find_tenant_def thenM_def bindM_def)
  ultimately show ?thesis using that [of n ts w2 ?ev] i2 none tok 3 w1 by simp
qed

section \<open>Properties\<close>

text \<open>
  C6: the guards of the routes. Without a valid bearer every route but the two probes answers 401 (the
  administrative ones 503 when they are disabled), a bearer without the scope of the route gets 403,
  one that is not an administrator's 401 on administrative routes; and a refused request changes no
  table and leaves no trace in the audit log.
\<close>

theorem routes_guarded:
  "case auth_full E a w of (who, w1) \<Rightarrow>
     let refused = (\<lambda>e. fst (serve n E rt a w) = Inl e \<and> (\<exists>x. snd (serve n E rt a w) = w\<lparr>w_out := x\<rparr>)) in
     case guard_of rt of
       Open \<Rightarrow> rt \<in> {Healthz, Readyz}
     | Admin \<Rightarrow>
         if admin_token (cfg E) = [] then refused (HttpError 503 ''admin_disabled'')
         else (case who of Inl e \<Rightarrow> e = Unauthorized \<and> refused e
           | Inr c \<Rightarrow> if c_admin c then serve n E rt a w = admin_route E rt w1 else refused Unauthorized)
     | Scoped sc \<Rightarrow> (case who of Inl e \<Rightarrow> e = Unauthorized \<and> refused e
         | Inr c \<Rightarrow> if has_scope c sc then serve n E rt a w = tenant_route n E rt (c_tenant c) w1
                   else refused (ForbiddenScope (scope_name sc)))
     | Any_token \<Rightarrow> (case who of Inl e \<Rightarrow> e = Unauthorized \<and> refused e
         | Inr c \<Rightarrow> serve n E rt a w = tenant_route n E rt (c_tenant c) w1)
     | _ \<Rightarrow> (case who of Inl e \<Rightarrow> e = Unauthorized \<and> refused e | Inr c \<Rightarrow> True)"
proof -
  obtain who w1 where au: "auth_full E a w = (who, w1)" by fastforce
  obtain x where x: "w1 = w\<lparr>w_out := x\<rparr>" using auth_full_frame [OF au] by blast
  have self: "\<exists>x. w = w\<lparr>w_out := x\<rparr>" by (rule exI [of _ "w_out w"]) simp
  have un: "e = Unauthorized" if "who = Inl e" for e
    using au that
    by (auto simp: auth_full_def bearer_of_def bindM_def split: option.splits if_splits dest!: authenticate_accepts(1))
  have out: "\<exists>y. w\<lparr>w_out := x\<rparr> = w\<lparr>w_out := y\<rparr>" by blast
  note g = guard_serve [OF au, of rt]
  show ?thesis
  proof (cases "guard_of rt")
    case Open
    then have "rt \<in> {Healthz, Readyz}" by (cases rt) simp_all
    with Open show ?thesis by (simp add: au Let_def)
  next
    case Any_token
    with un out g(1) [OF this] show ?thesis by (cases who) (simp_all add: au Let_def x)
  next
    case (Scoped sc)
    with un out g(2) [OF this] show ?thesis by (cases who) (simp_all add: au Let_def x)
  next
    case Admin
    with un out self g(3) [OF this] show ?thesis by (cases who) (simp_all add: au Let_def x)
  next
    case Token_pair
    with un out g(4) [OF this] show ?thesis by (cases who) (simp_all add: au Let_def x)
  next
    case Self
    with un out g(5) [OF this] show ?thesis by (cases who) (simp_all add: au Let_def x)
  qed
qed

text \<open>
  C1: tenants are isolated. Whatever route the bearer of a tenant calls, with whatever arguments and
  whatever the Docker daemon does, the sessions, processes and tokens of all other tenants are the
  same rows as before, the tenants and the idempotency keys are untouched, and the registry stays
  well formed.
\<close>

theorem tenant_isolation:
  assumes "registry_wf w" "auth_full E a w = (Inr c, w1)" "\<not> c_admin c"
  shows "case serve n E rt a w of (q, w') \<Rightarrow> same_for_others (c_tenant c) w w' \<and> registry_wf w'"
proof -
  let ?I = "isolated (c_tenant c) w"
  obtain x where x: "w1 = w\<lparr>w_out := x\<rparr>" using auth_full_frame [OF assms(2)] by blast
  have i: "?I w" "?I w1" using isolated_start [OF assms(1)] isolated_quiet(2) [of "c_tenant c" w]
    by (simp_all add: x frame_def)
  note g = guard_serve [OF assms(2), of rt] and own = caller_token_owned [OF assms(1,2)]
  have rot: "keeps ?I (rotate_token_route E (c_tenant c, c_token c))"
    unfolding rotate_token_route_def by (simp, intro keeps_rules iso_rotate own)
  have "?I (snd (serve n E rt a w))"
  proof (cases "guard_of rt")
    case Open
    have "keeps ?I (if rt = Readyz then readyz E else ret A_alive)"
      unfolding readyz_def by (intro keeps_rules keeps_out isolated_quiet)
    with Open i show ?thesis by (simp add: serve_def keepsD)
  next
    case Self
    have "?I (snd (get_tenant_usage E tid c w1))" for tid using keepsD [OF iso_usage i(2)] .
    with Self g i show ?thesis by (auto split: route.splits)
  qed (use assms(3) g i keepsD [OF iso_tenant_route i(2)] keepsD [OF rot i(2)] in auto)
  then show ?thesis by (auto simp: isolated_def split: prod.splits)
qed

text \<open>Two tenants with a session each; the first one has a process and a token.\<close>

definition two_tenants :: "tb world" where
  "two_tenants = demo_world\<lparr>
     w_sess := [demo_session, demo_session\<lparr>s_id := ''s2'', s_tenant := ''t2''\<rparr>],
     w_tenants := [\<lparr>t_id = ''t1'', t_name = ''one'', t_created = 1, t_max_concurrency = None,
       t_max_workspace_gib = None, t_max_exec_timeout_s = None, t_egress = None\<rparr>],
     w_procs := [demo_process], w_tokens := demo_tokens\<rparr>"

lemma two_tenants_wf: "registry_wf two_tenants"
  by (simp add: registry_wf_def tables_wf_def owners_agree_def two_tenants_def demo_session_def demo_process_def
      demo_tokens_def sessions_wf_def processes_wf_def process_ok_def tokens_wf_def keyed_def new_process_def
      get_unscoped_def)

lemma two_tenants_auth:
  "auth_full (testbed default_settings) (Some ''Bearer secret'') two_tenants =
     (Inr (context_of ''k1'' ''t1'' (Some [File_read])), two_tenants)"
  by (simp add: auth_full_def bearer_of_def BEARER_def header_strip_def header_space_def is_space_def bindM_def
      authenticate_full_def hash_token_def testbed_def default_settings_def lookup_token_def two_tenants_def
      demo_tokens_def)

theorem tenant_isolation_witness:
  "\<exists>q w'. serve 21 (testbed default_settings) (Stop_session ''s2'') (Some ''Bearer secret'') two_tenants = (q, w') \<and>
     same_for_others ''t1'' two_tenants w' \<and> registry_wf w'"
proof -
  obtain q w' where run: "serve 21 (testbed default_settings) (Stop_session ''s2'') (Some ''Bearer secret'') two_tenants = (q, w')"
    by fastforce
  have "\<not> c_admin (context_of ''k1'' ''t1'' (Some [File_read]))" by (simp add: context_of_def ADMIN_TENANT_ID_def)
  from tenant_isolation [OF two_tenants_wf two_tenants_auth this, of 21 "Stop_session ''s2''"] run
  show ?thesis by (simp add: context_of_def)
qed

text \<open>
  C21: deleting a tenant. Whatever the Docker daemon does, afterwards the tenant has no session that
  counts or could still be used, none of its tokens is active from then on, its row is gone, and every
  other tenant has what it had.
\<close>

theorem delete_tenant_behaviour:
  assumes "registry_wf w" "get_tenant_full tid (w_tenants w) = Some t"
  shows "case delete_tenant_route E tid w of (q, w') \<Rightarrow>
    (\<exists>d k. q = Inr (A_tenant_gone tid d k)) \<and> count_concurrent tid (w_sess w') = 0 \<and>
    (\<exists>ts. \<forall>now\<ge>ts. count_active_tokens now tid (w_tokens w') = 0) \<and>
    w_tenants w' = delete_tenant_row tid (w_tenants w) \<and>
    same_for_others tid (w\<lparr>w_tenants := delete_tenant_row tid (w_tenants w)\<rparr>) w'"
proof -
  obtain q w' where run: "delete_tenant_route E tid w = (q, w')" by fastforce
  obtain ts n w2 ev where r: "q = Inr (A_tenant_gone tid n (count_active_tokens ts tid (w_tokens w)))"
    "isolated tid w w2" "count_concurrent tid (w_sess w2) = 0"
    "w_tokens w2 = snd (revoke_all_tenant_tokens ts tid (w_tokens w))"
    "emit E ev (w2\<lparr>w_tenants := delete_tenant_row tid (w_tenants w2)\<rparr>) = (Inr (), w')"
    using delete_tenant_run [OF assms run] .
  from emit_tables [of E ev "w2\<lparr>w_tenants := delete_tenant_row tid (w_tenants w2)\<rparr>"] r(5)
  have w': "w_sess w' = w_sess w2" "w_procs w' = w_procs w2" "w_tokens w' = w_tokens w2"
    "w_tenants w' = delete_tenant_row tid (w_tenants w2)" "w_idem w' = w_idem w2" by simp_all
  have "\<forall>now\<ge>ts. count_active_tokens now tid (w_tokens w') = 0"
    by (simp add: w' r(4) revoke_all_none_active)
  moreover have "same_for_others tid (w\<lparr>w_tenants := delete_tenant_row tid (w_tenants w)\<rparr>) w'"
    using r(2) by (simp add: isolated_def same_for_others_def w')
  moreover have "w_tenants w2 = w_tenants w" using r(2) by (simp add: isolated_def same_for_others_def)
  ultimately show ?thesis using run r(1,3) w' by auto
qed

theorem delete_tenant_behaviour_witness:
  "\<exists>q w'. delete_tenant_route (testbed default_settings) ''t1'' two_tenants = (q, w') \<and>
     count_concurrent ''t1'' (w_sess two_tenants) = 1 \<and> count_concurrent ''t1'' (w_sess w') = 0"
proof -
  obtain q w' where run: "delete_tenant_route (testbed default_settings) ''t1'' two_tenants = (q, w')" by fastforce
  have "\<exists>t. get_tenant_full ''t1'' (w_tenants two_tenants) = Some t"
    by (simp add: two_tenants_def get_tenant_full_def)
  then obtain t where "get_tenant_full ''t1'' (w_tenants two_tenants) = Some t" by blast
  from delete_tenant_behaviour [OF two_tenants_wf this, of "testbed default_settings"] run
  show ?thesis by (simp add: count_concurrent_def two_tenants_def demo_session_def terminal_def)
qed

end
