(* ===== verification/Interleaving.thy ===== *)
theory Interleaving
  imports Tenancy
begin

text \<open>
  What the handlers do between their awaits. \<open>create\<close> counts the sessions of the tenant in one
  statement and inserts the new row in another, and \<open>transition\<close> reads the status in one and writes it
  in another; requests that run at the same time interleave there.
\<close>

section \<open>Admission of new sessions\<close>

text \<open>
  Where a call of \<open>create\<close> stands: before the count, after a count below the cap, after its \<open>INSERT\<close>,
  or out. Provisioning and rollback after the \<open>INSERT\<close> are moves of the row, \<open>Elsewhere\<close>.
\<close>

datatype create_pc = Wanting | Admitted | Inserted | Out

text \<open>
  What happens next: a call counts; a call inserts; a call leaves without inserting (its limits are
  invalid, or it is cancelled); any other call of the registry runs.
\<close>

datatype create_event =
    Counts nat
  | Inserts nat ms string limits
  | Leaves nat
  | Elsewhere sess_op

fun create_next ::
  "int \<Rightarrow> string \<Rightarrow> create_event \<Rightarrow> create_pc list \<times> sessions \<Rightarrow> (create_pc list \<times> sessions) option" where
  "create_next M tn (Counts i) (ps, t) =
     (if i < length ps \<and> ps ! i = Wanting
      then Some (ps[i := if M \<le> count_concurrent tn t then Out else Admitted], t) else None)"
| "create_next M tn (Inserts i ts sid l) (ps, t) =
     (if i < length ps \<and> ps ! i = Admitted
      then (case insert_session ts sid tn (''sandbox-vol-'' @ sid) l t of
              Inl e \<Rightarrow> Some (ps[i := Out], t)
            | Inr t' \<Rightarrow> Some (ps[i := Inserted], t'))
      else None)"
| "create_next M tn (Leaves i) (ps, t) =
     (if i < length ps \<and> ps ! i = Admitted then Some (ps[i := Out], t) else None)"
| "create_next M tn (Elsewhere x) (ps, t) =
     (if is_insert x \<and> op_for tn x then None
      else case apply_sess_op x t of Inl e \<Rightarrow> Some (ps, t) | Inr t' \<Rightarrow> Some (ps, t'))"

fun create_race ::
  "int \<Rightarrow> string \<Rightarrow> create_event list \<Rightarrow> create_pc list \<times> sessions \<Rightarrow> (create_pc list \<times> sessions) option" where
  "create_race M tn [] s = Some s"
| "create_race M tn (e # es) s = Option.bind (create_next M tn e s) (create_race M tn es)"

definition in_flight :: "create_pc list \<Rightarrow> int" where
  "in_flight ps = int (length (filter (\<lambda>p. p = Admitted) ps))"

lemma in_flight_update:
  "i < length ps \<Longrightarrow> in_flight (ps[i := p]) =
     in_flight ps - (if ps ! i = Admitted then 1 else 0) + (if p = Admitted then 1 else 0)"
proof (induction ps arbitrary: i)
  case (Cons q ps)
  have c: "in_flight (r # rs) = (if r = Admitted then 1 else 0) + in_flight rs" for r rs
    by (simp add: in_flight_def)
  from Cons show ?case by (cases i) (simp_all add: c)
qed simp

lemma in_flight_le: "in_flight ps \<le> int (length ps)"
  by (simp add: in_flight_def)

text \<open>Sessions that count, and those that will once their call inserts them.\<close>

definition race_bound :: "int \<Rightarrow> string \<Rightarrow> create_pc list \<times> sessions \<Rightarrow> bool" where
  "race_bound M tn s \<longleftrightarrow> (case s of (ps, t) \<Rightarrow> sessions_wf t \<and> ps \<noteq> [] \<and>
     count_concurrent tn t + in_flight ps \<le> M + int (length ps) - 1)"

lemma count_insert:
  "insert_session ts sid tn' vol l t = Inr t' \<Longrightarrow>
    count_concurrent tn t' = count_concurrent tn t + (if tn' = tn then 1 else 0)"
  by (auto simp: insert_session_def count_concurrent_def new_session_def split: if_splits)

lemma insert_wf: "sessions_wf t \<Longrightarrow> insert_session ts sid tn vol l t = Inr t' \<Longrightarrow> sessions_wf t'"
  using apply_sess_op_wf [of t "Op_insert ts sid tn vol l" t'] by simp

lemma count_elsewhere:
  assumes "apply_sess_op x t = Inr t'" "sessions_wf t" "\<not> (is_insert x \<and> op_for tn x)"
  shows "count_concurrent tn t' \<le> count_concurrent tn t"
proof (cases "is_insert x")
  case True
  with assms show ?thesis by (cases x) (auto simp: count_insert)
next
  case False
  with count_op_le [OF assms(2,1)] show ?thesis by simp
qed

lemma race_bound_next: "create_next M tn e s = Some s' \<Longrightarrow> race_bound M tn s \<Longrightarrow> race_bound M tn s'"
proof (induction M tn e s rule: create_next.induct)
  case (1 M tn i ps t)
  with in_flight_le [of "ps[i := Admitted]"] show ?case
    by (auto simp: race_bound_def in_flight_update split: if_splits)
next
  case (2 M tn i ts sid l ps t)
  then show ?case
    by (auto simp: race_bound_def in_flight_update count_insert insert_wf split: if_splits sum.splits)
next
  case (4 M tn x ps t)
  show ?case
  proof (cases "apply_sess_op x t")
    case (Inr t')
    with 4 have "count_concurrent tn t' \<le> count_concurrent tn t" "sessions_wf t'" "s' = (ps, t')"
      by (auto simp: race_bound_def intro: apply_sess_op_wf dest: count_elsewhere [of x t t' tn] split: if_splits)
    with 4(2) show ?thesis by (simp add: race_bound_def)
  qed (use 4 in \<open>auto split: if_splits\<close>)
qed (auto simp: race_bound_def in_flight_update split: if_splits)

lemma race_bound_run: "create_race M tn es s = Some s' \<Longrightarrow> race_bound M tn s \<Longrightarrow> race_bound M tn s'"
proof (induction es arbitrary: s)
  case (Cons e es)
  from Cons.prems obtain v where v: "create_next M tn e s = Some v" "create_race M tn es v = Some s'"
    by (auto simp: bind_eq_Some_conv)
  from v(2) race_bound_next [OF v(1) Cons.prems(2)] show ?case by (rule Cons.IH)
qed simp

lemma create_race_length: "create_race M tn es (ps, t) = Some (ps', t') \<Longrightarrow> length ps' = length ps"
proof (induction es arbitrary: ps t)
  case (Cons e es)
  from Cons.prems obtain qs u where v: "create_next M tn e (ps, t) = Some (qs, u)" "create_race M tn es (qs, u) = Some (ps', t')"
    by (auto simp: bind_eq_Some_conv)
  from v(1) have "length qs = length ps" by (cases e) (auto split: if_splits sum.splits)
  with Cons.IH [OF v(2)] show ?case by simp
qed simp

section \<open>Moves of a session\<close>

text \<open>
  A call of \<open>transition\<close>: asked for, its check passed, written, or failed. The check and the \<open>UPDATE\<close> are
  two statements, and the \<open>UPDATE\<close> does not look at the status again.
\<close>

datatype move_pc = Asked | Checked | Moved | Failed exn

record move =
  mv_at :: ms
  mv_sid :: string
  mv_new :: status
  mv_pc :: move_pc

definition ask :: "ms \<Rightarrow> string \<Rightarrow> status \<Rightarrow> move" where
  "ask ts sid new = \<lparr>mv_at = ts, mv_sid = sid, mv_new = new, mv_pc = Asked\<rparr>"

definition check_move :: "move \<Rightarrow> sessions \<Rightarrow> move" where
  "check_move m t =
     m\<lparr>mv_pc := (case t_get s_id (mv_sid m) t of
        None \<Rightarrow> Failed KeyError
      | Some r \<Rightarrow> if mv_new m \<notin> set (transitions (s_status r)) then Failed ValueError else Checked)\<rparr>"

definition move_next :: "nat \<Rightarrow> move list \<times> sessions \<Rightarrow> move list \<times> sessions" where
  "move_next i s = (case s of (ms, t) \<Rightarrow>
     if length ms \<le> i then (ms, t)
     else case mv_pc (ms ! i) of
         Asked \<Rightarrow> (ms[i := check_move (ms ! i) t], t)
       | Checked \<Rightarrow> (ms[i := (ms ! i)\<lparr>mv_pc := Moved\<rparr>],
           write_status (mv_at (ms ! i)) (mv_sid (ms ! i)) (mv_new (ms ! i)) t)
       | _ \<Rightarrow> (ms, t))"

definition move_run :: "nat list \<Rightarrow> move list \<times> sessions \<Rightarrow> move list \<times> sessions" where
  "move_run sched s = fold move_next sched s"

text \<open>What one call has come to, against the atomic \<open>transition\<close> on the table at the beginning.\<close>

definition as_atomic :: "sessions \<Rightarrow> sessions \<Rightarrow> move \<Rightarrow> bool" where
  "as_atomic t0 t m \<longleftrightarrow>
     (case mv_pc m of
        Asked \<Rightarrow> get_unscoped (mv_sid m) t = get_unscoped (mv_sid m) t0
      | Checked \<Rightarrow> get_unscoped (mv_sid m) t = get_unscoped (mv_sid m) t0 \<and>
          (\<exists>t'. transition (mv_at m) (mv_sid m) (mv_new m) t0 = Inr t')
      | Moved \<Rightarrow> (\<exists>t'. transition (mv_at m) (mv_sid m) (mv_new m) t0 = Inr t' \<and>
          get_unscoped (mv_sid m) t = get_unscoped (mv_sid m) t')
      | Failed e \<Rightarrow> transition (mv_at m) (mv_sid m) (mv_new m) t0 = Inl e \<and>
          get_unscoped (mv_sid m) t = get_unscoped (mv_sid m) t0)"

definition moves_inv :: "move list \<Rightarrow> sessions \<Rightarrow> move list \<times> sessions \<Rightarrow> bool" where
  "moves_inv ms0 t0 s \<longleftrightarrow> (case s of (ms, t) \<Rightarrow>
     map (\<lambda>m. m\<lparr>mv_pc := Asked\<rparr>) ms = ms0 \<and> list_all (as_atomic t0 t) ms \<and>
     (\<forall>j. j \<notin> mv_sid ` set ms0 \<longrightarrow> get_unscoped j t = get_unscoped j t0))"

lemma as_atomic_check:
  "mv_pc m = Asked \<Longrightarrow> as_atomic t0 t m \<Longrightarrow> as_atomic t0 t (check_move m t)"
  by (auto simp: as_atomic_def check_move_def transition_def get_unscoped_def split: option.splits)

lemma as_atomic_write:
  assumes "mv_pc m = Checked" "as_atomic t0 t m"
  shows "as_atomic t0 (write_status (mv_at m) (mv_sid m) (mv_new m) t) (m\<lparr>mv_pc := Moved\<rparr>)"
  using assms by (auto simp: as_atomic_def transition_def sess_simps split: option.splits if_splits)

lemma as_atomic_other:
  "mv_sid m \<noteq> sid \<Longrightarrow> as_atomic t0 t m \<Longrightarrow> as_atomic t0 (write_status ts sid new t) m"
  by (auto simp: as_atomic_def sess_simps split: move_pc.splits)

lemma moves_inv_next:
  assumes "distinct (map mv_sid ms0)" "moves_inv ms0 t0 s"
  shows "moves_inv ms0 t0 (move_next i s)"
proof -
  obtain ms t where s: "s = (ms, t)" by fastforce
  from assms(2) have inv: "map (\<lambda>m. m\<lparr>mv_pc := Asked\<rparr>) ms = ms0" "\<And>k. k < length ms \<Longrightarrow> as_atomic t0 t (ms ! k)"
    "\<And>j. j \<notin> mv_sid ` set ms0 \<Longrightarrow> get_unscoped j t = get_unscoped j t0"
    by (auto simp: s moves_inv_def list_all_length)
  have sids: "map mv_sid ms = map mv_sid ms0" unfolding inv(1) [symmetric] by simp
  show ?thesis
  proof (cases "i < length ms")
    case i: True
    have keep: "map (\<lambda>m. m\<lparr>mv_pc := Asked\<rparr>) (ms[i := (ms ! i)\<lparr>mv_pc := p\<rparr>]) = ms0" for p
      using i unfolding inv(1) [symmetric] by (simp add: map_update list_update_same_conv)
    show ?thesis
    proof (cases "mv_pc (ms ! i)")
      case Asked
      have "as_atomic t0 t (ms[i := check_move (ms ! i) t] ! k)" if "k < length ms" for k
        using that i inv(2) as_atomic_check [OF Asked inv(2)] by (cases "k = i") auto
      with Asked i inv(3) keep show ?thesis
        by (auto simp: s move_next_def moves_inv_def list_all_length check_move_def)
    next
      case Checked
      let ?t = "write_status (mv_at (ms ! i)) (mv_sid (ms ! i)) (mv_new (ms ! i)) t"
      have "mv_sid (ms ! k) \<noteq> mv_sid (ms ! i)" if "k < length ms" "k \<noteq> i" for k
        using assms(1) i that unfolding sids [symmetric] by (auto simp: distinct_conv_nth)
      then have "as_atomic t0 ?t (ms[i := (ms ! i)\<lparr>mv_pc := Moved\<rparr>] ! k)" if "k < length ms" for k
        using that i inv(2) as_atomic_write [OF Checked inv(2)] by (cases "k = i") (auto intro: as_atomic_other)
      moreover have "mv_sid (ms ! i) \<in> mv_sid ` set ms0"
        using i nth_mem [OF i] unfolding list.set_map [symmetric] sids [symmetric] by auto
      then have "get_unscoped j ?t = get_unscoped j t0" if "j \<notin> mv_sid ` set ms0" for j
        using that inv(3) by (auto simp: sess_simps)
      ultimately show ?thesis using Checked i keep by (auto simp: s move_next_def moves_inv_def list_all_length)
    qed (use assms(2) i in \<open>auto simp: s move_next_def\<close>)
  qed (use assms(2) in \<open>simp add: s move_next_def\<close>)
qed

lemma moves_inv_run:
  "distinct (map mv_sid ms0) \<Longrightarrow> moves_inv ms0 t0 s \<Longrightarrow> moves_inv ms0 t0 (move_run sched s)"
  unfolding move_run_def by (induction sched arbitrary: s) (simp_all add: moves_inv_next)

text \<open>
  The wake-up of \<open>exec\<close> and of the file service takes no lock. Here it has read \<open>STOPPED\<close> when the session
  is destroyed, and its \<open>UPDATE\<close> brings the destroyed session back to \<open>RUNNING\<close>.
\<close>

definition stopped_row :: session where
  "stopped_row = (new_session 1 ''s'' ''t'' ''v'' demo_limits)\<lparr>s_status := STOPPED\<rparr>"

lemma unlocked_moves_revive:
  "map (\<lambda>k. map_option (\<lambda>r. (s_status r, s_destroyed r)) (get_unscoped ''s'' (snd (move_run (take k [0, 1, 1, 2, 2, 0])
       ([ask 5 ''s'' RUNNING, ask 6 ''s'' DESTROYING, ask 7 ''s'' DESTROYED], [stopped_row]))))) [5, 6] =
     [Some (DESTROYED, Some 7), Some (RUNNING, Some 7)]"
  by (simp add: move_run_def move_next_def ask_def check_move_def stopped_row_def new_session_def get_unscoped_def
      write_status_def with_status_def)

section \<open>Properties\<close>



text \<open>
  What the lock of a session is for. As long as no two calls of \<open>transition\<close> for the same session
  overlap, then however calls for different sessions interleave, between and inside, each one has had
  exactly the outcome and the effect on its row that the atomic \<open>transition\<close> has on the table they
  started from, or has not written yet; no other row changes.
\<close>

theorem locked_moves_atomic:
  assumes "distinct (map mv_sid ms0)" "\<forall>m \<in> set ms0. mv_pc m = Asked"
  shows "case move_run sched (ms0, t0) of (ms, t) \<Rightarrow>
    map (\<lambda>m. (mv_at m, mv_sid m, mv_new m)) ms = map (\<lambda>m. (mv_at m, mv_sid m, mv_new m)) ms0 \<and>
    list_all (as_atomic t0 t) ms \<and>
    (\<forall>j. j \<notin> mv_sid ` set ms0 \<longrightarrow> get_unscoped j t = get_unscoped j t0)"
proof -
  obtain ms t where run: "move_run sched (ms0, t0) = (ms, t)" by fastforce
  have "map (\<lambda>m. m\<lparr>mv_pc := Asked\<rparr>) ms0 = ms0" using assms(2) by (auto intro: map_idI)
  then have "moves_inv ms0 t0 (ms0, t0)"
    using assms(2) by (auto simp: moves_inv_def as_atomic_def list_all_iff)
  from moves_inv_run [OF assms(1) this, of sched] have inv: "moves_inv ms0 t0 (ms, t)" by (simp add: run)
  have "map (\<lambda>m. (mv_at m, mv_sid m, mv_new m)) ms =
      map (\<lambda>m. (mv_at m, mv_sid m, mv_new m)) (map (\<lambda>m. m\<lparr>mv_pc := Asked\<rparr>) ms)" by simp
  with inv show ?thesis by (auto simp: run moves_inv_def)
qed

theorem locked_moves_atomic_witness:
  "\<exists>ms t. move_run [0, 1, 1, 0] ([ask 5 ''s'' RUNNING, ask 6 ''q'' DESTROYING], [stopped_row]) = (ms, t) \<and>
     list_all (as_atomic [stopped_row] t) ms \<and> map mv_pc ms = [Moved, Failed KeyError]"
proof -
  let ?m = "[ask 5 ''s'' RUNNING, ask 6 ''q'' DESTROYING]"
  obtain ms t where run: "move_run [0, 1, 1, 0] (?m, [stopped_row]) = (ms, t)" by fastforce
  have "distinct (map mv_sid ?m)" "\<forall>m \<in> set ?m. mv_pc m = Asked" by (simp_all add: ask_def)
  from locked_moves_atomic [OF this, where sched = "[0, 1, 1, 0]" and ?t0.0 = "[stopped_row]"] run
  have "list_all (as_atomic [stopped_row] t) ms" by simp
  moreover from run have "map mv_pc ms = [Moved, Failed KeyError]"
    by (auto simp: move_run_def move_next_def ask_def check_move_def stopped_row_def new_session_def)
  ultimately show ?thesis using run by (intro exI [of _ ms] exI [of _ t] conjI)
qed

end
