(* ===== verification/FailClosed.thy ===== *)
theory FailClosed
  imports Tenancy
begin

text \<open>
  The audit log fails closed (ARCHITECTURE section 7): while it cannot be written, the routes that leave
  a record are refused before they do anything.
\<close>

section \<open>Routes that leave a record\<close>

fun audited :: "route \<Rightarrow> bool" where
  "audited (Create_session lim) = True"
| "audited (Stop_session sid) = True"
| "audited (Resume_session sid) = True"
| "audited (Destroy_session sid) = True"
| "audited (Exec_session sid req) = True"
| "audited (Exec_stream sid req n) = True"
| "audited (Write_file sid req) = True"
| "audited (Write_raw sid p b m) = True"
| "audited (Delete_file sid p rec) = True"
| "audited (Start_process sid req) = True"
| "audited (Delete_process sid pid) = True"
| "audited _ = False"

text \<open>
  How such a route refuses. The event stream has sent its status when the generator raises, at the first
  event that is asked for; a stream with an input is refused before.
\<close>

fun refusal :: "route \<Rightarrow> exn + reply" where
  "refusal (Exec_stream sid req n) =
     (if r_stdin req \<noteq> None then Inl InvalidArgument
      else Inr (A_stream (if n = 0 then Inr [] else Inl AuditUnhealthy)))"
| "refusal _ = Inl AuditUnhealthy"

lemma unhealthy_route:
  assumes "\<not> is_healthy w" "audited rt"
  shows "tenant_route n E rt tn w = (refusal rt, w)"
  using assms
  by (cases rt)
    (auto simp: create_session_route_def stop_session_route_def resume_session_route_def destroy_session_route_def
      exec_session_def exec_session_stream_def write_file_route_def write_file_raw_def delete_file_route_def
      start_process_route_def delete_process_route_def create_session_def stop_session_def resume_session_def
      destroy_session_def run_exec_def run_stream_def validate_stream_request_def write_file_def write_raw_def
      delete_file_def start_process_def delete_session_process_def stop_process_def thenM_def bindM_def precheck_run guardM_def
      split: option.splits)

section \<open>Properties\<close>



end
