(* ===== verification/Capacity.thy ===== *)
theory Capacity
  imports Complex_Main TextLib "HOL-Library.List_Lexorder"
begin

text \<open>
  The sizing of a host (\<open>tools/sandbox_capacity_calc.py\<close>): from the result of a load test and a number of
  sessions to a recommendation. A finite Python \<open>float\<close> is the rational number it stands for; each
  arithmetic operation gives the exact result rounded by \<open>R\<close>, the rounding of the machine, which is a
  parameter. Integers are exact, as in Python. Overflow to infinity is left out. The recommendation is a
  record; the text the program prints is made from it. Parsing of the command line and of the result file is
  left out.
\<close>

section \<open>Floating point\<close>

type_synonym rounding = "rat \<Rightarrow> rat"

text \<open>What is used of the rounding of IEEE 754: it keeps order, and zero is a float.\<close>

definition rounds_well :: "rounding \<Rightarrow> bool" where
  "rounds_well R \<longleftrightarrow> mono R \<and> R 0 = 0"

text \<open>\<open>round(x, 2)\<close>: the nearest multiple of 1/100, ties to even, and then the nearest float.\<close>

definition nearest :: "rat \<Rightarrow> int" where
  "nearest x = (let f = \<lfloor>x\<rfloor>; d = x - of_int f in
     if d < 1 / 2 then f else if 1 / 2 < d then f + 1 else if even f then f else f + 1)"

definition round2 :: "rounding \<Rightarrow> rat \<Rightarrow> rat" where
  "round2 R x = R (of_int (nearest (x * 100)) / 100)"

section \<open>The result of a load test\<close>

record host_docker =
  ncpu :: "int option"
  mem_total :: "int option"
  default_runtime :: "string option"

record host_baseline =
  hb_docker :: "host_docker option"
  hb_logical_count :: "int option"
  hb_hostname :: "string option"

text \<open>A level is the list of the control plane's samples of \<open>mem_rss_bytes\<close>.\<close>

record ramp_result =
  levels :: "int option list option list"
  coefficients :: "(rat option \<times> rat option) option"
  last_clean_level :: "int option"
  degradation_level :: "int option"
  baseline :: "host_baseline option"

fun find_latest_result :: "string list option \<Rightarrow> string option" where
  "find_latest_result None = None"
| "find_latest_result (Some []) = None"
| "find_latest_result (Some names) = Some (last (sort_key (\<lambda>s. map of_char s :: nat list) names))"

definition or_zero :: "int option \<Rightarrow> int" where
  "or_zero x = (case x of None \<Rightarrow> 0 | Some b \<Rightarrow> b)"

definition baseline_ram_gib :: "rounding \<Rightarrow> ramp_result \<Rightarrow> rat" where
  "baseline_ram_gib R result =
     (case levels result of
        [] \<Rightarrow> 1
      | first # _ \<Rightarrow>
          let cp = (case first of None \<Rightarrow> [] | Some xs \<Rightarrow> xs);
              cp_rss_bytes = (if cp = [] then 0 else Max (set (map or_zero cp)));
              cp_gib = R (of_int cp_rss_bytes / 1024 ^ 3)
          in round2 R (R (cp_gib + 1)))"

definition baseline_cores :: "ramp_result \<Rightarrow> rat" where
  "baseline_cores result = 2"

definition per_session_rss_gib :: "rounding \<Rightarrow> ramp_result \<Rightarrow> rat option" where
  "per_session_rss_gib R result =
     (case coefficients result of
        Some (Some mib, _) \<Rightarrow> Some (R (mib / 1024))
      | _ \<Rightarrow> None)"

definition per_session_cpu_pct :: "ramp_result \<Rightarrow> rat option" where
  "per_session_cpu_pct result =
     (case coefficients result of
        Some (_, Some pct) \<Rightarrow> Some pct
      | _ \<Rightarrow> None)"

section \<open>The host\<close>

fun round_up_pow2 :: "int \<Rightarrow> int list \<Rightarrow> int" where
  "round_up_pow2 x choices = (case filter (\<lambda>c. x \<le> c) choices of c # _ \<Rightarrow> c | [] \<Rightarrow> last choices)"

definition cpu_choices :: "int list" where
  "cpu_choices = [2, 4, 8, 16, 32, 48, 64, 96, 128]"

definition ram_choices :: "int list" where
  "ram_choices = [4, 8, 16, 32, 64, 128, 192, 256, 384, 512]"

definition suggest_host_shape :: "int \<Rightarrow> int \<Rightarrow> int \<times> int" where
  "suggest_host_shape cpu ram_gib = (round_up_pow2 cpu cpu_choices, round_up_pow2 ram_gib ram_choices)"

text \<open>The label of the host that was measured: processors, memory in GiB and runtime, or a name.\<close>

definition truthy_int :: "int option \<Rightarrow> int option" where
  "truthy_int x = (case x of Some n \<Rightarrow> if n = 0 then None else Some n | None \<Rightarrow> None)"

datatype host_name = Shape int int string | Named string

definition host_label :: "rounding \<Rightarrow> ramp_result \<Rightarrow> host_name" where
  "host_label R result =
     (case baseline result of
        None \<Rightarrow> Named ''unknown host''
      | Some hb \<Rightarrow>
          let docker = (case hb_docker hb of None \<Rightarrow> \<lparr>ncpu = None, mem_total = None, default_runtime = None\<rparr> | Some d \<Rightarrow> d);
              cpu = (case truthy_int (ncpu docker) of Some n \<Rightarrow> Some n | None \<Rightarrow> truthy_int (hb_logical_count hb));
              mem_gib = (case truthy_int (mem_total docker) of
                  Some b \<Rightarrow> truthy_int (Some (nearest (R (of_int b / 1024 ^ 3)))) | None \<Rightarrow> None);
              runtime = (case default_runtime docker of None \<Rightarrow> ''?'' | Some r \<Rightarrow> if r = [] then ''?'' else r)
          in case (cpu, mem_gib) of
               (Some c, Some m) \<Rightarrow> Shape c m runtime
             | _ \<Rightarrow> Named (case hb_hostname hb of None \<Rightarrow> ''unknown host'' | Some h \<Rightarrow> if h = [] then ''unknown host'' else h))"

section \<open>The recommendation\<close>

text \<open>\<open>while fd_pow2 < fd_limit: fd_pow2 *= 2\<close>.\<close>

function double_up :: "int \<Rightarrow> int \<Rightarrow> int" where
  "double_up limit p = (if 0 < p \<and> p < limit then double_up limit (2 * p) else p)"
  by auto

termination double_up
  by (relation "measure (\<lambda>(limit, p). nat (limit - p))") auto

declare double_up.simps [simp del]

record recommendation =
  rc_cpu :: int
  rc_ram :: int
  rc_disk :: int
  rc_fd :: int
  rc_host :: "int \<times> int"
  rc_source :: host_name
  rc_extrapolated :: bool

definition ram_need :: "rounding \<Rightarrow> ramp_result \<Rightarrow> rat \<Rightarrow> int \<Rightarrow> rat \<Rightarrow> rat" where
  "ram_need R result rss n safety =
     R (baseline_ram_gib R result + R (R (R (of_int n) * rss) * R (1 + safety)))"

definition cpu_need :: "rounding \<Rightarrow> ramp_result \<Rightarrow> rat \<Rightarrow> int \<Rightarrow> rat \<Rightarrow> rat \<Rightarrow> rat" where
  "cpu_need R result pct n active_fraction safety =
     R (baseline_cores result +
        R (R (of_int \<lceil>R (R (R (R (of_int n) * active_fraction) * pct) / 100)\<rceil>) * R (1 + safety)))"

definition disk_need :: "rounding \<Rightarrow> int \<Rightarrow> int \<Rightarrow> rat" where
  "disk_need R n audit_growth_mib_per_day =
     R (R (R (of_int (n * 2)) + R (R (of_int audit_growth_mib_per_day / 1024) * 30)) + 50)"

definition render ::
  "rounding \<Rightarrow> ramp_result \<Rightarrow> int \<Rightarrow> rat \<Rightarrow> rat \<Rightarrow> int \<Rightarrow> recommendation option" where
  "render R result n active_fraction safety audit_growth_mib_per_day =
     (case (per_session_rss_gib R result, per_session_cpu_pct result) of
        (Some rss, Some pct) \<Rightarrow>
          let cpu_int = \<lceil>cpu_need R result pct n active_fraction safety\<rceil>;
              ram_int = \<lceil>ram_need R result rss n safety\<rceil>
          in Some \<lparr>rc_cpu = cpu_int, rc_ram = ram_int, rc_disk = \<lceil>disk_need R n audit_growth_mib_per_day\<rceil>,
               rc_fd = double_up (1024 + n * 16) 1, rc_host = suggest_host_shape cpu_int ram_int,
               rc_source = host_label R result,
               rc_extrapolated = (case last_clean_level result of None \<Rightarrow> False | Some l \<Rightarrow> l < n)\<rparr>
      | _ \<Rightarrow> None)"

section \<open>The report\<close>

text \<open>\<open>f"{x:.0f}"\<close>, \<open>f"{x:.1f}"\<close> and \<open>int(x)\<close>.\<close>

definition fixed0 :: "rat \<Rightarrow> string" where
  "fixed0 x = (if x < 0 then ''-'' else []) @ digits (nat (nearest \<bar>x\<bar>))"

definition fixed1 :: "rat \<Rightarrow> string" where
  "fixed1 x =
     (let k = nat (nearest (\<bar>x\<bar> * 10)) in
      (if x < 0 then ''-'' else []) @ digits (k div 10) @ CHR ''.'' # digits (k mod 10))"

definition trunc_int :: "rat \<Rightarrow> int" where
  "trunc_int x = (if x < 0 then \<lceil>x\<rceil> else \<lfloor>x\<rfloor>)"

definition format_tested_range :: "ramp_result \<Rightarrow> string" where
  "format_tested_range result =
     (let parts = (case last_clean_level result of None \<Rightarrow> [] | Some l \<Rightarrow> [''tested cleanly up to '' @ str_int l]) @
          (case degradation_level result of None \<Rightarrow> [] | Some d \<Rightarrow> [''degradation observed at '' @ str_int d])
      in if parts = [] then ''no clean range recorded'' else join_with ''; '' parts)"

fun host_text :: "host_name \<Rightarrow> string" where
  "host_text (Shape c m runtime) = str_int c @ '' vCPU / '' @ str_int m @ '' GiB ('' @ runtime @ '')''"
| "host_text (Named s) = s"

definition NEWLINE :: string where
  "NEWLINE = [CHR 0x0A]"

definition EM_DASH :: string where
  "EM_DASH = [CHR 0xE2, CHR 0x80, CHR 0x94]"

definition no_coefficients :: "string \<Rightarrow> string" where
  "no_coefficients path =
     ''ERROR: result file '' @ path @
     '' has no per-session resource coefficients (avg_session_rss_mib / avg_session_cpu_pct).'' @ NEWLINE @
     ''Re-run with local docker reachable from the harness so per-container stats can be collected.'' @ NEWLINE"

definition extrapolation_note :: "int \<Rightarrow> int \<Rightarrow> string" where
  "extrapolation_note n tested =
     ''  NOTE: target N='' @ str_int n @ '' is above tested ceiling ('' @ str_int tested @
     ''); numbers are extrapolated '' @ EM_DASH @ '' re-run the ramp at higher --max-sessions for tighter sizing.'' @ NEWLINE"

definition report_text ::
  "rounding \<Rightarrow> ramp_result \<Rightarrow> string \<Rightarrow> int \<Rightarrow> rat \<Rightarrow> rat \<Rightarrow> rat \<Rightarrow> rat \<Rightarrow> recommendation \<Rightarrow> string" where
  "report_text R result path n active_fraction safety rss pct a =
     ''Sandbox capacity recommendation'' @ NEWLINE @ ''================================'' @ NEWLINE @ NEWLINE @
     ''Workload: '' @ str_int n @ '' concurrent sessions, '' @ str_int (trunc_int (R (active_fraction * 100))) @
     ''% active.'' @ NEWLINE @ NEWLINE @
     ''Resources needed (with '' @ str_int (trunc_int (R (safety * 100))) @ ''% safety margin):'' @ NEWLINE @
     ''  CPU      : '' @ str_int (rc_cpu a) @ '' cores'' @ NEWLINE @
     ''  RAM      : '' @ str_int (rc_ram a) @ '' GiB'' @ NEWLINE @
     ''  Disk     : '' @ str_int (rc_disk a) @ '' GiB'' @ NEWLINE @
     ''  FD limit : '' @ str_int (rc_fd a) @ NEWLINE @ NEWLINE @
     ''Recommended host: ~'' @ str_int (fst (rc_host a)) @ '' vCPU / '' @ str_int (snd (rc_host a)) @ '' GiB / '' @
     str_int (rc_disk a) @ '' GiB SSD.'' @ NEWLINE @ NEWLINE @
     ''Source: '' @ path @ NEWLINE @
     ''  measured on host: '' @ host_text (rc_source a) @ NEWLINE @
     ''  per-session RSS: '' @ fixed0 (R (rss * 1024)) @ '' MiB; CPU at load: '' @ fixed1 pct @ ''%'' @ NEWLINE @
     ''  ramp coverage: '' @ format_tested_range result @ NEWLINE @
     (case last_clean_level result of
        None \<Rightarrow> []
      | Some l \<Rightarrow> if l < n then extrapolation_note n l else [])"

definition render_text ::
  "rounding \<Rightarrow> ramp_result \<Rightarrow> string \<Rightarrow> int \<Rightarrow> rat \<Rightarrow> rat \<Rightarrow> int \<Rightarrow> string" where
  "render_text R result path n active_fraction safety g =
     (case (per_session_rss_gib R result, per_session_cpu_pct result, render R result n active_fraction safety g) of
        (Some rss, Some pct, Some a) \<Rightarrow> report_text R result path n active_fraction safety rss pct a
      | _ \<Rightarrow> no_coefficients path)"

text \<open>
  \<open>main\<close> after the arguments are parsed: the exit code, and what goes to the output and to the error output.
  \<open>results\<close> gives the result files of a directory, if it exists, and \<open>load\<close> the content of a file.
\<close>

record calc_args =
  ca_sessions :: int
  ca_active :: rat
  ca_safety :: rat
  ca_growth :: int
  ca_results :: string
  ca_results_dir :: string

definition calc_main ::
  "rounding \<Rightarrow> (string \<Rightarrow> string list option) \<Rightarrow> (string \<Rightarrow> bool) \<Rightarrow> (string \<Rightarrow> ramp_result) \<Rightarrow> calc_args \<Rightarrow>
    int \<times> string \<times> string" where
  "calc_main R results exists load args =
     (let report = (\<lambda>path. (0, render_text R (load path) path (ca_sessions args) (ca_active args) (ca_safety args)
          (ca_growth args) @ NEWLINE, []))
      in if ca_results args = ''latest'' then
           (case find_latest_result (results (ca_results_dir args)) of
              None \<Rightarrow> (2, [], ''ERROR: no ramp_*.json files in '' @ ca_results_dir args @ ''.'' @ NEWLINE @
                ''Run the ramp test first:'' @ NEWLINE @
                ''  uv run pytest tests/load/test_ramp.py -m load --base-url=... --token=...'' @ NEWLINE)
            | Some path \<Rightarrow> report path)
         else if \<not> exists (ca_results args) then
           (2, [], ''ERROR: '' @ ca_results args @ '' does not exist.'' @ NEWLINE)
         else report (ca_results args))"

text \<open>
  The report names the tested ceiling exactly when the recommendation goes beyond it, and an unusable result file
  still ends with code 0.
\<close>

lemma calc_main_code:
  "fst (calc_main R results exists load args) =
    (if (if ca_results args = ''latest'' then results (ca_results_dir args) \<in> {None, Some []} else \<not> exists (ca_results args))
     then 2 else 0)"
  by (cases "results (ca_results_dir args)"; cases "the (results (ca_results_dir args))") (simp_all add: calc_main_def Let_def)

lemma render_text_extrapolates:
  assumes "render R result n af safety g = Some a" "per_session_rss_gib R result = Some rss" "per_session_cpu_pct result = Some pct"
  shows "rc_extrapolated a \<longleftrightarrow> (\<exists>l pre. last_clean_level result = Some l \<and> l < n \<and>
    render_text R result path n af safety g = pre @ extrapolation_note n l)"
proof -
  have e: "rc_extrapolated a \<longleftrightarrow> (\<exists>l. last_clean_level result = Some l \<and> l < n)"
    using assms by (auto simp: render_def Let_def split: option.splits)
  show ?thesis
  proof (cases "rc_extrapolated a")
    case True
    with e obtain l where l: "last_clean_level result = Some l" "l < n" by blast
    have "\<exists>pre. report_text R result path n af safety rss pct a = pre @ extrapolation_note n l"
      unfolding report_text_def l(1) option.case if_P [OF l(2)] append_assoc [symmetric] by (rule exI) (rule refl)
    with True l assms show ?thesis by (auto simp: render_text_def)
  qed (use e in blast)
qed

section \<open>The doubling loop\<close>

lemma double_up_power:
  assumes "0 < p"
  shows "\<exists>k. double_up limit p = p * 2 ^ k \<and> limit \<le> double_up limit p \<and>
    (\<forall>j<k. p * 2 ^ j < limit)"
  using assms
proof (induction limit p rule: double_up.induct)
  case (1 limit p)
  show ?case
  proof (cases "p < limit")
    case True
    with 1 obtain k where k: "double_up limit (2 * p) = 2 * p * 2 ^ k" "limit \<le> double_up limit (2 * p)"
      "\<forall>j<k. 2 * p * 2 ^ j < limit" by auto
    have "p * 2 ^ j < limit" if "j < Suc k" for j
      using that k(3) True by (cases j) (auto simp: mult.assoc mult.left_commute)
    with True 1(2) k show ?thesis by (intro exI [of _ "Suc k"]) (simp add: double_up.simps [of limit p])
  next
    case False
    then show ?thesis by (intro exI [of _ 0]) (simp add: double_up.simps [of limit p])
  qed
qed

lemma double_up_least:
  assumes "limit \<le> 2 ^ m"
  shows "double_up limit 1 \<le> 2 ^ m"
proof -
  obtain k where k: "double_up limit 1 = 2 ^ k" "\<forall>j<k. 2 ^ j < limit"
    using double_up_power [of 1 limit] by auto
  with assms have "k \<le> m" by (meson not_le)
  with k(1) show ?thesis by simp
qed

lemma double_up_mono: "limit \<le> limit' \<Longrightarrow> double_up limit 1 \<le> double_up limit' 1"
  using double_up_power [of 1 limit'] double_up_least by (metis mult_1 order_trans zero_less_one)

section \<open>Monotonicity\<close>

lemma rounds_wellD:
  assumes "rounds_well R"
  shows "x \<le> y \<Longrightarrow> R x \<le> R y" "0 \<le> x \<Longrightarrow> 0 \<le> R x"
proof -
  from assms have m: "mono R" and z: "R 0 = 0" by (simp_all add: rounds_well_def)
  show "x \<le> y \<Longrightarrow> R x \<le> R y" using m by (rule monoD)
  show "0 \<le> x \<Longrightarrow> 0 \<le> R x" using monoD [OF m, of 0 x] z by simp
qed

lemma ram_need_mono:
  assumes "rounds_well R" "0 \<le> rss" "- 1 \<le> safety" "n \<le> n'"
  shows "ram_need R result rss n safety \<le> ram_need R result rss n' safety"
  unfolding ram_need_def using assms
  by (intro rounds_wellD(1) [OF assms(1)] add_left_mono mult_right_mono rounds_wellD(2) [OF assms(1)]) simp_all

lemma cpu_need_mono:
  assumes "rounds_well R" "0 \<le> pct" "0 \<le> af" "- 1 \<le> safety" "n \<le> n'"
  shows "cpu_need R result pct n af safety \<le> cpu_need R result pct n' af safety"
  unfolding cpu_need_def using assms
  by (intro rounds_wellD(1) [OF assms(1)] add_left_mono mult_right_mono rounds_wellD(2) [OF assms(1)]
      divide_right_mono of_int_le_iff [THEN iffD2] ceiling_mono) simp_all

lemma disk_need_mono:
  assumes "rounds_well R" "n \<le> n'"
  shows "disk_need R n g \<le> disk_need R n' g"
  unfolding disk_need_def using assms(2)
  by (intro rounds_wellD(1) [OF assms(1)] add_right_mono) simp

section \<open>The host\<close>

lemma le_last: "sorted xs \<Longrightarrow> c \<in> set xs \<Longrightarrow> c \<le> last xs"
  by (induction xs) auto

lemma round_up_covers:
  assumes "sorted choices" "choices \<noteq> []"
  shows "x \<le> round_up_pow2 x choices \<longleftrightarrow> x \<le> last choices"
proof (cases "filter (\<lambda>c. x \<le> c) choices")
  case Nil
  with assms(2) show ?thesis by simp
next
  case (Cons c cs)
  have "c \<in> set (filter (\<lambda>c. x \<le> c) choices)" by (simp only: Cons list.set_intros)
  then have c: "c \<in> set choices" "x \<le> c" by simp_all
  moreover have "c \<le> last choices" using assms(1) c(1) by (rule le_last)
  ultimately show ?thesis using Cons by simp
qed

lemma render_some:
  assumes "per_session_rss_gib R result = Some rss" "per_session_cpu_pct result = Some pct"
  obtains a where "render R result n af safety g = Some a" "rc_cpu a = \<lceil>cpu_need R result pct n af safety\<rceil>"
    "rc_ram a = \<lceil>ram_need R result rss n safety\<rceil>" "rc_disk a = \<lceil>disk_need R n g\<rceil>"
    "rc_fd a = double_up (1024 + n * 16) 1"
    "rc_host a = (round_up_pow2 (rc_cpu a) cpu_choices, round_up_pow2 (rc_ram a) ram_choices)"
  using that assms by (simp add: render_def Let_def suggest_host_shape_def)

text \<open>
  C40: the recommendation is sound. With more sessions it never asks for less processors, memory, disk or
  file descriptors; the number of file descriptors is the least power of two that covers the need; and
  the suggested host covers the stated need as long as that is within the largest shape (128 processors
  and 512 GiB), and never beyond it.
\<close>

theorem recommendation_sound:
  assumes "rounds_well R" "0 \<le> active_fraction" "- 1 \<le> safety" "n \<le> n'"
    and "per_session_rss_gib R result = Some rss" "0 \<le> rss" "per_session_cpu_pct result = Some pct" "0 \<le> pct"
  shows "\<exists>a b. render R result n active_fraction safety g = Some a \<and> render R result n' active_fraction safety g = Some b \<and>
    rc_cpu a \<le> rc_cpu b \<and> rc_ram a \<le> rc_ram b \<and> rc_disk a \<le> rc_disk b \<and> rc_fd a \<le> rc_fd b \<and>
    (\<exists>k. rc_fd a = 2 ^ k \<and> 1024 + n * 16 \<le> rc_fd a \<and> (\<forall>j. 1024 + n * 16 \<le> 2 ^ j \<longrightarrow> k \<le> j)) \<and>
    ((rc_cpu a \<le> fst (rc_host a)) = (rc_cpu a \<le> 128)) \<and> ((rc_ram a \<le> snd (rc_host a)) = (rc_ram a \<le> 512))"
proof -
  have fd: "\<exists>k. double_up (1024 + n * 16) 1 = 2 ^ k \<and> 1024 + n * 16 \<le> double_up (1024 + n * 16) 1 \<and>
      (\<forall>j. 1024 + n * 16 \<le> 2 ^ j \<longrightarrow> k \<le> j)"
    using double_up_power [of 1 "1024 + n * 16"] by simp (metis not_le)
  have "sorted cpu_choices" "cpu_choices \<noteq> []" "last cpu_choices = 128"
    "sorted ram_choices" "ram_choices \<noteq> []" "last ram_choices = 512"
    by (simp_all add: cpu_choices_def ram_choices_def)
  note host = round_up_covers [OF this(1,2)] round_up_covers [OF this(4,5)] this(3,6)
  obtain a where a: "render R result n active_fraction safety g = Some a" "rc_cpu a = \<lceil>cpu_need R result pct n active_fraction safety\<rceil>"
    "rc_ram a = \<lceil>ram_need R result rss n safety\<rceil>" "rc_disk a = \<lceil>disk_need R n g\<rceil>" "rc_fd a = double_up (1024 + n * 16) 1"
    "rc_host a = (round_up_pow2 (rc_cpu a) cpu_choices, round_up_pow2 (rc_ram a) ram_choices)"
    using render_some [OF assms(5,7)] .
  obtain b where b: "render R result n' active_fraction safety g = Some b" "rc_cpu b = \<lceil>cpu_need R result pct n' active_fraction safety\<rceil>"
    "rc_ram b = \<lceil>ram_need R result rss n' safety\<rceil>" "rc_disk b = \<lceil>disk_need R n' g\<rceil>" "rc_fd b = double_up (1024 + n' * 16) 1"
    using render_some [OF assms(5,7)] .
  have "rc_cpu a \<le> rc_cpu b" "rc_ram a \<le> rc_ram b" "rc_disk a \<le> rc_disk b" "rc_fd a \<le> rc_fd b"
    using assms by (simp_all add: a b ceiling_mono cpu_need_mono ram_need_mono disk_need_mono double_up_mono)
  moreover have "(rc_cpu a \<le> fst (rc_host a)) = (rc_cpu a \<le> 128)" "(rc_ram a \<le> snd (rc_host a)) = (rc_ram a \<le> 512)"
    unfolding a(6) fst_conv snd_conv host by simp_all
  ultimately show ?thesis using a(1) b(1) fd unfolding a(5) [symmetric] by blast
qed

text \<open>A small test: half a GiB and 40 percent of a processor for each of 100 sessions.\<close>

definition small_ramp :: ramp_result where
  "small_ramp = \<lparr>levels = [Some [Some 1073741824, None]], coefficients = Some (Some 512, Some 40),
     last_clean_level = Some 50, degradation_level = None, baseline = None\<rparr>"

theorem recommendation_sound_witness:
  "\<exists>a. render id small_ramp 100 (1 / 2) (1 / 4) 50 = Some a \<and> rc_cpu a = 27 \<and> rc_ram a = 65 \<and> rc_fd a = 4096 \<and>
     rc_cpu a \<le> fst (rc_host a)"
proof -
  have p: "per_session_rss_gib id small_ramp = Some (1 / 2)" "per_session_cpu_pct small_ramp = Some 40"
    by (simp_all add: per_session_rss_gib_def per_session_cpu_pct_def small_ramp_def)
  have "rounds_well id" by (simp add: rounds_well_def mono_def)
  from recommendation_sound [OF this _ _ order_refl p(1) _ p(2), of "1 / 2" "1 / 4" 100 50]
  obtain a where a: "render id small_ramp 100 (1 / 2) (1 / 4) 50 = Some a" "(rc_cpu a \<le> fst (rc_host a)) = (rc_cpu a \<le> 128)"
    by auto
  have "baseline_ram_gib id small_ramp = 2"
    by (simp add: baseline_ram_gib_def small_ramp_def round2_def nearest_def or_zero_def Let_def)
  then have "\<lceil>ram_need id small_ramp (1 / 2) 100 (1 / 4)\<rceil> = 65" "\<lceil>cpu_need id small_ramp 40 100 (1 / 2) (1 / 4)\<rceil> = 27"
    by (simp_all add: ram_need_def cpu_need_def baseline_cores_def ceiling_unique)
  moreover have "double_up (1024 + 100 * 16) 1 = 4096" by (simp add: double_up.simps)
  moreover obtain b where b: "render id small_ramp 100 (1 / 2) (1 / 4) 50 = Some b"
    "rc_cpu b = \<lceil>cpu_need id small_ramp 40 100 (1 / 2) (1 / 4)\<rceil>" "rc_ram b = \<lceil>ram_need id small_ramp (1 / 2) 100 (1 / 4)\<rceil>"
    "rc_fd b = double_up (1024 + 100 * 16) 1"
    using render_some [OF p] .
  ultimately have "rc_cpu a = 27" "rc_ram a = 65" "rc_fd a = 4096" using a(1) by simp_all
  with a show ?thesis by simp
qed

end
