(* ===== verification/TenantCli.thy ===== *)
theory TenantCli
  imports Auth
begin

text \<open>
  The operator's command line for tenants (\<open>tools/sandbox_tenants.py\<close>): \<open>create\<close> and \<open>list\<close>, on the database
  of the service. What is printed is the value returned; parsing of the arguments is left out.
\<close>

text \<open>The bearer token that is printed.\<close>

definition cmd_create :: "'x ctx \<Rightarrow> string \<Rightarrow> string option \<Rightarrow> ('x, string) W" where
  "cmd_create E tenant_id display_name =
     thenM (r_create_tenant E tenant_id
         (case display_name of None \<Rightarrow> tenant_id | Some d \<Rightarrow> if d = [] then tenant_id else d) no_limits None)
    (bindM (outM (readM (o_secret E))) (\<lambda>plaintext.
     thenM (issue_initial_token E tenant_id plaintext None None) (ret plaintext)))"

primrec active_of_each ::
  "'x ctx \<Rightarrow> (string \<times> string \<times> ms) list \<Rightarrow> ('x, (string \<times> string \<times> ms \<times> nat) list) W" where
  "active_of_each E [] = ret []"
| "active_of_each E (t # ts) =
     (case t of (tid, name, created_ms) \<Rightarrow>
        bindM (now_ms E) (\<lambda>now.
        bindM (getsM (\<lambda>w. list_active_tokens now tid (w_tokens w))) (\<lambda>active.
        bindM (active_of_each E ts) (\<lambda>rows. ret ((tid, name, created_ms, length active) # rows)))))"

definition cmd_list :: "'x ctx \<Rightarrow> ('x, (string \<times> string \<times> ms \<times> nat) list) W" where
  "cmd_list E = bindM (getsM (\<lambda>w. list_tenants (w_tenants w))) (active_of_each E)"

lemma r_create_tenant_exists:
  assumes "r_create_tenant E tid nm l eg w = (q, w')"
  shows "q = Inr () \<and> w_tokens w' = w_tokens w \<and> (\<exists>t. get_tenant_full tid (w_tenants w') = Some t) \<and>
    (\<forall>t. get_tenant_full tid (w_tenants w) = Some t \<longrightarrow> w_tenants w' = w_tenants w)"
proof -
  obtain ts x where "o_now E (w_out w) = (ts, x)" by fastforce
  with assms have "q = Inr ()" "w' = w\<lparr>w_out := x, w_tenants := create_tenant ts tid nm l eg (w_tenants w)\<rparr>"
    by (auto simp: r_create_tenant_def bindM_def now_ms_def outM_read)
  then show ?thesis
    by (auto simp: create_tenant_def get_tenant_full_def)
qed

text \<open>
  The printed token is accepted from then on, as a token of that tenant without any restriction. A tenant
  that exists keeps its row: the command then hands out one more token for it.
\<close>

lemma cmd_create_works:
  assumes "tokens_wf (w_tokens w)" "cmd_create E tid d w = (Inr p, w')"
  shows "\<exists>kid. \<forall>now. accepts now (hash_token E p) (w_tokens w') = Some (context_of kid tid None)"
    "\<exists>t. get_tenant_full tid (w_tenants w') = Some t"
proof -
  let ?nm = "case d of None \<Rightarrow> tid | Some d \<Rightarrow> if d = [] then tid else d"
  obtain q1 w1 where c: "r_create_tenant E tid ?nm no_limits None w = (q1, w1)" by fastforce
  obtain s x where s: "o_secret E (w_out w1) = (s, x)" by fastforce
  note cr = r_create_tenant_exists [OF c]
  from assms(2) c cr s obtain kid where i: "issue_initial_token E tid p None None (w1\<lparr>w_out := x\<rparr>) = (Inr kid, w')"
    by (auto simp: cmd_create_def thenM_def bindM_def outM_read split: prod.splits sum.splits)
  from issue_initial_token_run [OF i] obtain ts where t: "w_tenants w' = w_tenants w1"
    "insert_token ts kid tid (hash_token E p) None None (w_tokens w) = Inr (w_tokens w')" using cr by auto
  from tok.find_add [OF assms(1) t(2), of "hash_token E p"]
  show "\<exists>kid. \<forall>now. accepts now (hash_token E p) (w_tokens w') = Some (context_of kid tid None)"
    by (auto simp: accepts_def)
  from cr t(1) show "\<exists>t. get_tenant_full tid (w_tenants w') = Some t" by simp
qed

end
