(* ===== verification/Mcp.thy ===== *)
theory Mcp
  imports Tenancy
begin

text \<open>
  The MCP server (\<open>api/mcp_server.py\<close>): the bearer check in front of it and one definition per
  tool. A tool reaches the same services as a route; the protocol around it is not modelled.
\<close>

section \<open>Tools\<close>

text \<open>
  What a failing tool raises: \<open>Surfaced code\<close> for a \<open>SandboxError\<close>, translated by \<open>_surface_error\<close>,
  \<open>Plain e\<close> for any other exception.
\<close>

datatype tool_error = Surfaced string | Plain exn

definition surface :: "('x, 'a) W \<Rightarrow> ('x world, tool_error, 'a) M" where
  "surface m w =
     (case m w of
        (Inr y, w') \<Rightarrow> (Inr y, w')
      | (Inl e, w') \<Rightarrow>
          (Inl (if is_sandbox_error e then Surfaced (case sandbox_detail e of Some (s, c) \<Rightarrow> c | None \<Rightarrow> ''error'')
                else Plain e), w'))"

datatype tool_reply =
    T_session session_response
  | T_ok
  | T_exec exec_response "string list"
  | T_file file_answer
  | T_content string int
  | T_listing "file_entry list"
  | T_process process_response
  | T_processes "process_response list"
  | T_logs string bool int

definition session_create :: "'x ctx \<Rightarrow> limits option \<Rightarrow> string \<Rightarrow> ('x, tool_reply) W" where
  "session_create E lim tenant =
     bindM (create_session E tenant lim) (\<lambda>row. ret (T_session (to_response (cfg E) row)))"

definition session_get :: "'x ctx \<Rightarrow> string \<Rightarrow> string \<Rightarrow> ('x, tool_reply) W" where
  "session_get E sid tenant = bindM (get_row sid tenant) (\<lambda>row. ret (T_session (to_response (cfg E) row)))"

definition session_stop :: "'x ctx \<Rightarrow> string \<Rightarrow> string \<Rightarrow> ('x, tool_reply) W" where
  "session_stop E sid tenant = bindM (stop_session E sid tenant) (\<lambda>row. ret (T_session (to_response (cfg E) row)))"

definition session_resume :: "'x ctx \<Rightarrow> string \<Rightarrow> string \<Rightarrow> ('x, tool_reply) W" where
  "session_resume E sid tenant =
     bindM (resume_session E sid tenant) (\<lambda>row. ret (T_session (to_response (cfg E) row)))"

definition session_destroy :: "'x ctx \<Rightarrow> string \<Rightarrow> string \<Rightarrow> ('x, tool_reply) W" where
  "session_destroy E sid tenant = thenM (destroy_session E (destroy_hook E) sid tenant) (ret T_ok)"

text \<open>
  The streaming branch of \<open>exec\<close>: the loop over the events. The chunks become progress messages; an
  error event raises, which abandons the generator where it stands; the result event ends it.
\<close>

fun progress_of :: "sse_event list \<Rightarrow> string list" where
  "progress_of [] = []"
| "progress_of (Sse_chunk name payload # es) = b64encode payload # progress_of es"
| "progress_of (_ # es) = progress_of es"

fun result_of :: "sse_event list \<Rightarrow> exec_response option" where
  "result_of [] = None"
| "result_of (Sse_result y # es) = (case result_of es of None \<Rightarrow> Some y | Some z \<Rightarrow> Some z)"
| "result_of (_ # es) = result_of es"

definition stop_at :: "sse_event list \<Rightarrow> nat" where
  "stop_at es = Suc (length (takeWhile (\<lambda>e. e \<noteq> Sse_error) es))"

text \<open>
  \<open>n\<close> bounds the events that are read; one more than there are is enough. The generator is a function
  of what is asked of it, so reading up to the error event is asking for that many events.
\<close>

definition exec_streaming :: "nat \<Rightarrow> 'x ctx \<Rightarrow> string \<Rightarrow> exec_request \<Rightarrow> string \<Rightarrow> ('x, tool_reply) W" where
  "exec_streaming n E sid req tenant =
     thenM (validate_stream_request req)
       (\<lambda>w. case run_stream E sid tenant req n w of
          (Inl e, w') \<Rightarrow> (Inl e, w')
        | (Inr es, w') \<Rightarrow>
            if Sse_error \<in> set es then
              (Inl RuntimeError, snd (run_stream E sid tenant req (stop_at es) w))
            else case result_of es of
                None \<Rightarrow> (Inl Unfinished, w')
              | Some y \<Rightarrow> (Inr (T_exec y (progress_of es)), w'))"

definition exec_tool ::
  "nat \<Rightarrow> 'x ctx \<Rightarrow> string \<Rightarrow> exec_request \<Rightarrow> bool \<Rightarrow> string \<Rightarrow> ('x, tool_reply) W" where
  "exec_tool n E sid req wants_streaming tenant =
     (if \<not> wants_streaming then bindM (run_exec E sid tenant req) (\<lambda>y. ret (T_exec y []))
      else exec_streaming n E sid req tenant)"

definition file_write :: "'x ctx \<Rightarrow> string \<Rightarrow> file_write_request \<Rightarrow> string \<Rightarrow> ('x, tool_reply) W" where
  "file_write E sid req tenant = bindM (write_file E sid tenant req) (\<lambda>a. ret (T_file a))"

definition file_read :: "'x ctx \<Rightarrow> string \<Rightarrow> string \<Rightarrow> string \<Rightarrow> ('x, tool_reply) W" where
  "file_read E sid path tenant =
     bindM (read_file E sid tenant path) (\<lambda>(content, mode). ret (T_content (b64encode content) mode))"

definition file_list :: "'x ctx \<Rightarrow> string \<Rightarrow> string \<Rightarrow> string \<Rightarrow> ('x, tool_reply) W" where
  "file_list E sid subdir tenant = bindM (list_dir E sid tenant subdir) (\<lambda>es. ret (T_listing es))"

text \<open>
  \<open>file_service.delete(session_id, tenant, path, recursive)\<close>: the parameter \<open>recursive\<close> of \<open>delete\<close> is
  keyword-only, so that the call itself raises and nothing runs.
\<close>

definition file_delete :: "'x ctx \<Rightarrow> string \<Rightarrow> string \<Rightarrow> bool \<Rightarrow> string \<Rightarrow> ('x, tool_reply) W" where
  "file_delete E sid path recursive tenant = raise TypeError"

definition process_start :: "nat \<Rightarrow> 'x ctx \<Rightarrow> string \<Rightarrow> start_request \<Rightarrow> string \<Rightarrow> ('x, tool_reply) W" where
  "process_start fuel E sid req tenant = bindM (start_process fuel E sid tenant req) (\<lambda>p. ret (T_process p))"

definition process_list :: "'x ctx \<Rightarrow> string \<Rightarrow> string \<Rightarrow> ('x, tool_reply) W" where
  "process_list E sid tenant = bindM (list_session_processes E sid tenant) (\<lambda>ps. ret (T_processes ps))"

definition process_get :: "'x ctx \<Rightarrow> string \<Rightarrow> string \<Rightarrow> string \<Rightarrow> ('x, tool_reply) W" where
  "process_get E sid pid tenant = bindM (get_session_process E sid tenant pid) (\<lambda>p. ret (T_process p))"

definition process_logs :: "'x ctx \<Rightarrow> string \<Rightarrow> string \<Rightarrow> int \<Rightarrow> string \<Rightarrow> ('x, tool_reply) W" where
  "process_logs E sid pid lines tenant =
     (if lines < 1 \<or> 1000 < lines then raise RuntimeError
      else bindM (tail_logs E sid tenant pid lines) (\<lambda>(body, truncated). ret (T_logs body truncated lines)))"

definition process_stop :: "nat \<Rightarrow> 'x ctx \<Rightarrow> string \<Rightarrow> string \<Rightarrow> string \<Rightarrow> ('x, tool_reply) W" where
  "process_stop fuel E sid pid tenant =
     bindM (delete_session_process fuel E sid tenant pid) (\<lambda>p. ret (T_process p))"

section \<open>The server\<close>

datatype tool =
    Tool_session_create "limits option"
  | Tool_session_get string
  | Tool_session_stop string
  | Tool_session_resume string
  | Tool_session_destroy string
  | Tool_exec string exec_request bool
  | Tool_file_write string file_write_request
  | Tool_file_read string string
  | Tool_file_list string string
  | Tool_file_delete string string bool
  | Tool_process_start string start_request
  | Tool_process_list string
  | Tool_process_get string string
  | Tool_process_logs string string int
  | Tool_process_stop string string

fun run_tool :: "nat \<Rightarrow> 'x ctx \<Rightarrow> tool \<Rightarrow> string \<Rightarrow> ('x, tool_reply) W" where
  "run_tool n E (Tool_session_create lim) tenant = session_create E lim tenant"
| "run_tool n E (Tool_session_get sid) tenant = session_get E sid tenant"
| "run_tool n E (Tool_session_stop sid) tenant = session_stop E sid tenant"
| "run_tool n E (Tool_session_resume sid) tenant = session_resume E sid tenant"
| "run_tool n E (Tool_session_destroy sid) tenant = session_destroy E sid tenant"
| "run_tool n E (Tool_exec sid req streaming) tenant = exec_tool n E sid req streaming tenant"
| "run_tool n E (Tool_file_write sid req) tenant = file_write E sid req tenant"
| "run_tool n E (Tool_file_read sid path) tenant = file_read E sid path tenant"
| "run_tool n E (Tool_file_list sid dir) tenant = file_list E sid dir tenant"
| "run_tool n E (Tool_file_delete sid path rec) tenant = file_delete E sid path rec tenant"
| "run_tool n E (Tool_process_start sid req) tenant = process_start n E sid req tenant"
| "run_tool n E (Tool_process_list sid) tenant = process_list E sid tenant"
| "run_tool n E (Tool_process_get sid pid) tenant = process_get E sid pid tenant"
| "run_tool n E (Tool_process_logs sid pid lines) tenant = process_logs E sid pid lines tenant"
| "run_tool n E (Tool_process_stop sid pid) tenant = process_stop n E sid pid tenant"

text \<open>
  A request to \<open>/mcp\<close>. The middleware answers 401 itself, \<open>Inl\<close> on the outside; an exception of the
  authenticator other than \<open>Unauthorized\<close> would leave it, but there is none.
\<close>

definition mcp_call ::
  "nat \<Rightarrow> 'x ctx \<Rightarrow> tool \<Rightarrow> string option \<Rightarrow> ('x, tool_error + tool_reply) W" where
  "mcp_call n E tk authorization =
     bindM (auth E authorization) (\<lambda>tenant w.
       case surface (run_tool n E tk tenant) w of (r, w') \<Rightarrow> (Inr r, w'))"

section \<open>A tool and its route\<close>

text \<open>The route that does what a tool does, and how their answers correspond.\<close>

fun route_of :: "tool \<Rightarrow> route option" where
  "route_of (Tool_session_create lim) = Some (Create_session lim)"
| "route_of (Tool_session_get sid) = Some (Get_session sid)"
| "route_of (Tool_session_stop sid) = Some (Stop_session sid)"
| "route_of (Tool_session_resume sid) = Some (Resume_session sid)"
| "route_of (Tool_session_destroy sid) = Some (Destroy_session sid)"
| "route_of (Tool_exec sid req streaming) = (if streaming then None else Some (Exec_session sid req))"
| "route_of (Tool_file_write sid req) = Some (Write_file sid req)"
| "route_of (Tool_file_read sid path) = Some (Read_file sid path)"
| "route_of (Tool_file_list sid dir) = Some (List_files sid dir)"
| "route_of (Tool_file_delete sid path rec) = None"
| "route_of (Tool_process_start sid req) = Some (Start_process sid req)"
| "route_of (Tool_process_list sid) = Some (List_processes sid)"
| "route_of (Tool_process_get sid pid) = Some (Get_process sid pid)"
| "route_of (Tool_process_logs sid pid lines) = None"
| "route_of (Tool_process_stop sid pid) = Some (Delete_process sid pid)"

fun as_tool_reply :: "reply \<Rightarrow> tool_reply" where
  "as_tool_reply (A_session s) = T_session s"
| "as_tool_reply (A_exec y) = T_exec y []"
| "as_tool_reply (A_file a) = T_file a"
| "as_tool_reply (A_content content mode) = T_content (b64encode content) mode"
| "as_tool_reply (A_listing es) = T_listing es"
| "as_tool_reply (A_process p) = T_process p"
| "as_tool_reply (A_processes ps) = T_processes ps"
| "as_tool_reply _ = T_ok"

lemma run_tool_route:
  assumes "route_of tk = Some rt"
  shows "run_tool n E tk tenant w = (case tenant_route n E rt tenant w of (r, w') \<Rightarrow> (map_sum id as_tool_reply r, w'))"
  using assms
  by (cases tk)
    (auto simp: session_create_def session_get_def session_stop_def session_resume_def session_destroy_def
      exec_tool_def file_write_def file_read_def file_list_def process_start_def process_list_def process_get_def
      process_stop_def create_session_route_def get_session_route_def stop_session_route_def resume_session_route_def
      destroy_session_route_def exec_session_def write_file_route_def read_file_route_def list_files_def
      start_process_route_def list_processes_route_def get_process_route_def delete_process_route_def
      session_reply_def bindM_def thenM_def split: prod.splits sum.splits if_splits)

lemma mcp_call_authenticated:
  assumes "auth_full E a w = (Inr c, w1)"
  shows "mcp_call n E tk a w = (case surface (run_tool n E tk (c_tenant c)) w1 of (r, w') \<Rightarrow> (Inr r, w'))"
proof -
  have "auth E a w = (Inr (c_tenant c), w1)"
    using assms unfolding auth_def authenticate_def auth_full_def bindM_assoc [symmetric] by (simp add: bindM_def)
  then show ?thesis by (simp add: mcp_call_def bindM_def)
qed

lemma iso_run_tool: "keeps (isolated tn v) (run_tool n E tk tn)"
proof (cases "route_of tk")
  case (Some rt)
  have "isolated tn v (snd (run_tool n E tk tn w))" if "isolated tn v w" for w
    using keepsD [OF iso_tenant_route that, of n E rt]
    by (cases "tenant_route n E rt tn w") (simp add: run_tool_route [OF Some])
  then show ?thesis by (rule keepsI)
next
  case None
  have "keeps (isolated tn v) (exec_streaming n E sid req tn)" for sid req
  proof -
    have "isolated tn v w1" if "run_stream E sid tn req k w = (q, w1)" "isolated tn v w" for k w q w1
      using keeps_run [OF iso_run_stream that(2,1)] .
    then show ?thesis
      unfolding exec_streaming_def validate_stream_request_def
      by (auto simp: keeps_def thenM_def bindM_def split: prod.splits sum.splits option.splits)
        (metis prod.collapse)+
  qed
  moreover have "keeps (isolated tn v) (process_logs E sid pid l tn)" for sid pid l
    unfolding process_logs_def by (intro iso_rules keeps_rules)
  ultimately show ?thesis
    using None by (cases tk) (auto simp: exec_tool_def file_delete_def keeps_raise split: if_splits)
qed

section \<open>Properties\<close>


definition quiet_tenants :: "tb world" where
  "quiet_tenants = two_tenants\<lparr>w_procs := []\<rparr>"


end
