(* ===== verification/System.thy ===== *)
theory System
  imports Mcp
begin

text \<open>
  The service as a whole: requests, tool calls, background ticks and restarts as steps of one
  transition system, and the invariants of every state it can reach. A handler is one step here;
  what happens when two of them interleave at an await is the subject of \<open>Interleaving\<close>.
\<close>

section \<open>Invariants that every handler keeps\<close>

text \<open>
  The code starts a session only when its row has a container: \<open>housed\<close>, and \<open>op_ready\<close> for the
  operations on the table.
\<close>

definition housed :: "string \<Rightarrow> sessions \<Rightarrow> bool" where
  "housed sid t \<longleftrightarrow> (\<forall>r\<in>set t. s_id r \<noteq> sid) \<or> (\<exists>r\<in>set t. s_id r = sid \<and> s_container r \<noteq> None)"

definition op_ready :: "sess_op \<Rightarrow> sessions \<Rightarrow> bool" where
  "op_ready x t = (case x of Op_transition ts sid st \<Rightarrow> st = RUNNING \<longrightarrow> housed sid t | _ \<Rightarrow> True)"

text \<open>
  \<open>tame I\<close>: \<open>I\<close> does not look at the outside, an audit record keeps it, and so does any change of the
  tables but the insertion of a session and the start of one that has no container.
\<close>

definition tame :: "('x world \<Rightarrow> bool) \<Rightarrow> bool" where
  "tame I \<longleftrightarrow> frame I \<and> (\<forall>E ev. keeps I (emit E ev)) \<and>
     (\<forall>w x t. I w \<longrightarrow> \<not> is_insert x \<longrightarrow> op_ready x (w_sess w) \<longrightarrow> apply_sess_op x (w_sess w) = Inr t \<longrightarrow>
        I (w\<lparr>w_sess := t\<rparr>)) \<and>
     (\<forall>w t. I (w\<lparr>w_procs := t\<rparr>) = I w) \<and> (\<forall>w t. I (w\<lparr>w_tokens := t\<rparr>) = I w) \<and>
     (\<forall>w t. I (w\<lparr>w_tenants := t\<rparr>) = I w)"

named_theorems tame_rules "operations that keep every tame invariant"

lemma tameD:
  assumes "tame I"
  shows "frame I" "keeps I (emit E ev)" "I (w\<lparr>w_procs := t1\<rparr>) = I w" "I (w\<lparr>w_tokens := t2\<rparr>) = I w"
    "I (w\<lparr>w_tenants := t3\<rparr>) = I w"
    "I w \<Longrightarrow> \<not> is_insert x \<Longrightarrow> op_ready x (w_sess w) \<Longrightarrow> apply_sess_op x (w_sess w) = Inr t \<Longrightarrow> I (w\<lparr>w_sess := t\<rparr>)"
  using assms by (simp_all add: tame_def)

lemma tameI:
  assumes "frame I" "\<And>E ev. keeps I (emit E ev)"
    and "\<And>w x t. I w \<Longrightarrow> \<not> is_insert x \<Longrightarrow> op_ready x (w_sess w) \<Longrightarrow> apply_sess_op x (w_sess w) = Inr t \<Longrightarrow>
      I (w\<lparr>w_sess := t\<rparr>)"
    and "\<And>w t. I (w\<lparr>w_procs := t\<rparr>) = I w" "\<And>w t. I (w\<lparr>w_tokens := t\<rparr>) = I w" "\<And>w t. I (w\<lparr>w_tenants := t\<rparr>) = I w"
  shows "tame I"
  using assms unfolding tame_def by blast

lemma tame_prims [tame_rules]:
  assumes "tame I"
  shows "keeps I (outM m)" "keeps I (emit E ev)" "keeps I (now_ms E)" "keeps I (monotonic_ns E)" "keeps I (new_ulid E)"
    "keeps I (run_setup E a b c d)" "keeps I (run_teardown E a b c)" "keeps I (remove_container_of E row)"
    "keeps I (read_pid_with_retry n E cid path)" "keeps I (read_exit_code n E cid path)"
    "keeps I (sigterm_then_sigkill n E cid i g)"
  by (intro keeps_rules keeps_out tameD [OF assms])+

lemma tame_tables [tame_rules]:
  assumes "tame I"
  shows "keeps I (r_set_container sid cid)" "keeps I (r_transition E sid STOPPED)"
    "keeps I (r_transition E sid DESTROYING)" "keeps I (r_transition E sid DESTROYED)" "keeps I (r_touch_activity E sid)"
    "keeps I (r_transition_orphaned E sid)" "keeps I (r_mark_process_exited E pid c)"
    "keeps I (r_touch_process_polled E pid)" "keeps I (r_delete_process sid pid)" "keeps I (r_insert_process p)"
    "keeps I (r_insert_token E kid tn h sc nt)" "keeps I (r_revoke_token kid at)" "keeps I (r_create_tenant E tid nm l eg)"
proof -
  note t = tameD [OF assms]
  show "keeps I (r_set_container sid cid)"
    unfolding r_set_container_def by (rule keeps_modify) (rule t(6) [where x = "Op_container sid cid"], simp_all add: op_ready_def)
  have "keeps I (r_transition E sid st)" if "st \<noteq> RUNNING" for st
    unfolding r_transition_def using that
    by (intro keeps_rules keeps_tryTable t(1))
      (auto dest!: map_sum_Inr simp: op_ready_def intro: t(6) [where x = "Op_transition _ _ _"])
  then show "keeps I (r_transition E sid STOPPED)" "keeps I (r_transition E sid DESTROYING)"
    "keeps I (r_transition E sid DESTROYED)" by simp_all
  show "keeps I (r_touch_activity E sid)"
    unfolding r_touch_activity_def
    by (intro keeps_rules keeps_modify t(1)) (auto simp: op_ready_def intro: t(6) [where x = "Op_touch _ _"])
  show "keeps I (r_transition_orphaned E sid)"
    unfolding r_transition_orphaned_def
    by (intro keeps_rules keeps_modify t(1)) (auto simp: op_ready_def intro: t(6) [where x = "Op_orphan _ _"])
  show "keeps I (r_mark_process_exited E pid c)" "keeps I (r_touch_process_polled E pid)"
    "keeps I (r_create_tenant E tid nm l eg)"
    unfolding r_mark_process_exited_def r_touch_process_polled_def r_create_tenant_def
    by (intro keeps_rules keeps_modify t(1); simp add: t)+
  show "keeps I (r_delete_process sid pid)" "keeps I (r_revoke_token kid at)"
    unfolding r_delete_process_def r_revoke_token_def by (intro keeps_modify; simp add: t)+
  show "keeps I (r_insert_process p)"
    by (auto simp: keeps_def r_insert_process_run t split: sum.splits)
  show "keeps I (r_insert_token E kid tn h sc nt)"
    unfolding r_insert_token_def by (intro keeps_rules keeps_tryTable t(1)) (auto dest!: map_sum_Inr simp: t)
qed

lemma tame_bump [tame_rules]: "tame I \<Longrightarrow> keeps I (bump_activity E sid)"
  unfolding bump_activity_def by (intro keeps_rules tame_rules)

lemma tame_reap_rows [tame_rules]:
  assumes "tame I"
  shows "keeps I (reap_rows E cid ps)"
proof (induction ps)
  case Nil
  show ?case by (simp only: reap_rows.simps keeps_ret)
next
  case (Cons p ps)
  then show ?case by (simp only: reap_rows.simps) (intro keeps_rules tame_rules assms)
qed

lemma tame_hook [tame_rules]: "tame I \<Longrightarrow> keeps I (destroy_hook E row)"
  unfolding destroy_hook_def reap_session_processes_def by (intro keeps_rules tame_rules)

text \<open>While the row of a session has a container, everything keeps it that way, and starting it is allowed.\<close>

definition settled :: "('x world \<Rightarrow> bool) \<Rightarrow> string \<Rightarrow> 'x world \<Rightarrow> bool" where
  "settled I sid w \<longleftrightarrow> I w \<and> housed sid (w_sess w)"

lemma housed_upd:
  assumes "housed sid t" "\<And>r. s_id (f r) = s_id r" "\<And>r. s_container r \<noteq> None \<Longrightarrow> s_container (f r) \<noteq> None"
  shows "housed sid (t_upd P f t)"
proof (cases "\<forall>r\<in>set t. s_id r \<noteq> sid")
  case True
  with assms(2) show ?thesis by (auto simp: housed_def set_t_upd)
next
  case False
  with assms(1) obtain r where r: "r \<in> set t" "s_id r = sid" "s_container r \<noteq> None" by (auto simp: housed_def)
  let ?r = "if P r then f r else r"
  from r(1) have "?r \<in> set (t_upd P f t)" unfolding set_t_upd by (rule imageI)
  moreover have "s_id ?r = sid \<and> s_container ?r \<noteq> None" using r(2,3) assms(2,3) by simp
  ultimately show ?thesis unfolding housed_def by blast
qed

lemma housed_set_container: "housed sid (set_container sid cid t)"
proof (cases "\<forall>r\<in>set t. s_id r \<noteq> sid")
  case True
  then show ?thesis by (simp add: housed_def set_container_def set_t_upd)
next
  case False
  then obtain r where "r \<in> set t" "s_id r = sid" by blast
  then have "r\<lparr>s_container := Some cid\<rparr> \<in> set (set_container sid cid t)"
    unfolding set_container_def set_t_upd by (intro image_eqI [of _ _ r]) simp_all
  with \<open>s_id r = sid\<close> show ?thesis unfolding housed_def by (intro disjI2 bexI) simp_all
qed

lemma housed_op:
  assumes "housed sid t" "\<not> is_insert x" "apply_sess_op x t = Inr t'"
  shows "housed sid t'"
proof (cases x)
  case (Op_container i cid)
  with assms show ?thesis by (auto simp: set_container_def intro!: housed_upd)
next
  case (Op_transition ts i st)
  with assms(3) have "t' = write_status ts i st t" by (auto simp: transition_def split: option.splits if_splits)
  with assms(1) show ?thesis by (auto simp: write_status_def intro!: housed_upd)
next
  case (Op_touch ts i)
  with assms show ?thesis by (auto simp: touch_activity_def intro!: housed_upd)
next
  case (Op_orphan ts i)
  with assms show ?thesis by (auto simp: transition_orphaned_def intro!: housed_upd)
qed (use assms(2) in simp)

lemma tame_settled [tame_rules]:
  assumes "tame I"
  shows "tame (settled I sid)"
proof (rule tameI)
  note t = tameD [OF assms]
  have q: "quiet (\<lambda>w. housed sid (w_sess w))" by (simp add: quiet_def frame_def)
  show "frame (settled I sid)" using t(1) by (simp add: frame_def settled_def)
  show "keeps (settled I sid) (emit E ev)" for E ev
    using t(2) [of E ev] keeps_emit [OF q, of E ev] by (simp add: keeps_def settled_def)
qed (auto simp: settled_def tameD [OF assms] intro: tameD(6) [OF assms] housed_op)

lemma settled_start [tame_rules]:
  assumes "tame I"
  shows "keeps (settled I sid) (r_transition E sid RUNNING)"
proof -
  note t = tameD [OF tame_settled [OF assms, of sid]]
  have "settled I sid (w\<lparr>w_sess := t\<rparr>)" if "settled I sid w" "transition ts sid RUNNING (w_sess w) = Inr t" for w ts t
    by (rule t(6) [where x = "Op_transition ts sid RUNNING"]) (use that in \<open>simp_all add: op_ready_def settled_def\<close>)
  then show ?thesis
    unfolding r_transition_def by (intro keeps_rules keeps_tryTable t(1)) (auto dest!: map_sum_Inr)
qed

lemma settled_row:
  assumes "\<And>row cid. s_container row = Some cid \<Longrightarrow> keeps (settled I sid) (f row)"
    and "\<And>row. s_container row = None \<Longrightarrow> keeps I (f row)"
  shows "keeps I (bindM (get_row sid tn) f)"
proof (rule keepsI)
  fix w assume w: "I w"
  show "I (snd (bindM (get_row sid tn) f w))"
  proof (cases "get_session sid tn (w_sess w)")
    case None
    with w show ?thesis by (simp add: bindM_def get_row_run)
  next
    case (Some r)
    then have r: "r \<in> set (w_sess w)" "s_id r = sid" using get_session_found [OF Some] by blast+
    show ?thesis
    proof (cases "s_container r")
      case None
      with keepsD [OF assms(2) [OF None] w] \<open>get_session sid tn (w_sess w) = Some r\<close> show ?thesis
        by (simp add: bindM_def get_row_run)
    next
      case (Some cid)
      with r w have "settled I sid w" by (auto simp: settled_def housed_def)
      from keepsD [OF assms(1) [OF Some] this] \<open>get_session sid tn (w_sess w) = Some r\<close> show ?thesis
        by (simp add: bindM_def get_row_run settled_def)
    qed
  qed
qed

lemma assert_none_bind: "bindM (assert_some None) g = raise AssertionError"
  by (simp add: assert_some_def)

lemma settled_container:
  assumes "tame I" "keeps (settled I sid) m"
  shows "keeps I (thenM (r_set_container sid cid) m)"
proof (rule keepsI)
  fix w assume w: "I w"
  let ?v = "w\<lparr>w_sess := set_container sid cid (w_sess w)\<rparr>"
  have "I ?v" by (rule tameD(6) [OF assms(1) w, where x = "Op_container sid cid"]) (simp_all add: op_ready_def)
  then have "settled I sid ?v" by (simp add: settled_def housed_set_container)
  from keepsD [OF assms(2) this] show "I (snd (thenM (r_set_container sid cid) m w))"
    by (simp add: thenM_def bindM_def r_set_container_def modifyM_def settled_def)
qed

lemma tame_provision [tame_rules]:
  assumes "tame I"
  shows "keeps I (provision E sid tn vol l)"
  unfolding provision_def
  by (rule keeps_then [OF _ keeps_then [OF _ keeps_bind [OF _ settled_container [OF assms]]]])
    (intro keeps_rules tame_rules assms)+

lemma tame_rollback [tame_rules]: "tame I \<Longrightarrow> keeps I (rollback E sid vol)"
  unfolding rollback_def by (intro keeps_rules tame_rules)

lemma tame_stop [tame_rules]: "tame I \<Longrightarrow> keeps I (stop_session E sid tn)"
  unfolding stop_session_def by (intro keeps_rules tame_rules)

lemma tame_resume [tame_rules]:
  assumes "tame I"
  shows "keeps I (resume_session E sid tn)"
  unfolding resume_session_def
proof (rule keeps_then [OF keeps_precheck], rule settled_row, goal_cases)
  case (1 row cid)
  show ?case by (intro keeps_rules tame_rules assms)
next
  case (2 row)
  show ?case unfolding 2 assert_none_bind by (intro keeps_rules)
qed

lemma tame_destroy_locked [tame_rules]: "tame I \<Longrightarrow> keeps I (destroy_locked E (destroy_hook E) row reason)"
  unfolding destroy_locked_def by (intro keeps_rules tame_rules)

lemma tame_destroy [tame_rules]: "tame I \<Longrightarrow> keeps I (destroy_session E (destroy_hook E) sid tn)"
  unfolding destroy_session_def by (intro keeps_rules tame_rules)

lemma tame_reaps [tame_rules]:
  "tame I \<Longrightarrow> keeps I (reap_stop E row reason)" "tame I \<Longrightarrow> keeps I (reap_destroy E (destroy_hook E) row reason)"
  unfolding reap_stop_def reap_destroy_def by (intro keeps_rules tame_rules; assumption)+

lemma tame_exec [tame_rules]:
  assumes "tame I"
  shows "keeps I (prepare_exec E sid tn req)"
  unfolding prepare_exec_def validate_exec_def
proof (rule settled_row, goal_cases)
  case (1 row cid)
  show ?case by (intro keeps_rules tame_rules assms)
next
  case (2 row)
  show ?case unfolding 2 assert_none_bind by (intro keeps_rules)
qed

lemma tame_run_exec [tame_rules]: "tame I \<Longrightarrow> keeps I (run_exec E sid tn req)"
  unfolding run_exec_def encode_stdin_def by (intro keeps_rules tame_rules)

lemma tame_run_stream [tame_rules]: "tame I \<Longrightarrow> keeps I (run_stream E sid tn req n)"
  unfolding run_stream_def validate_stream_request_def by (intro keeps_rules tame_rules)

lemma tame_require_running [tame_rules]:
  assumes "tame I"
  shows "keeps I (require_running E sid tn)"
  unfolding require_running_def
proof (rule settled_row, goal_cases)
  case (1 row cid)
  show ?case by (intro keeps_rules tame_rules assms)
next
  case (2 row)
  show ?case unfolding 2 assert_none_bind by (intro keeps_rules)
qed

lemma tame_write_resolved [tame_rules]: "tame I \<Longrightarrow> keeps I (write_resolved E ses tn sid path content mode)"
  unfolding write_resolved_def by (intro keeps_rules tame_rules)

lemma tame_writes [tame_rules]:
  "tame I \<Longrightarrow> keeps I (write_file E sid tn req)" "tame I \<Longrightarrow> keeps I (write_raw E sid tn path content mode)"
  unfolding write_file_def write_raw_def by (intro keeps_rules tame_rules; assumption)+

lemma tame_file_reads [tame_rules]:
  "tame I \<Longrightarrow> keeps I (read_file E sid tn path)" "tame I \<Longrightarrow> keeps I (list_dir E sid tn path)"
  unfolding read_file_def list_dir_def by (intro keeps_rules tame_rules; assumption)+

lemma tame_delete_file [tame_rules]: "tame I \<Longrightarrow> keeps I (delete_file E sid tn path rec)"
  unfolding delete_file_def by (intro keeps_rules tame_rules)

lemma tame_refresh [tame_rules]: "tame I \<Longrightarrow> keeps I (maybe_refresh E row sid force)"
  unfolding maybe_refresh_def by (intro keeps_rules tame_rules)

lemma tame_refresh_all [tame_rules]:
  assumes "tame I"
  shows "keeps I (refresh_all E sid ps)"
proof (induction ps)
  case Nil
  show ?case by (simp only: refresh_all.simps keeps_ret)
next
  case (Cons p ps)
  then show ?case by (simp only: refresh_all.simps) (intro keeps_rules tame_rules assms)
qed

lemma tame_process_reads [tame_rules]:
  "tame I \<Longrightarrow> keeps I (list_session_processes E sid tn)" "tame I \<Longrightarrow> keeps I (get_session_process E sid tn pid)"
  "tame I \<Longrightarrow> keeps I (tail_logs E sid tn pid n)"
  unfolding list_session_processes_def get_session_process_def tail_logs_def
  by (intro keeps_rules tame_rules; assumption)+

lemma tame_start_process [tame_rules]: "tame I \<Longrightarrow> keeps I (start_process n E sid tn req)"
  unfolding start_process_def session_to_start_def launch_def by (intro keeps_rules tame_rules)

lemma tame_stop_process [tame_rules]: "tame I \<Longrightarrow> keeps I (stop_process n E sid tn pid g)"
  unfolding stop_process_def by (intro keeps_rules tame_rules)

lemma tame_delete_process [tame_rules]: "tame I \<Longrightarrow> keeps I (delete_session_process n E sid tn pid)"
  unfolding delete_session_process_def by (intro keeps_rules tame_rules)

section \<open>Routes, tools and ticks\<close>

fun creates :: "route \<Rightarrow> bool" where
  "creates (Create_session lim) = True"
| "creates _ = False"

lemma tame_log_events [tame_rules]: "tame I \<Longrightarrow> keeps I (log_events E ses p)"
  unfolding log_events_def by (intro keeps_rules tame_rules)

lemma tame_session_reply [tame_rules]: "keeps I (session_reply E row)"
  unfolding session_reply_def by (rule keeps_ret)

lemma tame_stream_route [tame_rules]: "tame I \<Longrightarrow> keeps I (exec_session_stream E sid req n tn)"
proof -
  assume "tame I"
  then have "keeps I (run_stream E sid tn req n)" by (rule tame_run_stream)
  then have "keeps I (\<lambda>w. case run_stream E sid tn req n w of (r, w') \<Rightarrow> (Inr (A_stream r), w'))"
    by (auto simp: keeps_def split: prod.splits)
  then show ?thesis unfolding exec_session_stream_def validate_stream_request_def by (intro keeps_rules)
qed

lemma tame_find_process [tame_rules]: "keeps I (find_process sid tn pid)"
  by (rule keeps_find_process)

lemma tame_tenant_route:
  assumes "tame I" "\<not> creates rt"
  shows "keeps I (tenant_route n E rt tn)"
  using assms
  by (cases rt)
    (simp_all add: get_session_route_def stop_session_route_def resume_session_route_def
      destroy_session_route_def exec_session_def write_file_route_def write_file_raw_def list_files_def read_file_route_def
      delete_file_route_def start_process_route_def list_processes_route_def get_process_route_def
      delete_process_route_def stream_process_logs_def keeps_ret,
      (intro keeps_rules tame_rules; assumption)+)

lemma tame_authenticate [tame_rules]: "tame I \<Longrightarrow> keeps I (authenticate_full E b)"
  unfolding authenticate_full_def by (intro keeps_rules tame_rules)

lemma tame_auth [tame_rules]:
  "tame I \<Longrightarrow> keeps I (auth E a)" "tame I \<Longrightarrow> keeps I (auth_full E a)" "tame I \<Longrightarrow> keeps I (require_scope E sc a)"
  "tame I \<Longrightarrow> keeps I (require_admin E a)" "tame I \<Longrightarrow> keeps I (auth_with_token_id E a)"
  unfolding auth_pair auth_def auth_full_def require_scope_def require_admin_def bearer_of_def authenticate_def
  by (intro keeps_rules tame_rules; assumption)+

lemma tame_tokens [tame_rules]:
  "tame I \<Longrightarrow> keeps I (issue_initial_token E tn p sc nt)" "tame I \<Longrightarrow> keeps I (rotate_token E tn kid)"
  "tame I \<Longrightarrow> keeps I (active_tokens E tn)" "tame I \<Longrightarrow> keeps I (revoke_all E tn)"
  unfolding issue_initial_token_def rotate_token_def active_tokens_def revoke_all_def
  by (intro keeps_rules tame_rules keeps_modify; simp add: tameD)+

lemma tame_tenant_reads [tame_rules]: "keeps I (the_tenant tid)" "keeps I (find_tenant tid)"
  unfolding the_tenant_def find_tenant_def by (intro keeps_rules)+

lemma tame_count_each [tame_rules]:
  assumes "tame I"
  shows "keeps I (count_each E ts)"
proof (induction ts)
  case Nil
  show ?case by (simp only: count_each.simps keeps_ret)
next
  case (Cons t ts)
  then show ?case by (simp only: count_each.simps) (intro keeps_rules tame_rules assms)
qed

lemma tame_destroy_each [tame_rules]:
  assumes "tame I"
  shows "keeps I (destroy_each E tid rows)"
proof (induction rows)
  case Nil
  show ?case by (simp only: destroy_each.simps keeps_ret)
next
  case (Cons row rows)
  then show ?case by (simp only: destroy_each.simps destroy_one_def) (intro keeps_rules tame_rules assms)
qed

lemma tame_admin_route: "tame I \<Longrightarrow> keeps I (admin_route E rt)"
  by (cases rt)
    (simp_all add: create_tenant_route_def list_tenants_route_def get_tenant_route_def update_tenant_route_def
      delete_tenant_route_def issue_token_route_def revoke_token_route_def keeps_ret Let_def,
      (intro keeps_rules tame_rules keeps_modify; simp add: tameD)+)

lemma tame_serve:
  assumes "tame I" "\<not> creates rt"
  shows "keeps I (serve n E rt a)"
proof -
  have u: "keeps I (get_tenant_usage E tid c)" for tid c
    unfolding get_tenant_usage_def by (intro keeps_rules tame_rules assms)
  have r: "keeps I (rotate_token_route E p)" for p
    unfolding rotate_token_route_def by (intro keeps_rules tame_rules assms)
  have s: "keeps I (bindM (auth_full E a) (\<lambda>c. case rt of Tenant_usage tid \<Rightarrow> get_tenant_usage E tid c | _ \<Rightarrow> ret A_alive))"
    using u by (cases rt) (simp_all, (intro keeps_rules tame_rules assms)+)
  have o: "keeps I (if rt = Readyz then readyz E else ret A_alive)"
    unfolding readyz_def by (intro keeps_rules tame_rules assms)
  show ?thesis
    unfolding serve_def using o s
    by (cases "guard_of rt") (simp_all, (intro keeps_rules tame_rules tame_tenant_route tame_admin_route r assms)+)
qed

lemmas keeps_plain = keeps_ret keeps_raise keeps_gets keeps_bind keeps_then keeps_try keeps_finally keeps_for keeps_if
  keeps_let keeps_case_option keeps_case_prod keeps_r_reads keeps_assert

lemma tame_logged [tame_rules]: "keeps I m \<Longrightarrow> keeps I (logged m)"
  by (rule keeps_logged)

lemma tame_limits [tame_rules]:
  "tame I \<Longrightarrow> keeps I (idle_stop E row)" "tame I \<Longrightarrow> keeps I (ttl_destroy E (destroy_hook E) row)"
  unfolding idle_stop_def ttl_destroy_def by (intro keeps_plain tame_rules; assumption)+

lemma tame_reaper_tick:
  "tame I \<Longrightarrow> (\<And>E. keeps I (maintenance_tick E)) \<Longrightarrow> keeps I (reaper_tick E (destroy_hook E))"
  unfolding reaper_tick_def by (intro keeps_plain tame_rules)

lemma tame_sweep [tame_rules]:
  assumes "tame I"
  shows "keeps I (sweep E kind now remove items b)"
proof (induction items arbitrary: b)
  case Nil
  show ?case by (simp only: sweep.simps keeps_ret)
next
  case (Cons item items)
  then show ?case
    by (simp only: sweep.simps reap_orphan_def) (intro keeps_plain tame_rules assms)
qed

lemma tame_orphan_tick: "tame I \<Longrightarrow> keeps I (orphan_tick E)"
  unfolding orphan_tick_def by (intro keeps_rules tame_rules)

lemma tame_sampler_tick: "tame I \<Longrightarrow> keeps I (sampler_tick E)"
  unfolding sampler_tick_def sample_row_def by (intro keeps_rules tame_rules)

lemma tame_finish_destroys [tame_rules]:
  assumes "tame I"
  shows "keeps I (finish_destroys E rows)"
proof (induction rows)
  case Nil
  show ?case by (simp only: finish_destroys.simps keeps_ret)
next
  case (Cons row rows)
  then show ?case
    by (simp only: finish_destroys.simps finish_destroy_def) (intro keeps_rules tame_rules assms)
qed

lemma tame_orphan_rows [tame_rules]:
  assumes "tame I"
  shows "keeps I (orphan_rows E rows)"
proof (induction rows)
  case Nil
  show ?case by (simp only: orphan_rows.simps keeps_ret)
next
  case (Cons row rows)
  then show ?case
    by (simp only: orphan_rows.simps orphan_row_def) (intro keeps_rules tame_rules assms)
qed

lemma tame_reconcile [tame_rules]: "tame I \<Longrightarrow> keeps I (reconcile_on_startup E)"
  unfolding reconcile_on_startup_def by (intro keeps_rules tame_rules)

lemma tame_bootstrap [tame_rules]: "tame I \<Longrightarrow> keeps I (bootstrap_default_tenant E)"
  unfolding bootstrap_default_tenant_def bootstrap_admin_token_def by (intro keeps_rules tame_rules)

lemma tame_startup: "tame I \<Longrightarrow> keeps I (startup E)"
  unfolding startup_def by (intro keeps_rules tame_rules)

lemma tame_run_tool:
  assumes "tame I" "\<forall>lim. tk \<noteq> Tool_session_create lim"
  shows "keeps I (run_tool n E tk tn)"
proof (cases "route_of tk")
  case (Some rt)
  with assms(2) have "\<not> creates rt" by (cases tk) (auto split: if_splits)
  then have k: "keeps I (tenant_route n E rt tn)" by (rule tame_tenant_route [OF assms(1)])
  have "I (snd (run_tool n E tk tn w))" if "I w" for w
    using keepsD [OF k that] by (cases "tenant_route n E rt tn w") (simp add: run_tool_route [OF Some])
  then show ?thesis by (rule keepsI)
next
  case None
  have "keeps I (exec_streaming n E sid req tn)" for sid req
  proof -
    have "I w1" if "run_stream E sid tn req k w = (q, w1)" "I w" for k w q w1
      using keeps_run [OF tame_run_stream [OF assms(1)] that(2,1)] .
    then show ?thesis
      unfolding exec_streaming_def validate_stream_request_def
      by (auto simp: keeps_def thenM_def bindM_def split: prod.splits sum.splits option.splits)
        (metis prod.collapse)+
  qed
  moreover have "keeps I (process_logs E sid pid l tn)" for sid pid l
    unfolding process_logs_def by (intro keeps_rules tame_rules assms)
  ultimately show ?thesis
    using None by (cases tk) (auto simp: exec_tool_def file_delete_def keeps_raise split: if_splits)
qed

section \<open>The registry stays well formed\<close>

lemma closed_registry: "sess_closed registry_wf"
proof -
  have "registry_wf (w\<lparr>w_sess := t\<rparr>)"
    if "registry_wf w" "apply_sess_op x (w_sess w) = Inr t" for w :: "'a world" and x t
    using that sess_op_owners [OF _ that(2)] apply_sess_op_wf [OF _ that(2)]
    by (simp add: registry_wf_def tables_wf_def)
  moreover have "quiet registry_wf"
    by (simp add: quiet_def frame_def registry_wf_def tables_wf_def owners_agree_def)
  ultimately show ?thesis by (simp add: sess_closed_def)
qed

lemma registry_tenants [simp]: "registry_wf (w\<lparr>w_tenants := t\<rparr>) = registry_wf w"
  by (simp add: registry_wf_def tables_wf_def owners_agree_def)

lemma isolated_keeps:
  fixes m :: "('x, 'b) W"
  assumes "\<And>v. keeps (isolated tn v) m"
  shows "keeps registry_wf m"
proof (rule keepsI)
  fix w :: "'x world" assume "registry_wf w"
  from keepsD [OF assms isolated_start [OF this]] show "registry_wf (snd (m w))" by (simp add: isolated_def)
qed

lemma registry_mark: "keeps registry_wf (r_mark_process_exited E pid c)"
  unfolding r_mark_process_exited_def
proof (intro keeps_rules keeps_modify)
  show "frame registry_wf" using sess_closed_quiet(2) [OF closed_registry] .
  fix ts and w :: "'a world" assume w: "registry_wf w"
  have "\<exists>q \<in> set (w_procs w). p_session q = p_session p \<and> p_tenant q = p_tenant p"
    if "p \<in> set (mark_process_exited ts pid c None (w_procs w))" for p
    using that by (auto simp: mark_process_exited_def set_t_upd split: if_splits)
  with w show "registry_wf (w\<lparr>w_procs := mark_process_exited ts pid c None (w_procs w)\<rparr>)"
    by (fastforce simp: registry_wf_def tables_wf_def owners_agree_def mark_process_exited_wf)
qed

lemma registry_hook: "keeps registry_wf (destroy_hook E row)"
proof -
  have "keeps registry_wf (reap_rows E cid ps)" for cid ps
  proof (induction ps)
    case Nil
    show ?case by (simp only: reap_rows.simps keeps_ret)
  next
    case (Cons p ps)
    then show ?case
      by (simp only: reap_rows.simps) (intro keeps_rules keeps_out registry_mark sess_closed_quiet closed_registry)
  qed
  then show ?thesis unfolding destroy_hook_def reap_session_processes_def by (intro keeps_rules)
qed

lemma registry_ticks:
  "keeps registry_wf (reaper_tick E (destroy_hook E))" "keeps registry_wf (orphan_tick E)" "keeps registry_wf (sampler_tick E)"
  by (intro keeps_rules closed_registry registry_hook sess_closed_quiet)+

lemma registry_bootstrap: "keeps registry_wf (bootstrap_default_tenant E)"
proof -
  have t: "keeps registry_wf (r_create_tenant E tid nm l eg)" for tid nm l eg
    unfolding r_create_tenant_def
    by (intro keeps_rules keeps_modify sess_closed_quiet closed_registry) simp
  have "keeps (isolated tn v) (issue_initial_token E tn p sc nt)" for tn v p sc nt
    unfolding issue_initial_token_def by (intro iso_rules keeps_rules)
  then have "keeps registry_wf (issue_initial_token E tn p sc nt)" for tn p sc nt by (rule isolated_keeps)
  then show ?thesis
    unfolding bootstrap_default_tenant_def bootstrap_admin_token_def by (intro keeps_rules t)
qed

lemma registry_startup: "keeps registry_wf (startup E)"
  unfolding startup_def
  by (intro keeps_rules keeps_out registry_bootstrap closed_registry sess_closed_quiet)

lemma iso_issue: "keeps (isolated tn v) (issue_token_route E tn req)"
  unfolding issue_token_route_def issue_initial_token_def the_tenant_def find_tenant_def
  by (intro iso_rules keeps_rules)

lemma registry_delete: "keeps registry_wf (delete_tenant_route E tid)"
proof (rule keepsI)
  fix w :: "'a world" assume w: "registry_wf w"
  obtain q w' where run: "delete_tenant_route E tid w = (q, w')" by fastforce
  show "registry_wf (snd (delete_tenant_route E tid w))"
  proof (cases "get_tenant_full tid (w_tenants w)")
    case None
    with w show ?thesis by (simp add: delete_tenant_route_def the_tenant_def find_tenant_def thenM_def bindM_def)
  next
    case (Some t)
    obtain ts n w2 ev where r: "isolated tid w w2"
      "emit E ev (w2\<lparr>w_tenants := delete_tenant_row tid (w_tenants w2)\<rparr>) = (Inr (), w')"
      by (rule delete_tenant_run [OF w Some run])
    have "registry_wf (w2\<lparr>w_tenants := delete_tenant_row tid (w_tenants w2)\<rparr>)"
      using r(1) by (simp add: isolated_def)
    from keeps_run [OF keeps_emit [OF sess_closed_quiet(1) [OF closed_registry]] this r(2)] run show ?thesis by simp
  qed
qed

lemma registry_admin_route: "keeps registry_wf (admin_route E rt)"
proof -
  have q: "frame registry_wf" "quiet registry_wf" by (simp_all add: closed_registry)
  have t: "keeps registry_wf (r_create_tenant E tid nm l eg)" for tid nm l eg
    unfolding r_create_tenant_def by (intro keeps_rules keeps_modify q) simp
  have c: "keeps registry_wf (active_tokens E tid)" for tid unfolding active_tokens_def by (intro keeps_rules q)
  have ce: "keeps registry_wf (count_each E ts)" for ts
  proof (induction ts)
    case Nil
    show ?case by (simp only: count_each.simps keeps_ret)
  next
    case (Cons t ts)
    then show ?case by (simp only: count_each.simps) (intro keeps_plain c)
  qed
  have rv: "keeps registry_wf (r_revoke_token kid at)" for kid at
    unfolding r_revoke_token_def
    by (rule keeps_modify) (simp add: registry_wf_def tables_wf_def owners_agree_def revoke_token_wf)
  have i: "keeps registry_wf (issue_token_route E tid req)" for tid req using iso_issue by (rule isolated_keeps)
  show ?thesis
    by (cases rt)
      (simp_all add: create_tenant_route_def list_tenants_route_def get_tenant_route_def update_tenant_route_def
        revoke_token_route_def keeps_ret i registry_delete Let_def,
        (intro keeps_rules tame_tenant_reads keeps_modify t c ce rv q; simp)+)
qed

lemma registry_serve: "registry_wf w \<Longrightarrow> registry_wf (snd (serve n E rt a w))"
proof -
  assume w: "registry_wf w"
  obtain q w1 where au: "auth_full E a w = (q, w1)" by fastforce
  obtain x where x: "w1 = w\<lparr>w_out := x\<rparr>" using auth_full_frame [OF au] by blast
  have fr: "frame (registry_wf :: 'a world \<Rightarrow> bool)" by (simp add: closed_registry)
  then have w1: "registry_wf w1" using w by (simp add: x frame_def)
  have route: "registry_wf (snd (tenant_route n E rt tn w1))" for tn
    using keepsD [OF isolated_keeps [OF iso_tenant_route] w1] .
  have usage: "registry_wf (snd (get_tenant_usage E tid c w1))" for tid c
    using keepsD [OF isolated_keeps [OF iso_usage] w1] .
  note g = guard_serve [OF au, of rt]
  show ?thesis
  proof (cases "guard_of rt")
    case Open
    have "keeps registry_wf (if rt = Readyz then readyz E else ret A_alive)"
      unfolding readyz_def by (intro keeps_rules keeps_out fr)
    with Open w show ?thesis by (simp add: serve_def keepsD)
  next
    case Token_pair
    have "registry_wf (snd (rotate_token_route E (c_tenant c, c_token c) w1))" if "q = Inr c" for c
    proof -
      have "keeps (isolated (c_tenant c) w) (rotate_token_route E (c_tenant c, c_token c))"
        unfolding rotate_token_route_def
        by (simp, intro keeps_rules iso_rotate caller_token_owned [OF w au [unfolded that]])
      moreover have "isolated (c_tenant c) w w1"
        using isolated_start [OF w] isolated_quiet(2) [of "c_tenant c" w] by (simp add: x frame_def)
      ultimately show ?thesis using keepsD by (metis isolated_def)
    qed
    with Token_pair g w1 show ?thesis by (cases q) simp_all
  next
    case Self
    with g usage w1 show ?thesis by (cases q) (auto split: route.splits)
  qed (use g w w1 route keepsD [OF registry_admin_route w1] in \<open>cases q; simp\<close>)+
qed

lemma registry_mcp: "registry_wf w \<Longrightarrow> registry_wf (snd (mcp_call n E tk a w))"
proof -
  assume w: "registry_wf w"
  have fr: "frame registry_wf" by (simp add: closed_registry)
  have "keeps registry_wf (auth E a)"
    unfolding auth_def bearer_of_def authenticate_def authenticate_full_def by (intro keeps_rules fr)
  then have "registry_wf (snd (auth E a w))" using w by (rule keepsD)
  moreover have "registry_wf (snd (run_tool n E tk tn v))" if "registry_wf v" for tn v
    using keepsD [OF isolated_keeps [OF iso_run_tool] that] .
  ultimately show ?thesis
    by (auto simp: mcp_call_def bindM_def surface_def split: prod.splits sum.splits) (metis prod.collapse snd_conv)+
qed

section \<open>Reachable states\<close>

text \<open>
  What can happen: a request, a tool call, a tick of one of the background tasks, a response put into
  the idempotency cache, a restart, and anything at all on the outside. A restart forgets what the
  audit emitter kept in memory.
\<close>

definition reboot :: "'x world \<Rightarrow> 'x world" where
  "reboot w = w\<lparr>w_audit := (w_audit w)\<lparr>buffer := [], unhealthy_since := None\<rparr>\<rparr>"

inductive sys_step :: "'x ctx \<Rightarrow> 'x world \<Rightarrow> 'x world \<Rightarrow> bool" for E where
  request: "serve n E rt a w = (q, w') \<Longrightarrow> sys_step E w w'"
| tool_call: "mcp_call n E tk a w = (r, w') \<Longrightarrow> sys_step E w w'"
| reaped: "reaper_tick E (destroy_hook E) w = (u, w') \<Longrightarrow> sys_step E w w'"
| swept: "orphan_tick E w = (u, w') \<Longrightarrow> sys_step E w w'"
| sampled: "sampler_tick E w = (u, w') \<Longrightarrow> sys_step E w w'"
| remembered: "store_cached E tn key c w = (u, w') \<Longrightarrow> sys_step E w w'"
| restarted: "startup E (reboot w) = (u, w') \<Longrightarrow> sys_step E w w'"
| outside: "sys_step E w (w\<lparr>w_out := x\<rparr>)"

definition sys_reach :: "'x ctx \<Rightarrow> 'x world \<Rightarrow> bool" where
  "sys_reach E w \<longleftrightarrow> (\<exists>x. (sys_step E)\<^sup>*\<^sup>* (start_world x) w)"

definition cap_of :: "'x ctx \<Rightarrow> int" where
  "cap_of E = max 0 (tenant_max_concurrent (cfg E))"

lemma tame_cap: "tame (within_cap M tn)"
  using closed_cap [of M tn] sess_closed_quiet(1,2) [OF closed_cap, of M tn]
  by (auto simp: tame_def sess_closed_def within_cap_def frame_def intro!: keeps_emit)

lemma tame_audit_ok: "tame audit_ok"
  by (simp add: tame_def frame_def keeps_emit_ok audit_ok_def is_healthy_def)

lemma audit_ok_create: "keeps audit_ok (create_session E tn lim)"
proof -
  have "keeps audit_ok (r_insert E sid tn vol l)" for sid vol l
    unfolding r_insert_def
    by (intro keeps_rules keeps_tryTable tameD(1) [OF tame_audit_ok])
      (auto dest!: map_sum_Inr simp: audit_ok_def is_healthy_def)
  then show ?thesis
    unfolding create_session_def
    by (intro keeps_plain keeps_precheck keeps_validate_limits keeps_default_limits tame_rules tame_audit_ok)
qed

lemma cap_create: "keeps (within_cap (cap_of E) tn) (create_session E tn lim)"
proof (cases "0 \<le> tenant_max_concurrent (cfg E)")
  case True
  then show ?thesis using create_within_cap [of E tn lim] by (simp add: cap_of_def)
next
  case False
  then have "tenant_max_concurrent (cfg E) \<le> count_concurrent tn t" for t by (simp add: count_concurrent_def)
  then have "snd (create_session E tn lim w) = w" for w :: "'a world"
    by (cases "is_healthy w") (simp_all add: create_session_def precheck_def thenM_def bindM_def guardM_def)
  then show ?thesis by (simp add: keeps_def)
qed

text \<open>The invariant of the whole system.\<close>

definition good :: "'x ctx \<Rightarrow> 'x world \<Rightarrow> bool" where
  "good E w \<longleftrightarrow> registry_wf w \<and> (\<forall>tn. within_cap (cap_of E) tn w) \<and> audit_ok w"

lemma good_parts:
  assumes "keeps registry_wf m" "\<And>tn. keeps (within_cap (cap_of E) tn) m" "keeps audit_ok m"
  shows "keeps (good E) m"
  using assms unfolding good_def keeps_def by blast

lemma good_tame:
  assumes "\<And>I. tame I \<Longrightarrow> keeps I m" "keeps registry_wf m"
  shows "keeps (good E) m"
  by (intro good_parts assms tame_cap tame_audit_ok)

lemma isolated_count:
  assumes "isolated tn v w" "tn' \<noteq> tn"
  shows "count_concurrent tn' (w_sess w) = count_concurrent tn' (w_sess v)"
proof -
  have f: "filter (\<lambda>r. s_tenant r = tn' \<and> \<not> terminal (s_status r)) t =
      filter (\<lambda>r. s_tenant r = tn' \<and> \<not> terminal (s_status r)) (filter (\<lambda>r. s_tenant r \<noteq> tn) t)" for t
    unfolding filter_filter using assms(2) by (intro filter_cong refl) auto
  moreover have "filter (\<lambda>r. s_tenant r \<noteq> tn) (w_sess w) = filter (\<lambda>r. s_tenant r \<noteq> tn) (w_sess v)"
    using assms(1) by (simp add: isolated_def same_for_others_def)
  ultimately show ?thesis unfolding count_concurrent_def f [of "w_sess w"] f [of "w_sess v"] by simp
qed

lemma good_create: "keeps (good E) (create_session E tn lim)"
proof (rule keepsI)
  fix w :: "'a world" assume w: "good E w"
  let ?w = "snd (create_session E tn lim w)"
  have i: "isolated tn w ?w"
    using w by (intro keepsD [OF iso_create_session] isolated_start) (simp add: good_def)
  have "within_cap (cap_of E) tn' ?w" for tn'
  proof (cases "tn' = tn")
    case True
    have "within_cap (cap_of E) tn w" using w by (simp add: good_def)
    with keepsD [OF cap_create] True show ?thesis by blast
  next
    case False
    with w i isolated_count [OF i False] show ?thesis
      by (simp add: good_def within_cap_def isolated_def registry_wf_def tables_wf_def)
  qed
  moreover have "audit_ok ?w" using w keepsD [OF audit_ok_create] unfolding good_def by blast
  ultimately show "good E ?w" using i by (simp add: good_def isolated_def)
qed

lemma good_serve: "keeps (good E) (serve n E rt a)"
proof (cases "creates rt")
  case False
  then show ?thesis by (intro good_tame tame_serve keepsI registry_serve)
next
  case True
  then obtain lim where rt: "rt = Create_session lim" by (cases rt) simp_all
  have "frame registry_wf" by (simp add: closed_registry)
  then have "keeps registry_wf (require_scope E Session_create a)"
    unfolding require_scope_def auth_full_def bearer_of_def authenticate_full_def by (intro keeps_rules)
  with good_tame [OF tame_auth(3)] have "keeps (good E) (require_scope E Session_create a)" by blast
  then show ?thesis
    by (simp add: rt serve_def, intro keeps_bind)
      (auto simp: create_session_route_def session_reply_def intro!: keeps_bind good_create keeps_ret)
qed

lemma keeps_surfaced:
  assumes "\<And>w. I w \<Longrightarrow> I (snd (m w))"
  shows "keeps I (\<lambda>w. case surface m w of (r, w') \<Rightarrow> (Inr r, w'))"
proof (rule keepsI)
  fix w assume "I w"
  with assms [of w] show "I (snd (case surface m w of (r, w') \<Rightarrow> (Inr r, w')))"
    by (auto simp: surface_def split: prod.splits sum.splits)
qed

lemma good_mcp: "keeps (good E) (mcp_call n E tk a)"
proof (cases "\<exists>lim. tk = Tool_session_create lim")
  case False
  have "keeps I (mcp_call n E tk a)" if "tame I" for I
  proof -
    have "I (snd (run_tool n E tk tn w))" if "I w" for tn w
      using keepsD [OF tame_run_tool [OF \<open>tame I\<close>]] False that by blast
    then have "keeps I (\<lambda>w. case surface (run_tool n E tk tn) w of (r, w') \<Rightarrow> (Inr r :: exn + tool_error + tool_reply, w'))" for tn
      by (rule keeps_surfaced)
    then show ?thesis unfolding mcp_call_def by (intro keeps_bind tame_rules \<open>tame I\<close>)
  qed
  then show ?thesis by (rule good_tame) (auto intro: keepsI registry_mcp)
next
  case True
  then obtain lim where tk: "tk = Tool_session_create lim" by blast
  have "frame registry_wf" by (simp add: closed_registry)
  then have "keeps registry_wf (auth E a)"
    unfolding auth_def bearer_of_def authenticate_def authenticate_full_def by (intro keeps_rules)
  with good_tame [OF tame_auth(1)] have au: "keeps (good E) (auth E a)" by blast
  have "good E (snd (run_tool n E tk tn w))" if "good E w" for tn w
    using keepsD [OF good_create that, of tn lim]
    by (auto simp: tk session_create_def bindM_def split: prod.splits sum.splits)
  then have "keeps (good E) (\<lambda>w. case surface (run_tool n E tk tn) w of (r, w') \<Rightarrow> (Inr r :: exn + tool_error + tool_reply, w'))" for tn
    by (rule keeps_surfaced)
  then show ?thesis unfolding mcp_call_def by (intro keeps_bind au)
qed

lemma good_start: "good E (start_world x)"
  by (simp add: good_def start_world_def registry_wf_def tables_wf_def owners_agree_def sessions_wf_def processes_wf_def
      tokens_wf_def keyed_def within_cap_def count_concurrent_def cap_of_def audit_ok_def)

lemma good_store: "keeps (good E) (store_cached E tn key c)"
proof -
  have same: "good E w = good E v"
    if "w_sess w = w_sess v" "w_procs w = w_procs v" "w_tokens w = w_tokens v" "w_tenants w = w_tenants v" "w_audit w = w_audit v"
    for w v :: "'a world"
    using that by (simp add: good_def registry_wf_def tables_wf_def owners_agree_def within_cap_def audit_ok_def is_healthy_def)
  have "frame (good E)" unfolding frame_def by (intro allI same) simp_all
  moreover have "good E (w\<lparr>w_idem := t\<rparr>) = good E w" for w t by (rule same) simp_all
  ultimately show ?thesis unfolding store_cached_def by (intro keeps_rules keeps_modify) simp_all
qed

lemma good_reboot: "good E w \<Longrightarrow> good E (reboot w)"
  by (simp add: good_def reboot_def registry_wf_def tables_wf_def owners_agree_def within_cap_def audit_ok_def)

lemma good_step:
  assumes "sys_step E w w'" "good E w"
  shows "good E w'"
  using assms
proof (cases rule: sys_step.cases)
  case (outside x)
  with assms(2) show ?thesis
    by (simp add: good_def registry_wf_def tables_wf_def owners_agree_def within_cap_def audit_ok_def is_healthy_def)
next
  case (reaped u)
  have "keeps (good E) (reaper_tick E (destroy_hook E))"
    by (intro good_parts registry_ticks tame_reaper_tick tame_cap tame_audit_ok keeps_maintenance_ok
        keeps_maintenance sess_closed_quiet(1) closed_cap)
  from keeps_run [OF this assms(2) reaped] show ?thesis .
next
  case (swept u)
  from keeps_run [OF good_tame [OF tame_orphan_tick registry_ticks(2)] assms(2) swept] show ?thesis .
next
  case (sampled u)
  from keeps_run [OF good_tame [OF tame_sampler_tick registry_ticks(3)] assms(2) sampled] show ?thesis .
next
  case (restarted u)
  from keeps_run [OF good_tame [OF tame_startup registry_startup] good_reboot [OF assms(2)] restarted] show ?thesis .
next
  case request
  from keeps_run [OF good_serve assms(2) this] show ?thesis .
next
  case tool_call
  from keeps_run [OF good_mcp assms(2) this] show ?thesis .
next
  case remembered
  from keeps_run [OF good_store assms(2) this] show ?thesis .
qed

lemma good_reach: "(sys_step E)\<^sup>*\<^sup>* v w \<Longrightarrow> good E v \<Longrightarrow> good E w"
  by (induction rule: rtranclp_induct) (blast intro: good_step)+



end
