(* ===== verification/Requests.thy ===== *)
theory Requests
  imports Mcp
begin

text \<open>
  The constraints that the request models of \<open>api/models.py\<close> and the query parameters of the routes
  declare. The framework refuses a request that violates them before a handler runs; the theorems that
  need one of them say so with \<open>route_ok\<close> or \<open>tool_ok\<close>. A length counts the elements of the
  string, which is the number of characters for names and ids in single-byte text.
\<close>

definition opt_ok :: "('a \<Rightarrow> bool) \<Rightarrow> 'a option \<Rightarrow> bool" where
  "opt_ok P x = (case x of None \<Rightarrow> True | Some y \<Rightarrow> P y)"

definition exec_request_ok :: "exec_request \<Rightarrow> bool" where
  "exec_request_ok req \<longleftrightarrow> r_argv req \<noteq> [] \<and> opt_ok (\<lambda>t. 1 \<le> t) (r_timeout req)"

definition mode_ok :: "int \<Rightarrow> bool" where
  "mode_ok mode \<longleftrightarrow> 0 \<le> mode \<and> mode \<le> 511"

definition file_write_ok :: "file_write_request \<Rightarrow> bool" where
  "file_write_ok req \<longleftrightarrow> fw_path req \<noteq> [] \<and> mode_ok (fw_mode req)"

definition start_request_ok :: "start_request \<Rightarrow> bool" where
  "start_request_ok req \<longleftrightarrow> sp_argv req \<noteq> [] \<and> opt_ok (\<lambda>s. length s \<le> 64) (sp_name req)"

definition tenant_limits_ok :: "tenant_limits \<Rightarrow> bool" where
  "tenant_limits_ok l \<longleftrightarrow> opt_ok (\<lambda>n. 1 \<le> n) (l_max_concurrency l) \<and> opt_ok (\<lambda>n. 1 \<le> n) (l_max_workspace_gib l) \<and>
     opt_ok (\<lambda>n. 1 \<le> n) (l_max_exec_timeout_s l)"

definition create_tenant_ok :: "create_tenant_request \<Rightarrow> bool" where
  "create_tenant_ok req \<longleftrightarrow> 1 \<le> length (ct_name req) \<and> length (ct_name req) \<le> 128 \<and>
     opt_ok (\<lambda>s. length s \<le> 256) (ct_display req) \<and> opt_ok tenant_limits_ok (ct_limits req)"

definition update_tenant_ok :: "update_tenant_request \<Rightarrow> bool" where
  "update_tenant_ok req \<longleftrightarrow>
     opt_ok (\<lambda>s. length s \<le> 256) (ut_display req) \<and> opt_ok tenant_limits_ok (ut_limits req)"

definition issue_token_ok :: "issue_token_request \<Rightarrow> bool" where
  "issue_token_ok req \<longleftrightarrow> opt_ok (\<lambda>s. length s \<le> 128) (it_note req)"

fun route_ok :: "route \<Rightarrow> bool" where
  "route_ok (Create_session lim) = opt_ok limits_ok lim"
| "route_ok (Exec_session sid req) = exec_request_ok req"
| "route_ok (Exec_stream sid req n) = exec_request_ok req"
| "route_ok (Write_file sid req) = file_write_ok req"
| "route_ok (Write_raw sid path content mode) = mode_ok mode"
| "route_ok (Start_process sid req) = start_request_ok req"
| "route_ok (Create_tenant req) = create_tenant_ok req"
| "route_ok (Update_tenant tid req) = update_tenant_ok req"
| "route_ok (Issue_token tid req) = issue_token_ok req"
| "route_ok _ = True"

text \<open>The tools build the same models from their arguments.\<close>

definition tool_ok :: "tool \<Rightarrow> bool" where
  "tool_ok tk = (case tk of
      Tool_exec sid req streaming \<Rightarrow> exec_request_ok req
    | _ \<Rightarrow> (case route_of tk of Some rt \<Rightarrow> route_ok rt | None \<Rightarrow> True))"

text \<open>A service that is asked through a tool sees a request that the corresponding route would accept.\<close>

lemma tool_route_ok: "route_of tk = Some rt \<Longrightarrow> tool_ok tk = route_ok rt"
  by (cases tk) (auto simp: tool_ok_def split: if_splits)

end
