(* ===== verification/History.thy ===== *)
theory History
  imports System Requests
begin

text \<open>
  What the service does over time. A run is a list of actions, each one a step of \<open>System\<close>; the
  theorems follow a session, the audit log and the limits of the sessions along every run.
\<close>

section \<open>Runs\<close>

datatype 'x action =
    Do_request nat route "string option"
  | Do_tool nat tool "string option"
  | Do_reap
  | Do_sweep
  | Do_sample
  | Do_remember string string cached
  | Do_restart
  | Do_outside 'x

fun perform :: "'x ctx \<Rightarrow> 'x action \<Rightarrow> 'x world \<Rightarrow> 'x world" where
  "perform E (Do_request n rt a) w = snd (serve n E rt a w)"
| "perform E (Do_tool n tk a) w = snd (mcp_call n E tk a w)"
| "perform E Do_reap w = snd (reaper_tick E (destroy_hook E) w)"
| "perform E Do_sweep w = snd (orphan_tick E w)"
| "perform E Do_sample w = snd (sampler_tick E w)"
| "perform E (Do_remember tn key c) w = snd (store_cached E tn key c w)"
| "perform E Do_restart w = snd (startup E (reboot w))"
| "perform E (Do_outside x) w = w\<lparr>w_out := x\<rparr>"

definition run_actions :: "'x ctx \<Rightarrow> 'x action list \<Rightarrow> 'x world \<Rightarrow> 'x world" where
  "run_actions E xs w = fold (perform E) xs w"

lemma perform_step: "sys_step E w (perform E x w)"
  by (cases x) (simp_all add: sys_step.intros split: prod.splits, (metis sys_step.intros prod.collapse)+)

lemma step_perform: "sys_step E w w' \<Longrightarrow> \<exists>x. w' = perform E x w"
  by (induction rule: sys_step.induct) (metis perform.simps snd_conv)+

lemma run_actions_simps [simp]:
  "run_actions E [] w = w" "run_actions E (x # xs) w = run_actions E xs (perform E x w)"
  by (simp_all add: run_actions_def)

lemma run_actions_reach: "(sys_step E)\<^sup>*\<^sup>* w (run_actions E xs w)"
  by (induction xs arbitrary: w) (auto intro: perform_step converse_rtranclp_into_rtranclp)

text \<open>The limits that an action asks a new session to have.\<close>

fun asks_limits :: "'x action \<Rightarrow> limits option option" where
  "asks_limits (Do_request n (Create_session lim) a) = Some lim"
| "asks_limits (Do_tool n (Tool_session_create lim) a) = Some lim"
| "asks_limits _ = None"

lemma tame_auth_parts:
  assumes "tame I"
  shows "keeps I (require_scope E sc a)" "keeps I (auth E a)"
  by (intro tame_rules assms)+

text \<open>A tame invariant that \<open>create\<close> keeps is kept by everything.\<close>

lemma tame_serve_all:
  assumes "tame I" "\<And>lim tn. rt = Create_session lim \<Longrightarrow> keeps I (create_session E tn lim)"
  shows "keeps I (serve n E rt a)"
proof (cases "creates rt")
  case False
  with assms(1) show ?thesis by (rule tame_serve)
next
  case True
  then obtain lim where rt: "rt = Create_session lim" by (cases rt) simp_all
  from assms(2) [OF this] have "keeps I (create_session E tn lim)" for tn .
  then show ?thesis
    by (simp add: rt serve_def, intro keeps_bind tame_auth_parts assms(1))
      (auto simp: create_session_route_def session_reply_def intro!: keeps_bind keeps_ret)
qed

lemma tame_mcp_all:
  assumes "tame I" "\<And>lim tn. tk = Tool_session_create lim \<Longrightarrow> keeps I (create_session E tn lim)"
  shows "keeps I (mcp_call n E tk a)"
proof -
  have "I (snd (run_tool n E tk tn w))" if "I w" for tn w
  proof (cases "\<exists>lim. tk = Tool_session_create lim")
    case False
    with keepsD [OF tame_run_tool [OF assms(1)] that] show ?thesis by blast
  next
    case True
    then obtain lim where tk: "tk = Tool_session_create lim" by blast
    from keepsD [OF assms(2) [OF this] that] have "I (snd (create_session E tn lim w))" .
    then show ?thesis
      by (auto simp: tk session_create_def bindM_def split: prod.splits sum.splits)
  qed
  then have "keeps I (\<lambda>w. case surface (run_tool n E tk tn) w of (r, w') \<Rightarrow> (Inr r :: exn + tool_error + tool_reply, w'))" for tn
    by (rule keeps_surfaced)
  then show ?thesis unfolding mcp_call_def by (intro keeps_bind tame_auth_parts assms(1))
qed

lemma tame_perform:
  assumes "tame I" "\<And>lim tn. asks_limits x = Some lim \<Longrightarrow> keeps I (create_session E tn lim)"
    and "\<And>E. keeps I (maintenance_tick E)" "x = Do_restart \<Longrightarrow> I (reboot w)" "I w"
    and "\<And>tn key c. x = Do_remember tn key c \<Longrightarrow> keeps I (store_cached E tn key c)"
  shows "I (perform E x w)"
proof (cases x)
  case (Do_request n rt a)
  have "keeps I (serve n E rt a)" using assms(1,2) Do_request by (intro tame_serve_all) auto
  with assms(5) show ?thesis by (simp add: Do_request keepsD)
next
  case (Do_tool n tk a)
  have "keeps I (mcp_call n E tk a)" using assms(1,2) Do_tool by (intro tame_mcp_all) auto
  with assms(5) show ?thesis by (simp add: Do_tool keepsD)
next
  case Do_reap
  with keepsD [OF tame_reaper_tick [OF assms(1,3)] assms(5)] show ?thesis by simp
next
  case Do_sweep
  with keepsD [OF tame_orphan_tick [OF assms(1)] assms(5)] show ?thesis by simp
next
  case Do_sample
  with keepsD [OF tame_sampler_tick [OF assms(1)] assms(5)] show ?thesis by simp
next
  case (Do_remember tn key c)
  with keepsD [OF assms(6) [OF Do_remember] assms(5)] show ?thesis by simp
next
  case Do_restart
  with keepsD [OF tame_startup [OF assms(1)] assms(4)] show ?thesis by simp
next
  case (Do_outside y)
  with assms(1,5) show ?thesis by (simp add: tame_def frame_def)
qed

lemma tame_store:
  assumes "tame I" "\<And>w t. I (w\<lparr>w_idem := t\<rparr>) = I w"
  shows "keeps I (store_cached E tn key c)"
  unfolding store_cached_def by (intro keeps_plain keeps_modify tame_rules assms) (simp add: assms(2))

lemma tame_create:
  assumes "tame I" "\<And>sid vol l. keeps I (r_insert E sid tn vol l)"
  shows "keeps I (create_session E tn lim)"
  unfolding create_session_def
  by (intro keeps_plain keeps_precheck keeps_validate_limits keeps_default_limits tame_rules assms)

lemma typed_r_insert:
  assumes "frame I" "\<And>w ts t. I w \<Longrightarrow> insert_session ts sid tn vol l (w_sess w) = Inr t \<Longrightarrow> I (w\<lparr>w_sess := t\<rparr>)"
  shows "keeps I (r_insert E sid tn vol l)"
  unfolding r_insert_def
  by (intro keeps_rules keeps_tryTable assms(1)) (auto dest!: map_sum_Inr intro: assms(2))

section \<open>A session over time\<close>

text \<open>What is known of a row \<open>r\<close> for ever after.\<close>

definition later_row :: "session \<Rightarrow> 'x world \<Rightarrow> bool" where
  "later_row r w \<longleftrightarrow> (\<exists>r'. get_unscoped (s_id r) (w_sess w) = Some r' \<and> row_fixed r r' \<and>
     row_step\<^sup>*\<^sup>* (s_status r) (s_status r'))"

lemma later_row_op:
  assumes "later_row r w" "apply_sess_op x (w_sess w) = Inr t"
  shows "later_row r (w\<lparr>w_sess := t\<rparr>)"
proof -
  from assms(1) obtain r' where r': "get_unscoped (s_id r) (w_sess w) = Some r'" "row_fixed r r'"
    "row_step\<^sup>*\<^sup>* (s_status r) (s_status r')" unfolding later_row_def by blast
  from apply_sess_op_row [OF assms(2) r'(1)] obtain q where q: "get_unscoped (s_id r) t = Some q" "row_fixed r' q"
    "s_status q = s_status r' \<or> row_step (s_status r') (s_status q)" by blast
  with r' have "row_fixed r q" "row_step\<^sup>*\<^sup>* (s_status r) (s_status q)"
    by (auto simp: row_fixed_def)
  with q(1) show ?thesis by (auto simp: later_row_def)
qed

lemma tame_later_row: "tame (later_row r)"
proof -
  have q: "quiet (later_row r)" by (simp add: quiet_def frame_def later_row_def)
  have "frame (later_row r)" by (simp add: frame_def later_row_def)
  with keeps_emit [OF q] later_row_op [of r] show ?thesis
    unfolding tame_def by (intro conjI allI impI) (assumption | simp add: later_row_def)+
qed

lemma later_row_perform:
  assumes "later_row r w"
  shows "later_row r (perform E x w)"
proof (rule tame_perform [OF tame_later_row _ _ _ assms])
  have f: "frame (later_row r)" using tameD(1) [OF tame_later_row] .
  have "keeps (later_row r) (r_insert E sid tn vol l)" for sid tn vol l
    using later_row_op [of r _ "Op_insert _ _ _ _ _"] by (intro typed_r_insert f) auto
  then show "keeps (later_row r) (create_session E tn lim)" for lim tn
    by (rule tame_create [OF tame_later_row])
  have "quiet (later_row r)" by (simp add: quiet_def frame_def later_row_def)
  then show "keeps (later_row r) (maintenance_tick E)" for E by (rule keeps_maintenance)
  show "later_row r (reboot w)" using assms by (simp add: later_row_def reboot_def)
  show "keeps (later_row r) (store_cached E tn key c)" for tn key c
    by (rule tame_store [OF tame_later_row]) (simp add: later_row_def)
qed

lemma later_row_run: "later_row r w \<Longrightarrow> later_row r (run_actions E xs w)"
  by (induction xs arbitrary: w) (simp_all add: later_row_perform)

section \<open>The audit log over time\<close>

text \<open>What has reached a file, and what waits in the buffer, of a log that started as \<open>a\<close>.\<close>

definition log_grown :: "audit_st \<Rightarrow> bool \<Rightarrow> 'x world \<Rightarrow> bool" where
  "log_grown a up w \<longleftrightarrow> audit_ok w \<and> (\<exists>ls. primary (w_audit w) = primary a @ ls) \<and>
     (\<exists>ls. fallback_file (w_audit w) = fallback_file a @ ls) \<and>
     (up \<longrightarrow> set (primary a) \<union> set (buffer a) \<union> set (fallback_file a) \<subseteq> recorded w)"

lemma log_grown_written:
  assumes "log_grown a up w" "recorded w \<subseteq> recorded w'" "audit_ok w'"
    and "all_written (w_audit w) new (w_audit w') \<or> part_written (w_audit w) new (w_audit w')"
  shows "log_grown a up w'"
  using assms by (auto simp: log_grown_def all_written_def part_written_def)

lemma log_grown_emit: "keeps (log_grown a up) (emit E ev)"
proof (rule keepsI)
  fix w :: "'a world" assume w: "log_grown a up w"
  obtain r w' where run: "emit E ev w = (r, w')" by fastforce
  from emit_run [OF run] obtain new where "all_written (w_audit w) new (w_audit w') \<or> part_written (w_audit w) new (w_audit w')"
    by metis
  with w emit_records [OF run] show "log_grown a up (snd (emit E ev w))" by (auto intro: log_grown_written simp: run)
qed

lemma log_grown_maintenance: "keeps (log_grown a up) (maintenance_tick E)"
proof (rule keepsI)
  fix w :: "'a world" assume w: "log_grown a up w"
  then have ok: "audit_ok w" by (simp add: log_grown_def)
  obtain r w' where run: "maintenance_tick E w = (r, w')" by fastforce
  from maintenance_run [OF run] have "w' = w \<or> (\<exists>new. all_written (w_audit w) new (w_audit w') \<or> part_written (w_audit w) new (w_audit w'))"
    by metis
  with w maintenance_records [OF run ok] show "log_grown a up (snd (maintenance_tick E w))"
    by (auto intro: log_grown_written simp: run)
qed

lemma tame_log_grown: "tame (log_grown a up)"
  by (simp add: tame_def frame_def log_grown_emit) (simp add: log_grown_def audit_ok_def is_healthy_def recorded_def)

lemma log_grown_perform:
  assumes "log_grown a up w" "up \<longrightarrow> x \<noteq> Do_restart"
  shows "log_grown a up (perform E x w)"
proof -
  let ?up = "up \<and> x \<noteq> Do_restart"
  have "keeps (log_grown a ?up) (r_insert E sid tn vol l)" for sid tn vol l
    by (intro typed_r_insert tameD(1) [OF tame_log_grown]) (auto simp: log_grown_def audit_ok_def is_healthy_def recorded_def)
  then have c: "keeps (log_grown a ?up) (create_session E tn lim)" for tn lim
    by (rule tame_create [OF tame_log_grown])
  have "log_grown a ?up w" using assms(1) by (auto simp: log_grown_def)
  moreover have "log_grown a ?up (reboot w)" if "x = Do_restart"
    using assms(1) that by (auto simp: log_grown_def reboot_def audit_ok_def)
  moreover have "keeps (log_grown a ?up) (store_cached E tn key c)" for tn key c
    by (rule tame_store [OF tame_log_grown]) (simp add: log_grown_def audit_ok_def is_healthy_def recorded_def)
  ultimately have "log_grown a ?up (perform E x w)"
    by (intro tame_perform [OF tame_log_grown c log_grown_maintenance])
  with assms(2) show ?thesis by (cases up) simp_all
qed

lemma log_grown_run:
  "log_grown a up w \<Longrightarrow> (up \<longrightarrow> Do_restart \<notin> set xs) \<Longrightarrow> log_grown a up (run_actions E xs w)"
  by (induction xs arbitrary: w) (auto simp: log_grown_perform)

section \<open>The limits of the sessions\<close>

text \<open>
  Limits as the request model and the service accept them, the name of the volume, and a container where
  there has to be one: \<open>exec\<close> and the file service assert that the row of a running session has it.
\<close>

definition row_typed :: "session \<Rightarrow> bool" where
  "row_typed r \<longleftrightarrow> limits_ok (s_limits r) \<and> within_max (s_limits r) \<and> s_volume r = ''sandbox-vol-'' @ s_id r \<and>
     (s_status r \<in> {RUNNING, IDLE} \<longrightarrow> s_container r \<noteq> None)"

definition table_typed :: "sessions \<Rightarrow> bool" where
  "table_typed t \<longleftrightarrow> keyed s_id t \<and> list_all row_typed t"

definition rows_typed :: "'x world \<Rightarrow> bool" where
  "rows_typed w \<longleftrightarrow> table_typed (w_sess w)"

lemma rows_typed_upd:
  assumes "table_typed t" "\<And>r. s_id (f r) = s_id r"
    and "\<And>r. r \<in> set t \<Longrightarrow> P r \<Longrightarrow> row_typed r \<Longrightarrow> row_typed (f r)"
  shows "table_typed (t_upd P f t)"
  using assms by (auto simp: table_typed_def keyed_t_upd list_all_iff set_t_upd)

lemma starting_housed:
  assumes "table_typed t" "op_ready (Op_transition ts i st) t"
    and q: "t_get s_id i t = Some q" and st: "st \<in> set (transitions (s_status q))" "st \<in> {RUNNING, IDLE}"
  shows "s_container q \<noteq> None"
proof -
  have q': "q \<in> set t" "s_id q = i" using q by (rule t_get_in, rule t_get_key)
  show ?thesis
  proof (cases "st = RUNNING")
    case True
    with assms(2) q' obtain r where r: "r \<in> set t" "s_id r = i" "s_container r \<noteq> None"
      by (auto simp: op_ready_def housed_def)
    moreover have "keyed s_id t" using assms(1) by (simp add: table_typed_def)
    ultimately show ?thesis using t_get_keyed [of s_id t r] q by simp
  next
    case False
    with st have "s_status q = RUNNING" by (cases "s_status q") auto
    with assms(1) q'(1) show ?thesis by (auto simp: table_typed_def list_all_iff row_typed_def)
  qed
qed

lemma table_typed_op:
  assumes w: "table_typed s" and "\<not> is_insert x" "op_ready x s" "apply_sess_op x s = Inr t"
  shows "table_typed t"
proof (cases x)
  case (Op_transition ts i st)
  with assms(4) obtain q where q: "t_get s_id i s = Some q" "st \<in> set (transitions (s_status q))"
    and t: "t = write_status ts i st s"
    by (auto simp: transition_def split: option.splits if_splits)
  have "row_typed (with_status ts st r)" if "r \<in> set s" "s_id r = i" "row_typed r" for r
  proof -
    have "r = q" using t_get_keyed [of s_id s r] w that q(1) by (simp add: table_typed_def)
    with starting_housed [OF w _ q(1,2)] assms(3) Op_transition that(3) show ?thesis
      by (auto simp: row_typed_def)
  qed
  then show ?thesis unfolding t write_status_def by (intro rows_typed_upd w) simp_all
qed (use assms(2,4) in \<open>auto simp: set_container_def touch_activity_def transition_orphaned_def row_typed_def
    intro!: rows_typed_upd w\<close>)

lemma tame_rows_typed: "tame rows_typed"
proof -
  have q: "quiet rows_typed" by (simp add: quiet_def frame_def rows_typed_def)
  show ?thesis
  proof (rule tameI)
    show "rows_typed (w\<lparr>w_sess := t\<rparr>)"
      if "rows_typed w" "\<not> is_insert x" "op_ready x (w_sess w)" "apply_sess_op x (w_sess w) = Inr t" for w :: "'a world" and x t
      using table_typed_op [OF _ that(2-4)] that(1) by (simp add: rows_typed_def)
  qed (simp_all add: frame_def rows_typed_def keeps_emit [OF q])
qed

lemma keeps_bind_post:
  assumes "\<And>w x w'. m w = (Inr x, w') \<Longrightarrow> P x" "keeps I m" "\<And>x. P x \<Longrightarrow> keeps I (f x)"
  shows "keeps I (bindM m f)"
proof (rule keepsI)
  fix w assume w: "I w"
  obtain q w' where m: "m w = (q, w')" by fastforce
  from keeps_run [OF assms(2) w m] have w': "I w'" .
  show "I (snd (bindM m f w))"
  proof (cases q)
    case (Inl e)
    with w' m show ?thesis by (simp add: bindM_def)
  next
    case (Inr x)
    with assms(1) m have "P x" by blast
    from keepsD [OF assms(3) [OF this] w'] show ?thesis using m Inr by (simp add: bindM_def)
  qed
qed

lemmas keeps_then_post = keeps_bind_post [where f = "\<lambda>_. n" for n, folded thenM_def]

lemma typed_create:
  assumes "opt_ok limits_ok lim"
  shows "keeps rows_typed (create_session E tn lim)"
proof -
  note t = tame_rows_typed
  have ins: "keeps rows_typed (r_insert E sid tn (''sandbox-vol-'' @ sid) l)" if "limits_ok l" "within_max l" for sid l
    using that
    by (intro typed_r_insert tameD(1) [OF t])
      (auto simp: insert_session_def rows_typed_def table_typed_def row_typed_def new_session_def keyed_snoc split: if_splits)
  have chosen: "keeps rows_typed (case lim of Some l \<Rightarrow> ret l | None \<Rightarrow> default_limits (cfg E))"
    by (cases lim) (simp_all add: keeps_ret keeps_default_limits)
  have ok: "limits_ok l" if "(case lim of Some l \<Rightarrow> ret l | None \<Rightarrow> default_limits (cfg E)) w = (Inr l, w')" for l w w'
    using that assms by (auto simp: opt_ok_def default_limits_def Let_def split: option.splits if_splits)
  have max: "within_max l" if "validate_limits l w = (Inr x, w')" for l w x w'
    using that by (simp add: validate_limits_run split: if_splits)
  show ?thesis
    unfolding create_session_def Let_def
    by (rule keeps_then [OF keeps_precheck], rule keeps_bind [OF keeps_gets], rule keeps_if [OF keeps_raise],
        rule keeps_bind_post [OF ok chosen], assumption, rule keeps_then_post [OF max keeps_validate_limits], assumption)
      (intro keeps_plain tame_rules t ins)
qed

fun asks_ok :: "'x action \<Rightarrow> bool" where
  "asks_ok (Do_request n rt a) = route_ok rt"
| "asks_ok (Do_tool n tk a) = tool_ok tk"
| "asks_ok _ = True"

lemma asks_ok_limits: "asks_ok x \<Longrightarrow> asks_limits x = Some lim \<Longrightarrow> opt_ok limits_ok lim"
  by (induction x rule: asks_limits.induct) (auto simp: tool_ok_def)

lemma rows_typed_perform:
  assumes "rows_typed w" "asks_ok x"
  shows "rows_typed (perform E x w)"
proof (rule tame_perform [OF tame_rows_typed _ _ _ assms(1)])
  show "keeps rows_typed (create_session E tn lim)" if "asks_limits x = Some lim" for lim tn
    by (rule typed_create) (rule asks_ok_limits [OF assms(2) that])
  have "quiet rows_typed" by (simp add: quiet_def frame_def rows_typed_def)
  then show "keeps rows_typed (maintenance_tick E)" for E by (rule keeps_maintenance)
  show "rows_typed (reboot w)" using assms(1) by (simp add: rows_typed_def reboot_def)
  show "keeps rows_typed (store_cached E tn key c)" for tn key c
    by (rule tame_store [OF tame_rows_typed]) (simp add: rows_typed_def)
qed

lemma rows_typed_run: "rows_typed w \<Longrightarrow> list_all asks_ok xs \<Longrightarrow> rows_typed (run_actions E xs w)"
  by (induction xs arbitrary: w) (auto simp del: asks_ok.simps intro: rows_typed_perform)

section \<open>Properties\<close>


text \<open>A tenant that stops its session.\<close>

definition stop_it :: "tb action list" where
  "stop_it = [Do_request 21 (Stop_session ''s1'') (Some ''Bearer secret''), Do_restart]"


text \<open>
  C8: the audit log over the life of the service. Both files only grow; a record, once emitted, is in
  one of them or waiting in the buffer until it is, whatever fails, and only a restart can lose what
  waits.
\<close>

theorem audit_only_grows:
  assumes "audit_ok w"
  shows "let w' = run_actions E xs w in
    (\<exists>ls. primary (w_audit w') = primary (w_audit w) @ ls) \<and>
    (\<exists>ls. fallback_file (w_audit w') = fallback_file (w_audit w) @ ls) \<and>
    (Do_restart \<in> set xs \<or> recorded w \<subseteq> recorded w') \<and> audit_ok w'"
proof -
  let ?up = "Do_restart \<notin> set xs"
  have "log_grown (w_audit w) ?up w" using assms by (auto simp: log_grown_def recorded_def)
  then have "log_grown (w_audit w) ?up (run_actions E xs w)" by (rule log_grown_run) simp
  then show ?thesis by (auto simp: log_grown_def recorded_def Let_def)
qed

theorem audit_only_grows_witness:
  "\<exists>ls. primary (w_audit (run_actions (testbed default_settings) stop_it
      (two_tenants\<lparr>w_audit := \<lparr>primary = [Heartbeat 1], fallback_file = [], buffer = [], unhealthy_since = None\<rparr>\<rparr>))) =
    Heartbeat 1 # ls"
proof -
  let ?w = "two_tenants\<lparr>w_audit := \<lparr>primary = [Heartbeat 1], fallback_file = [], buffer = [], unhealthy_since = None\<rparr>\<rparr>"
  have "audit_ok ?w" by (simp add: audit_ok_def)
  from audit_only_grows [OF this, of "testbed default_settings" stop_it] show ?thesis by (simp add: Let_def)
qed

text \<open>
  C9: the sessions are well typed. If the requests and the arguments of tools satisfy the
  constraints of the request models, then in every state of the service each session has limits
  between the model's minimum and the tenant maximum and the volume that belongs to its identifier, and
  a session that is running or idle has a container, as the services assert.
\<close>

theorem sessions_typed:
  assumes "list_all asks_ok xs"
  shows "list_all row_typed (w_sess (run_actions E xs (start_world x)))"
proof -
  have "rows_typed (start_world x)" by (simp add: rows_typed_def table_typed_def start_world_def)
  from rows_typed_run [OF this assms] show ?thesis by (simp add: rows_typed_def table_typed_def)
qed

theorem sessions_typed_witness:
  "let xs = [Do_restart, Do_request 21 (Create_session (Some demo_limits)) (Some ''Bearer secret''), Do_reap] in
     list_all asks_ok xs \<and> list_all row_typed (w_sess (run_actions (testbed default_settings) xs (start_world tb_start)))"
proof -
  let ?xs = "[Do_restart, Do_request 21 (Create_session (Some demo_limits)) (Some ''Bearer secret''), Do_reap] :: tb action list"
  have "list_all asks_ok ?xs" by (simp add: opt_ok_def limits_ok_def demo_limits_def)
  from sessions_typed [OF this, of "testbed default_settings" tb_start] this show ?thesis by (simp only: Let_def)
qed

end
