(* ===== verification/OpenApi.thy ===== *)
theory OpenApi
  imports Server
begin

text \<open>
  The polish of the generated OpenAPI document (\<open>_install_openapi_polish\<close> in \<open>api/server.py\<close>) and the
  comparison with the committed document (\<open>tools/dump_openapi.py\<close>). The generator itself,
  \<open>get_openapi\<close>, belongs to FastAPI; the code relies on it to give dictionaries where the format has
  objects, and the operations here leave anything else as it is. Texts of descriptions are left out: \<open>TEXT\<close>.
\<close>

section \<open>Dictionaries\<close>

fun put_key :: "string \<Rightarrow> json \<Rightarrow> (string \<times> json) list \<Rightarrow> (string \<times> json) list" where
  "put_key k v [] = [(k, v)]"
| "put_key k v ((i, x) # kvs) = (if i = k then (k, v) # kvs else (i, x) # put_key k v kvs)"

definition jget :: "string \<Rightarrow> json \<Rightarrow> json option" where
  "jget k j = (case j of JObj kvs \<Rightarrow> map_of kvs k | _ \<Rightarrow> None)"

definition jput :: "string \<Rightarrow> json \<Rightarrow> json \<Rightarrow> json" where
  "jput k v j = (case j of JObj kvs \<Rightarrow> JObj (put_key k v kvs) | _ \<Rightarrow> j)"

definition setdefault :: "string \<Rightarrow> json \<Rightarrow> json \<Rightarrow> json" where
  "setdefault k v j = (case jget k j of None \<Rightarrow> jput k v j | Some _ \<Rightarrow> j)"

text \<open>\<open>d = j.setdefault(k, \{\})\<close> followed by changes of \<open>d\<close> in place.\<close>

definition inside :: "string \<Rightarrow> (json \<Rightarrow> json) \<Rightarrow> json \<Rightarrow> json" where
  "inside k f j = jput k (f (case jget k j of None \<Rightarrow> JObj [] | Some d \<Rightarrow> d)) j"

text \<open>Python's truth of a value.\<close>

fun truthy_json :: "json \<Rightarrow> bool" where
  "truthy_json JNull = False"
| "truthy_json (JBool b) = b"
| "truthy_json (JInt n) = (n \<noteq> 0)"
| "truthy_json (JHundredths n) = (n \<noteq> 0)"
| "truthy_json (JStr s) = (s \<noteq> [])"
| "truthy_json (JList xs) = (xs \<noteq> [])"
| "truthy_json (JObj kvs) = (kvs \<noteq> [])"

section \<open>The polish\<close>

definition IDEMPOTENT_METHODS :: "string list" where
  "IDEMPOTENT_METHODS = [''post'', ''put'', ''patch'', ''delete'']"

definition HTTP_METHODS :: "string list" where
  "HTTP_METHODS = [''get'', ''post'', ''put'', ''patch'', ''delete'']"

definition PUBLIC_PATHS :: "string list" where
  "PUBLIC_PATHS = [''/healthz'', ''/readyz'', ''/metrics'']"

definition TEXT :: json where
  "TEXT = JStr ''text''"

definition bearer_scheme :: json where
  "bearer_scheme = JObj [(''type'', JStr ''http''), (''scheme'', JStr ''bearer''),
     (''bearerFormat'', JStr ''opaque''), (''description'', TEXT)]"

definition idempotency_parameter :: json where
  "idempotency_parameter = JObj [(''name'', JStr ''Idempotency-Key''), (''in'', JStr ''header''),
     (''required'', JBool False), (''description'', TEXT),
     (''schema'', JObj [(''type'', JStr ''string''), (''maxLength'', JInt 64)])]"

definition replay_header :: json where
  "replay_header = JObj [(''description'', TEXT),
     (''schema'', JObj [(''type'', JStr ''string''), (''enum'', JList [JStr ''true''])])]"

definition key_ref :: json where
  "key_ref = JObj [(''$ref'', JStr ''#/components/parameters/IdempotencyKey'')]"

definition raw_body :: json where
  "raw_body = JObj [(''required'', JBool False), (''description'', TEXT),
     (''content'', JObj [(''application/octet-stream'',
       JObj [(''schema'', JObj [(''type'', JStr ''string''), (''format'', JStr ''binary'')])])])]"

definition FILES_PATH :: string where
  "FILES_PATH = ''/v1/sessions/{session_id}/files/{path}''"

text \<open>The header of every successful response of an operation.\<close>

definition with_replay_header :: "json \<Rightarrow> json" where
  "with_replay_header op =
     (case jget ''responses'' op of
        Some (JObj rs) \<Rightarrow>
          if rs = [] then op
          else jput ''responses'' (JObj (map (\<lambda>(status, resp).
            (status, if take 1 status = ''2'' then inside ''headers'' (setdefault ''Idempotent-Replay'' replay_header) resp
                     else resp)) rs)) op
      | _ \<Rightarrow> op)"

definition with_key_parameter :: "json \<Rightarrow> json" where
  "with_key_parameter op =
     (let op' = setdefault ''parameters'' (JList []) op in
      case jget ''parameters'' op' of
        Some (JList ps) \<Rightarrow> if key_ref \<in> set ps then op' else jput ''parameters'' (JList (ps @ [key_ref])) op'
      | _ \<Rightarrow> op')"

definition open_operation :: "string \<Rightarrow> json \<Rightarrow> json" where
  "open_operation method item =
     (case jget method item of
        None \<Rightarrow> item
      | Some op \<Rightarrow> if op = JNull then item else jput method (jput ''security'' (JList []) op) item)"

definition keyed_operation :: "string \<Rightarrow> json \<Rightarrow> json" where
  "keyed_operation method item =
     (case jget method item of
        None \<Rightarrow> item
      | Some op \<Rightarrow> if \<not> truthy_json op then item else jput method (with_replay_header (with_key_parameter op)) item)"

definition polish_item :: "string \<Rightarrow> json \<Rightarrow> json" where
  "polish_item path item =
     (if path \<in> set PUBLIC_PATHS then fold open_operation HTTP_METHODS item
      else if take 4 path = ''/v1/'' then fold keyed_operation IDEMPOTENT_METHODS item
      else item)"

definition polish_paths :: "json \<Rightarrow> json" where
  "polish_paths schema =
     (case jget ''paths'' schema of
        Some (JObj items) \<Rightarrow>
          if items = [] then schema
          else jput ''paths'' (JObj (map (\<lambda>(path, item). (path, polish_item path item)) items)) schema
      | _ \<Rightarrow> schema)"

definition with_raw_body :: "json \<Rightarrow> json" where
  "with_raw_body schema =
     (case jget ''paths'' schema of
        None \<Rightarrow> schema
      | Some paths \<Rightarrow> (case jget FILES_PATH paths of
          None \<Rightarrow> schema
        | Some item \<Rightarrow> (case jget ''post'' item of
            None \<Rightarrow> schema
          | Some op \<Rightarrow>
              if op \<noteq> JNull \<and> jget ''requestBody'' op = None
              then jput ''paths'' (jput FILES_PATH (jput ''post'' (jput ''requestBody'' raw_body op) item) paths) schema
              else schema)))"

definition augment :: "json \<Rightarrow> json" where
  "augment schema =
     (let s1 = inside ''components'' (inside ''securitySchemes'' (setdefault ''bearerAuth'' bearer_scheme)) schema;
          s2 = setdefault ''security'' (JList [JObj [(''bearerAuth'', JList [])]]) s1;
          s3 = setdefault ''servers'' (JList [JObj [(''url'', JStr ''/''), (''description'', TEXT)]]) s2;
          s4 = inside ''components'' (inside ''parameters'' (jput ''IdempotencyKey'' idempotency_parameter)) s3
      in with_raw_body (polish_paths s4))"

text \<open>\<open>custom_openapi\<close>: the document is built once and kept.\<close>

definition custom_openapi :: "json \<Rightarrow> json option \<Rightarrow> json \<times> json option" where
  "custom_openapi generated cached =
     (case cached of
        Some s \<Rightarrow> if truthy_json s then (s, cached) else (augment generated, Some (augment generated))
      | None \<Rightarrow> (augment generated, Some (augment generated)))"

section \<open>The committed document\<close>

text \<open>
  The command of \<open>tools/dump_openapi.py\<close>: its exit code and the content of the file afterwards. \<open>current\<close>
  is the text of the polished document.
\<close>

definition dump_openapi :: "bool \<Rightarrow> string \<Rightarrow> string option \<Rightarrow> int \<times> string option" where
  "dump_openapi check current artifact =
     (if check then
        (case artifact of
           None \<Rightarrow> (1, artifact)
         | Some existing \<Rightarrow> if existing \<noteq> current then (1, artifact) else (0, artifact))
      else (0, Some current))"

section \<open>Lookups\<close>

lemma map_of_put_key: "map_of (put_key k v kvs) = (map_of kvs)(k \<mapsto> v)"
  by (induction kvs) auto

lemma jget_jput: "jget i (jput k v j) = (if i = k \<and> (\<exists>kvs. j = JObj kvs) then Some v else jget i j)"
  by (cases j) (auto simp: jget_def jput_def map_of_put_key)

lemma jget_obj: "jget k j = Some v \<Longrightarrow> \<exists>kvs. j = JObj kvs"
  by (cases j) (auto simp: jget_def)

lemma jget_setdefault: "i \<noteq> k \<Longrightarrow> jget i (setdefault k v j) = jget i j"
  by (simp add: setdefault_def jget_jput split: option.splits)

lemma jget_inside: "i \<noteq> k \<Longrightarrow> jget i (inside k f j) = jget i j"
  by (simp add: inside_def jget_jput)

lemma map_of_items: "map_of (map (\<lambda>(p, x). (p, f p x)) kvs) k = map_option (f k) (map_of kvs k)"
  by (induction kvs) auto

text \<open>The operation that the document has for a path and a method.\<close>

definition operation_of :: "string \<Rightarrow> string \<Rightarrow> json \<Rightarrow> json option" where
  "operation_of path method schema =
     Option.bind (Option.bind (jget ''paths'' schema) (jget path)) (jget method)"

text \<open>What one operation becomes, by itself.\<close>

definition documented :: "string \<Rightarrow> string \<Rightarrow> json \<Rightarrow> json" where
  "documented path method op =
     (if path \<in> set PUBLIC_PATHS then
        (if method \<in> set HTTP_METHODS \<and> op \<noteq> JNull then jput ''security'' (JList []) op else op)
      else if take 4 path = ''/v1/'' then
        (let op' = (if method \<in> set IDEMPOTENT_METHODS \<and> truthy_json op
                    then with_replay_header (with_key_parameter op) else op)
         in if path = FILES_PATH \<and> method = ''post'' \<and> op' \<noteq> JNull \<and> jget ''requestBody'' op' = None
            then jput ''requestBody'' raw_body op' else op')
      else op)"

lemma jget_open: "jget m (open_operation k item) =
    (if m = k then map_option (\<lambda>op. if op = JNull then op else jput ''security'' (JList []) op) (jget m item) else jget m item)"
  using jget_obj [of k item] by (auto simp: open_operation_def jget_jput split: option.splits)

lemma jget_keyed: "jget m (keyed_operation k item) =
    (if m = k then map_option (\<lambda>op. if truthy_json op then with_replay_header (with_key_parameter op) else op) (jget m item)
     else jget m item)"
  using jget_obj [of k item] by (auto simp: keyed_operation_def jget_jput split: option.splits)

lemma fold_pointwise:
  assumes "\<And>m k item. jget m (g k item) = (if m = k then map_option h (jget m item) else jget m item)" "distinct ks"
  shows "jget m (fold g ks item) = (if m \<in> set ks then map_option h (jget m item) else jget m item)"
  using assms(2) by (induction ks arbitrary: item) (auto simp: assms(1))

lemma polish_item_operation:
  "jget m (polish_item path item) = map_option (\<lambda>op.
     if path \<in> set PUBLIC_PATHS then (if m \<in> set HTTP_METHODS \<and> op \<noteq> JNull then jput ''security'' (JList []) op else op)
     else if take 4 path = ''/v1/'' then
       (if m \<in> set IDEMPOTENT_METHODS \<and> truthy_json op then with_replay_header (with_key_parameter op) else op)
     else op) (jget m item)"
proof -
  have d: "distinct HTTP_METHODS" "distinct IDEMPOTENT_METHODS" by (simp_all add: HTTP_METHODS_def IDEMPOTENT_METHODS_def)
  show ?thesis
    unfolding polish_item_def fold_pointwise [OF jget_open d(1)] if_distrib [of "jget m"] fold_pointwise [OF jget_keyed d(2)]
    by (cases "jget m item") auto
qed

lemma paths_polished: "jget ''paths'' (polish_paths s) =
    map_option (\<lambda>ps. case ps of JObj items \<Rightarrow> JObj (map (\<lambda>(path, item). (path, polish_item path item)) items) | _ \<Rightarrow> ps)
      (jget ''paths'' s)"
  using jget_obj [of "''paths''" s] by (auto simp: polish_paths_def jget_jput split: option.splits json.splits)

lemma operation_polished: "operation_of path m (polish_paths s) =
    Option.bind (Option.bind (jget ''paths'' s) (jget path)) (\<lambda>item. jget m (polish_item path item))"
proof (cases "jget ''paths'' s")
  case (Some ps)
  have "jget path (case ps of JObj items \<Rightarrow> JObj (map (\<lambda>(path, item). (path, polish_item path item)) items) | _ \<Rightarrow> ps) =
      map_option (polish_item path) (jget path ps)"
    by (cases ps) (simp_all add: jget_def map_of_items)
  then show ?thesis by (cases "jget path ps") (simp_all add: operation_of_def paths_polished Some)
qed (simp add: operation_of_def paths_polished)

lemma operation_raw_body: "operation_of path m (with_raw_body s) =
    map_option (\<lambda>op. if path = FILES_PATH \<and> m = ''post'' \<and> op \<noteq> JNull \<and> jget ''requestBody'' op = None
      then jput ''requestBody'' raw_body op else op) (operation_of path m s)"
proof (cases "\<exists>ps item op. jget ''paths'' s = Some ps \<and> jget FILES_PATH ps = Some item \<and> jget ''post'' item = Some op \<and>
    op \<noteq> JNull \<and> jget ''requestBody'' op = None")
  case True
  then obtain ps item op where f: "jget ''paths'' s = Some ps" "jget FILES_PATH ps = Some item" "jget ''post'' item = Some op"
    "op \<noteq> JNull" "jget ''requestBody'' op = None" by blast
  with jget_obj [OF f(1)] jget_obj [OF f(2)] jget_obj [OF f(3)] show ?thesis
    by (auto simp: with_raw_body_def operation_of_def jget_jput option.map_ident)
next
  case False
  then have same: "with_raw_body s = s" by (auto simp: with_raw_body_def split: option.splits)
  show ?thesis
  proof (cases "path = FILES_PATH \<and> m = ''post''")
    case True
    with False same show ?thesis
      by (cases "operation_of path m s") (auto simp: operation_of_def bind_eq_Some_conv)
  next
    case False
    then show ?thesis unfolding same by (cases "operation_of path m s") auto
  qed
qed

section \<open>Properties\<close>

text \<open>
  The polished document describes every operation by itself: the probes and the metrics are open,
  every operation of \<open>/v1/\<close> that changes state has the idempotency key as a parameter and the replay
  header on its successful responses, the raw file write has a body, and every other operation, path and
  tag of the generated document is as it was.
\<close>

theorem openapi_polish:
  "operation_of path method (augment schema) = map_option (documented path method) (operation_of path method schema)"
proof -
  let ?s = "inside ''components'' (inside ''parameters'' (jput ''IdempotencyKey'' idempotency_parameter))
    (setdefault ''servers'' (JList [JObj [(''url'', JStr ''/''), (''description'', TEXT)]])
    (setdefault ''security'' (JList [JObj [(''bearerAuth'', JList [])]])
    (inside ''components'' (inside ''securitySchemes'' (setdefault ''bearerAuth'' bearer_scheme)) schema)))"
  have "jget ''paths'' ?s = jget ''paths'' schema" by (simp add: jget_inside jget_setdefault)
  then have p: "operation_of path method (polish_paths ?s) =
      Option.bind (Option.bind (jget ''paths'' schema) (jget path)) (\<lambda>item. jget method (polish_item path item))"
    by (simp add: operation_polished)
  have files: "take 4 FILES_PATH = ''/v1/''" "FILES_PATH \<notin> set PUBLIC_PATHS" by (simp_all add: FILES_PATH_def PUBLIC_PATHS_def)
  have a: "operation_of path method (augment schema) = map_option (\<lambda>op.
      if path = FILES_PATH \<and> method = ''post'' \<and> op \<noteq> JNull \<and> jget ''requestBody'' op = None
      then jput ''requestBody'' raw_body op else op) (operation_of path method (polish_paths ?s))"
    unfolding augment_def Let_def by (rule operation_raw_body)
  have b: "operation_of path method (polish_paths ?s) = map_option (\<lambda>op.
     if path \<in> set PUBLIC_PATHS then (if method \<in> set HTTP_METHODS \<and> op \<noteq> JNull then jput ''security'' (JList []) op else op)
     else if take 4 path = ''/v1/'' then
       (if method \<in> set IDEMPOTENT_METHODS \<and> truthy_json op then with_replay_header (with_key_parameter op) else op)
     else op) (operation_of path method schema)"
    unfolding p unfolding operation_of_def polish_item_operation
    by (cases "Option.bind (jget ''paths'' schema) (jget path)") simp_all
  have "path \<noteq> FILES_PATH" if "path \<in> set PUBLIC_PATHS \<or> take 4 path \<noteq> ''/v1/''" using that files by metis
  then show ?thesis
    unfolding a b option.map_comp
    by (intro option.map_cong refl, cases "path \<in> set PUBLIC_PATHS"; cases "take 4 path = ''/v1/''")
      (simp_all only: documented_def Let_def o_apply if_True if_False simp_thms)
qed

end
