(* ===== verification/HttpStack.thy ===== *)
theory HttpStack
  imports History OpenApi
begin

text \<open>
  The application as HTTP sees it: the table of endpoints (the decorators of \<open>api/server.py\<close>), the
  answer to a request, and the stack of middlewares in front of the routes, with the Prometheus
  instruments of the requests (\<open>api/metrics.py\<close>). \<open>add_middleware\<close> puts a middleware in front of those
  added before: the metrics come first, then the idempotency cache, then the routes and the mounted MCP
  application. The rewriting of proxy headers, which changes nothing the code here reads, is left out.
\<close>

section \<open>Endpoints\<close>

record endpoint =
  ep_method :: string
  ep_path :: string
  ep_status :: int

definition ep_healthz :: endpoint where
  "ep_healthz = \<lparr>ep_method = ''GET'', ep_path = ''/healthz'', ep_status = 200\<rparr>"

definition ep_readyz :: endpoint where
  "ep_readyz = \<lparr>ep_method = ''GET'', ep_path = ''/readyz'', ep_status = 200\<rparr>"

definition ep_create_session :: endpoint where
  "ep_create_session = \<lparr>ep_method = ''POST'', ep_path = ''/v1/sessions'', ep_status = 201\<rparr>"

definition ep_get_session :: endpoint where
  "ep_get_session = \<lparr>ep_method = ''GET'', ep_path = ''/v1/sessions/{session_id}'', ep_status = 200\<rparr>"

definition ep_stop_session :: endpoint where
  "ep_stop_session = \<lparr>ep_method = ''POST'', ep_path = ''/v1/sessions/{session_id}/stop'', ep_status = 200\<rparr>"

definition ep_resume_session :: endpoint where
  "ep_resume_session = \<lparr>ep_method = ''POST'', ep_path = ''/v1/sessions/{session_id}/resume'', ep_status = 200\<rparr>"

definition ep_destroy_session :: endpoint where
  "ep_destroy_session = \<lparr>ep_method = ''DELETE'', ep_path = ''/v1/sessions/{session_id}'', ep_status = 204\<rparr>"

definition ep_exec_session :: endpoint where
  "ep_exec_session = \<lparr>ep_method = ''POST'', ep_path = ''/v1/sessions/{session_id}/exec'', ep_status = 200\<rparr>"

definition ep_exec_session_stream :: endpoint where
  "ep_exec_session_stream = \<lparr>ep_method = ''POST'', ep_path = ''/v1/sessions/{session_id}/exec/stream'', ep_status = 200\<rparr>"

definition ep_write_file :: endpoint where
  "ep_write_file = \<lparr>ep_method = ''POST'', ep_path = ''/v1/sessions/{session_id}/files'', ep_status = 201\<rparr>"

definition ep_write_file_raw :: endpoint where
  "ep_write_file_raw = \<lparr>ep_method = ''POST'', ep_path = ''/v1/sessions/{session_id}/files/{path:path}'', ep_status = 201\<rparr>"

definition ep_list_files :: endpoint where
  "ep_list_files = \<lparr>ep_method = ''GET'', ep_path = ''/v1/sessions/{session_id}/files'', ep_status = 200\<rparr>"

definition ep_read_file :: endpoint where
  "ep_read_file = \<lparr>ep_method = ''GET'', ep_path = ''/v1/sessions/{session_id}/files/{path:path}'', ep_status = 200\<rparr>"

definition ep_delete_file :: endpoint where
  "ep_delete_file = \<lparr>ep_method = ''DELETE'', ep_path = ''/v1/sessions/{session_id}/files/{path:path}'', ep_status = 204\<rparr>"

definition ep_rotate_token :: endpoint where
  "ep_rotate_token = \<lparr>ep_method = ''POST'', ep_path = ''/v1/tenants/me/tokens/rotate'', ep_status = 200\<rparr>"

definition ep_create_tenant :: endpoint where
  "ep_create_tenant = \<lparr>ep_method = ''POST'', ep_path = ''/v1/tenants'', ep_status = 201\<rparr>"

definition ep_list_tenants :: endpoint where
  "ep_list_tenants = \<lparr>ep_method = ''GET'', ep_path = ''/v1/tenants'', ep_status = 200\<rparr>"

definition ep_get_tenant :: endpoint where
  "ep_get_tenant = \<lparr>ep_method = ''GET'', ep_path = ''/v1/tenants/{tenant_id}'', ep_status = 200\<rparr>"

definition ep_update_tenant :: endpoint where
  "ep_update_tenant = \<lparr>ep_method = ''PATCH'', ep_path = ''/v1/tenants/{tenant_id}'', ep_status = 200\<rparr>"

definition ep_delete_tenant :: endpoint where
  "ep_delete_tenant = \<lparr>ep_method = ''DELETE'', ep_path = ''/v1/tenants/{tenant_id}'', ep_status = 200\<rparr>"

definition ep_issue_token :: endpoint where
  "ep_issue_token = \<lparr>ep_method = ''POST'', ep_path = ''/v1/tenants/{tenant_id}/tokens'', ep_status = 201\<rparr>"

definition ep_revoke_token :: endpoint where
  "ep_revoke_token = \<lparr>ep_method = ''DELETE'', ep_path = ''/v1/tenants/{tenant_id}/tokens/{token_id}'', ep_status = 204\<rparr>"

definition ep_tenant_usage :: endpoint where
  "ep_tenant_usage = \<lparr>ep_method = ''GET'', ep_path = ''/v1/tenants/{tenant_id}/usage'', ep_status = 200\<rparr>"

definition ep_start_process :: endpoint where
  "ep_start_process = \<lparr>ep_method = ''POST'', ep_path = ''/v1/sessions/{session_id}/processes'', ep_status = 201\<rparr>"

definition ep_list_processes :: endpoint where
  "ep_list_processes = \<lparr>ep_method = ''GET'', ep_path = ''/v1/sessions/{session_id}/processes'', ep_status = 200\<rparr>"

definition ep_get_process :: endpoint where
  "ep_get_process = \<lparr>ep_method = ''GET'', ep_path = ''/v1/sessions/{session_id}/processes/{process_id}'', ep_status = 200\<rparr>"

definition ep_delete_process :: endpoint where
  "ep_delete_process = \<lparr>ep_method = ''DELETE'', ep_path = ''/v1/sessions/{session_id}/processes/{process_id}'', ep_status = 200\<rparr>"

definition ep_process_logs :: endpoint where
  "ep_process_logs = \<lparr>ep_method = ''GET'', ep_path = ''/v1/sessions/{session_id}/processes/{process_id}/logs'', ep_status = 200\<rparr>"

fun endpoint_of :: "route \<Rightarrow> endpoint" where
  "endpoint_of Healthz = ep_healthz"
| "endpoint_of Readyz = ep_readyz"
| "endpoint_of (Create_session l) = ep_create_session"
| "endpoint_of (Get_session sid) = ep_get_session"
| "endpoint_of (Stop_session sid) = ep_stop_session"
| "endpoint_of (Resume_session sid) = ep_resume_session"
| "endpoint_of (Destroy_session sid) = ep_destroy_session"
| "endpoint_of (Exec_session sid req) = ep_exec_session"
| "endpoint_of (Exec_stream sid req n) = ep_exec_session_stream"
| "endpoint_of (Write_file sid req) = ep_write_file"
| "endpoint_of (Write_raw sid p b m) = ep_write_file_raw"
| "endpoint_of (List_files sid d) = ep_list_files"
| "endpoint_of (Read_file sid p) = ep_read_file"
| "endpoint_of (Delete_file sid p r) = ep_delete_file"
| "endpoint_of Rotate_token = ep_rotate_token"
| "endpoint_of (Create_tenant req) = ep_create_tenant"
| "endpoint_of List_tenants = ep_list_tenants"
| "endpoint_of (Get_tenant tid) = ep_get_tenant"
| "endpoint_of (Update_tenant tid req) = ep_update_tenant"
| "endpoint_of (Delete_tenant tid) = ep_delete_tenant"
| "endpoint_of (Issue_token tid req) = ep_issue_token"
| "endpoint_of (Revoke_token tid kid) = ep_revoke_token"
| "endpoint_of (Tenant_usage tid) = ep_tenant_usage"
| "endpoint_of (Start_process sid req) = ep_start_process"
| "endpoint_of (List_processes sid) = ep_list_processes"
| "endpoint_of (Get_process sid pid) = ep_get_process"
| "endpoint_of (Delete_process sid pid) = ep_delete_process"
| "endpoint_of (Process_logs sid pid) = ep_process_logs"

lemmas endpoint_defs =
  ep_healthz_def ep_readyz_def ep_create_session_def ep_get_session_def ep_stop_session_def
  ep_resume_session_def ep_destroy_session_def ep_exec_session_def ep_exec_session_stream_def
  ep_write_file_def ep_write_file_raw_def ep_list_files_def ep_read_file_def ep_delete_file_def
  ep_rotate_token_def ep_create_tenant_def ep_list_tenants_def ep_get_tenant_def
  ep_update_tenant_def ep_delete_tenant_def ep_issue_token_def ep_revoke_token_def
  ep_tenant_usage_def ep_start_process_def ep_list_processes_def ep_get_process_def
  ep_delete_process_def ep_process_logs_def

section \<open>The answer of the application\<close>

text \<open>
  What belongs to the framework: where it sends a request (a route, a tool of the MCP application, or
  an answer of its own, such as the metrics page, 404 or 422), the bodies it writes, and the answer of
  the MCP protocol around what a tool returned.
\<close>

datatype destination = To_route route | To_tool tool | Elsewhere http_response

record framework =
  fw_destination :: "http_request \<Rightarrow> destination"
  fw_body :: "reply \<Rightarrow> string"
  fw_error :: "exn \<Rightarrow> string"
  fw_tool :: "tool_error + tool_reply \<Rightarrow> http_response"

definition JSON :: string where
  "JSON = ''application/json''"

fun reply_ctype :: "reply \<Rightarrow> string" where
  "reply_ctype (A_stream r) = EVENT_STREAM"
| "reply_ctype (A_log frames) = EVENT_STREAM"
| "reply_ctype (A_content content mode) = ''application/octet-stream''"
| "reply_ctype A_nothing = []"
| "reply_ctype _ = JSON"

text \<open>An answer of a route, whose template stays in the scope of the request.\<close>

definition route_response :: "route \<Rightarrow> int \<Rightarrow> string \<Rightarrow> string \<Rightarrow> http_response" where
  "route_response rt status body ctype =
     \<lparr>hr_status = status, hr_body = body, hr_ctype = ctype, hr_replay = False,
      hr_route = Some (ep_path (endpoint_of rt))\<rparr>"

text \<open>The answer of the middleware of the MCP application to a bearer it does not accept.\<close>

definition mcp_unauthorized :: "string \<Rightarrow> http_response" where
  "mcp_unauthorized body =
     \<lparr>hr_status = 401, hr_body = body, hr_ctype = JSON, hr_replay = False, hr_route = None\<rparr>"

text \<open>
  What a route answers. An exception with a handler becomes its response; any other leaves the application, passes through
  the middlewares and is answered with a plain 500 outside of them. The body of an event stream is sent
  after the middlewares have returned; here its events come before their last readings of the clock.
\<close>

definition handle_route :: "nat \<Rightarrow> 'x ctx \<Rightarrow> framework \<Rightarrow> route \<Rightarrow> string \<Rightarrow> ('x, http_response) W" where
  "handle_route n E F rt authorization w =
     (case serve n E rt (Some authorization) w of
        (Inr y, w') \<Rightarrow> (Inr (route_response rt (ep_status (endpoint_of rt)) (fw_body F y) (reply_ctype y)), w')
      | (Inl e, w') \<Rightarrow>
          (case error_response e of
             (s, None) \<Rightarrow> (Inl e, w')
           | (s, Some c) \<Rightarrow> (Inr (route_response rt (int s) (fw_error F e) JSON), w')))"

definition handle_tool :: "nat \<Rightarrow> 'x ctx \<Rightarrow> framework \<Rightarrow> tool \<Rightarrow> string \<Rightarrow> ('x, http_response) W" where
  "handle_tool n E F tk authorization w =
     (case mcp_call n E tk (Some authorization) w of
        (Inr r, w') \<Rightarrow> (Inr (fw_tool F r), w')
      | (Inl e, w') \<Rightarrow> if e = Unauthorized then (Inr (mcp_unauthorized (fw_error F e)), w') else (Inl e, w'))"

definition application :: "nat \<Rightarrow> 'x ctx \<Rightarrow> framework \<Rightarrow> http_request \<Rightarrow> ('x, http_response) W" where
  "application n E F req =
     (case fw_destination F req of
        To_route rt \<Rightarrow> handle_route n E F rt (q_auth req)
      | To_tool tk \<Rightarrow> handle_tool n E F tk (q_auth req)
      | Elsewhere r \<Rightarrow> ret r)"

section \<open>The instruments of the requests\<close>

text \<open>
  The counter \<open>api_requests_total\<close> by method, path and status, and what the histogram
  \<open>api_request_duration_seconds\<close> was given by method and path, here in nanoseconds.
\<close>

record meters =
  api_requests_total :: "string \<times> string \<times> int \<Rightarrow> nat"
  api_request_durations :: "string \<times> string \<Rightarrow> int list"

definition no_meters :: meters where
  "no_meters = \<lparr>api_requests_total = (\<lambda>_. 0), api_request_durations = (\<lambda>_. [])\<rparr>"

definition inc_request :: "string \<times> string \<times> int \<Rightarrow> meters \<Rightarrow> meters" where
  "inc_request l m = m\<lparr>api_requests_total := (api_requests_total m)(l := Suc (api_requests_total m l))\<rparr>"

definition observe_duration :: "string \<times> string \<Rightarrow> int \<Rightarrow> meters \<Rightarrow> meters" where
  "observe_duration l d m =
     m\<lparr>api_request_durations := (api_request_durations m)(l := api_request_durations m l @ [d])\<rparr>"

text \<open>Effects on the pair of the service and the instruments.\<close>

type_synonym ('x, 'a) S = "('x world \<times> meters, exn, 'a) M"

definition inner :: "('x, 'a) W \<Rightarrow> ('x, 'a) S" where
  "inner act s = (case act (fst s) of (r, w') \<Rightarrow> (r, (w', snd s)))"

definition meter :: "(meters \<Rightarrow> meters) \<Rightarrow> ('x, unit) S" where
  "meter f = modifyM (\<lambda>s. (fst s, f (snd s)))"

definition METRICS_PATH :: string where
  "METRICS_PATH = ''/metrics''"

text \<open>The template of the route if the scope has one, else the path as it was asked for.\<close>

definition path_label :: "http_request \<Rightarrow> http_response \<Rightarrow> string" where
  "path_label req resp = (case hr_route resp of Some template \<Rightarrow> template | None \<Rightarrow> q_path req)"

definition metrics_middleware ::
  "'x ctx \<Rightarrow> (http_request \<Rightarrow> ('x, http_response) W) \<Rightarrow> http_request \<Rightarrow> ('x, http_response) S" where
  "metrics_middleware E call_next req =
     bindM (inner (monotonic_ns E)) (\<lambda>start.
     bindM (inner (call_next req)) (\<lambda>response.
     let path = path_label req response in
     if path \<noteq> METRICS_PATH then
       thenM (meter (inc_request (q_method req, path, hr_status response)))
      (bindM (inner (monotonic_ns E)) (\<lambda>now.
       thenM (meter (observe_duration (q_method req, path) (now - start)))
             (ret response)))
     else ret response))"

text \<open>A request to the application, through all of its middlewares.\<close>

definition serve_http :: "nat \<Rightarrow> 'x ctx \<Rightarrow> framework \<Rightarrow> http_request \<Rightarrow> ('x, http_response) S" where
  "serve_http n E F req = metrics_middleware E (dispatch E (application n E F)) req"

primrec serve_each ::
  "nat \<Rightarrow> 'x ctx \<Rightarrow> framework \<Rightarrow> http_request list \<Rightarrow> 'x world \<times> meters \<Rightarrow>
     (exn + http_response) list \<times> 'x world \<times> meters" where
  "serve_each n E F [] s = ([], s)"
| "serve_each n E F (req # reqs) s =
     (case serve_http n E F req s of (r, s1) \<Rightarrow>
      case serve_each n E F reqs s1 of (rs, s2) \<Rightarrow> (r # rs, s2))"

section \<open>The table and what is said of it\<close>

text \<open>
  No method and path are registered twice; the probes are the public paths of the OpenAPI document, every
  other route asks for a token and is below \<open>/v1/\<close>; a success of a route is a response that the
  idempotency cache may keep, and the methods it looks at are those the document gives the key.
\<close>

lemma endpoints_distinct:
  "ep_method (endpoint_of rt) = ep_method (endpoint_of rt') \<Longrightarrow> ep_path (endpoint_of rt) = ep_path (endpoint_of rt') \<Longrightarrow>
     endpoint_of rt = endpoint_of rt'"
  by (cases rt; cases rt') (simp_all add: endpoint_defs)

lemma endpoints_public: "ep_path (endpoint_of rt) \<in> set PUBLIC_PATHS \<longleftrightarrow> guard_of rt = Open"
  by (cases rt) (simp_all add: endpoint_defs PUBLIC_PATHS_def)

lemma endpoints_private: "guard_of rt = Open \<or> take 4 (ep_path (endpoint_of rt)) = ''/v1/''"
  by (cases rt) (simp_all add: endpoint_defs)

lemma endpoints_cacheable: "cacheable_status (ep_status (endpoint_of rt))"
  by (cases rt) (simp_all add: endpoint_defs cacheable_status_def)

section \<open>A request is a run of the system\<close>

text \<open>The actions of one request: its work, the response put into the cache, and the outside.\<close>

definition work_of :: "nat \<Rightarrow> framework \<Rightarrow> http_request \<Rightarrow> 'x action option" where
  "work_of n F req =
     (case fw_destination F req of
        To_route rt \<Rightarrow> Some (Do_request n rt (Some (q_auth req)))
      | To_tool tk \<Rightarrow> Some (Do_tool n tk (Some (q_auth req)))
      | Elsewhere r \<Rightarrow> None)"

fun executes :: "'x action \<Rightarrow> bool" where
  "executes (Do_request n rt a) = True"
| "executes (Do_tool n tk a) = True"
| "executes _ = False"

fun own_action :: "nat \<Rightarrow> framework \<Rightarrow> http_request \<Rightarrow> 'x action \<Rightarrow> bool" where
  "own_action n F req (Do_outside x) = True"
| "own_action n F req (Do_remember tn k c) = (map_option fst (keyed_request req) = Some k)"
| "own_action n F req x = (work_of n F req = Some x)"

definition runs :: "nat \<Rightarrow> nat \<Rightarrow> 'x ctx \<Rightarrow> framework \<Rightarrow> http_request \<Rightarrow> 'x world \<Rightarrow> 'x world \<Rightarrow> bool" where
  "runs k n E F req w w' \<longleftrightarrow> (\<exists>xs. w' = run_actions E xs w \<and> list_all (own_action n F req) xs \<and>
     length (filter executes xs) \<le> k)"

lemma run_actions_append: "run_actions E (xs @ ys) w = run_actions E ys (run_actions E xs w)"
  by (simp add: run_actions_def)

lemma runs_trans: "runs j n E F req w v \<Longrightarrow> runs k n E F req v u \<Longrightarrow> runs (j + k) n E F req w u"
  unfolding runs_def
  by (elim exE conjE, rule_tac x = "xs @ xsa" in exI) (simp add: run_actions_append)

lemma runs_same: "runs k n E F req w w"
  unfolding runs_def by (rule exI [of _ "[]"]) simp

lemma runs_out: "runs k n E F req w (w\<lparr>w_out := x\<rparr>)"
  unfolding runs_def by (rule exI [of _ "[Do_outside x]"]) simp

lemma runs_mono: "monotonic_ns E w = (q, w') \<Longrightarrow> runs 0 n E F req w w'"
  by (auto simp: monotonic_ns_def outM_read runs_out split: prod.splits)

lemma runs_authenticate: "authenticate E bearer w = (q, w') \<Longrightarrow> runs 0 n E F req w w'"
  by (auto simp: authenticate_def authenticate_full_def bindM_def now_ms_def outM_read runs_same runs_out
      split: option.splits prod.splits if_splits)

lemma runs_lookup: "lookup_cached E tn k w = (q, w') \<Longrightarrow> runs 0 n E F req w w'"
  by (auto simp: lookup_cached_run runs_out split: prod.splits)

lemma runs_remember:
  assumes "remember E tn key template resp w = (q, w')" "map_option fst (keyed_request req) = Some key"
  shows "runs 0 n E F req w w'"
proof (cases "\<not> cacheable_status (hr_status resp) \<or> is_stream resp \<or> \<not> utf8 (hr_body resp)")
  case True
  with assms(1) show ?thesis by (auto simp: remember_def runs_same split: if_splits)
next
  case False
  let ?x = "Do_remember tn key (template, hr_status resp, hr_body resp, hr_ctype resp)"
  from False assms(1) have "w' = run_actions E [?x] w"
    by (auto simp: remember_def thenM_def bindM_def split: prod.splits sum.splits)
  with assms(2) show ?thesis unfolding runs_def by (intro exI [of _ "[?x]"]) simp
qed

lemma runs_application:
  assumes "application n E F req w = (q, w')"
  shows "runs 1 n E F req w w'"
proof (cases "fw_destination F req")
  case (To_route rt)
  with assms have "w' = run_actions E [Do_request n rt (Some (q_auth req))] w"
    by (auto simp: application_def handle_route_def split: prod.splits sum.splits option.splits)
  with To_route show ?thesis
    unfolding runs_def by (intro exI [of _ "[Do_request n rt (Some (q_auth req))]"]) (simp add: work_of_def)
next
  case (To_tool tk)
  with assms have "w' = run_actions E [Do_tool n tk (Some (q_auth req))] w"
    by (auto simp: application_def handle_tool_def split: prod.splits sum.splits if_splits)
  with To_tool show ?thesis
    unfolding runs_def by (intro exI [of _ "[Do_tool n tk (Some (q_auth req))]"]) (simp add: work_of_def)
next
  case (Elsewhere r)
  with assms show ?thesis by (simp add: application_def runs_same)
qed

lemma runs_attempt:
  assumes "tryM (bindM (authenticate E bearer) (\<lambda>tn. ret (Some tn))) (\<lambda>_. ret None) w = (q, w')"
  shows "runs 0 n E F req w w' \<and> (\<exists>who. q = Inr who)"
  using assms runs_authenticate [of E bearer w]
  by (cases "authenticate E bearer w") (auto simp: tryM_def bindM_def split: sum.splits)

lemma lookup_cached_returns: "\<exists>hit v. lookup_cached E tn k w = (Inr hit, v)"
  by (simp add: lookup_cached_run split: prod.splits)

lemma runs_miss:
  assumes "bindM (application n E F req) (remember E tn key template) w = (q, w')"
    and "map_option fst (keyed_request req) = Some key"
  shows "runs 1 n E F req w w'"
proof -
  obtain a v where a: "application n E F req w = (a, v)" by fastforce
  have 1: "runs 1 n E F req w v" by (rule runs_application [OF a])
  show ?thesis
  proof (cases a)
    case (Inl e)
    with assms(1) a 1 show ?thesis by (simp add: bindM_def)
  next
    case (Inr resp)
    with assms(1) a have "remember E tn key template resp v = (q, w')" by (simp add: bindM_def)
    from runs_trans [OF 1 runs_remember [OF this assms(2)]] show ?thesis by simp
  qed
qed

lemma runs_dispatch:
  assumes "dispatch E (application n E F) req w = (q, w')"
  shows "runs 1 n E F req w w'"
proof (cases "keyed_request req")
  case None
  with assms show ?thesis by (intro runs_application) (simp add: dispatch_def)
next
  case (Some kb)
  then obtain key bearer where kb: "keyed_request req = Some (key, bearer)" by (cases kb) simp
  obtain a v where a: "tryM (bindM (authenticate E bearer) (\<lambda>tn. ret (Some tn))) (\<lambda>_. ret None) w = (a, v)" by fastforce
  from runs_attempt [OF this] obtain who where who: "a = Inr who" and wv: "runs 0 n E F req w v" by blast
  have "runs 1 n E F req v w'"
  proof (cases who)
    case None
    with assms a who kb have "application n E F req v = (q, w')" by (simp add: dispatch_def bindM_def)
    then show ?thesis by (rule runs_application)
  next
    case (Some tn)
    obtain hit v1 where l1: "lookup_cached E tn key v = (Inr hit, v1)" using lookup_cached_returns by metis
    obtain again v2 where l2: "lookup_cached E tn key v1 = (Inr again, v2)" using lookup_cached_returns by metis
    have r1: "runs 0 n E F req v v1" and r2: "runs 0 n E F req v1 v2" by (rule runs_lookup [OF l1] runs_lookup [OF l2])+
    have step: "runs 1 n E F req x z" if "runs 0 n E F req x y" "runs 1 n E F req y z" for x y z
      using runs_trans [OF that] by simp
    note run = assms [unfolded dispatch_def kb option.case prod.case bindM_def [of "tryM _ _"] a who sum.case Some]
    show ?thesis
    proof (cases hit)
      case h: (Some c)
      with run l1 have "w' = v1" by (simp add: bindM_def Let_def)
      with step [OF r1 runs_same] show ?thesis by simp
    next
      case h: None
      show ?thesis
      proof (cases again)
        case (Some c)
        with run l1 l2 h have "w' = v2" by (simp add: bindM_def Let_def)
        with step [OF r1 step [OF r2 runs_same]] show ?thesis by simp
      next
        case None
        with run l1 l2 h have "bindM (application n E F req) (remember E tn key (route_template req)) v2 = (q, w')"
          by (simp add: bindM_def [of "lookup_cached _ _ _"] Let_def)
        from runs_miss [OF this] kb show ?thesis by (intro step [OF r1] step [OF r2]) simp
      qed
    qed
  qed
  with runs_trans [OF wv] show ?thesis by fastforce
qed

lemma monotonic_returns: "\<exists>i v. monotonic_ns E w = (Inr i, v)"
  by (simp add: monotonic_ns_def outM_read split: prod.splits)

lemma serve_http_parts:
  assumes "serve_http n E F req (w, m) = (r, w', m')"
  obtains start v u where "monotonic_ns E w = (Inr start, v)" "dispatch E (application n E F) req v = (r, u)"
    "w' = u\<lparr>w_out := w_out w'\<rparr>"
    "case r of Inl e \<Rightarrow> m' = m | Inr resp \<Rightarrow> let path = path_label req resp in
       if path = METRICS_PATH then m' = m
       else \<exists>d. m' = observe_duration (q_method req, path) d (inc_request (q_method req, path, hr_status resp) m)"
proof -
  obtain start v where mono: "monotonic_ns E w = (Inr start, v)"
    using monotonic_returns by metis
  obtain a u where d: "dispatch E (application n E F) req v = (a, u)" by fastforce
  obtain now u' where mono': "monotonic_ns E u = (Inr now, u')"
    using monotonic_returns by metis
  have u': "u' = u\<lparr>w_out := w_out u'\<rparr>"
    using mono' by (auto simp: monotonic_ns_def outM_read split: prod.splits)
  note defs = serve_http_def metrics_middleware_def inner_def meter_def modifyM_def ret_def
  show thesis
  proof (cases a)
    case (Inl e)
    with assms mono d have "r = Inl e" "w' = u" "m' = m" by (simp_all add: defs bindM_def)
    with that [OF mono] d Inl show thesis by simp
  next
    case (Inr resp)
    show thesis
    proof (cases "path_label req resp = METRICS_PATH")
      case True
      with assms mono d Inr have "r = a" "w' = u" "m' = m" by (simp_all add: defs bindM_def Let_def)
      with that [OF mono] d Inr True show thesis by (simp add: Let_def)
    next
      case False
      with assms mono d Inr mono' have "r = a" "w' = u'"
        "m' = observe_duration (q_method req, path_label req resp) (now - start)
           (inc_request (q_method req, path_label req resp, hr_status resp) m)"
        by (simp_all add: defs bindM_def thenM_def Let_def)
      with that [OF mono] d Inr False u' show thesis by (auto simp: Let_def)
    qed
  qed
qed

lemma authenticate_out: "authenticate E bearer w = (q, w') \<Longrightarrow> w' = w\<lparr>w_out := w_out w'\<rparr>"
  by (auto simp: authenticate_def authenticate_full_def bindM_def now_ms_def outM_read
      split: option.splits prod.splits if_splits)

lemma serve_http_runs: "runs 1 n E F req w (fst (snd (serve_http n E F req (w, m))))"
proof -
  obtain r w' m' where run: "serve_http n E F req (w, m) = (r, w', m')" by (metis prod.collapse)
  from serve_http_parts [OF run] obtain start v u where
    p: "monotonic_ns E w = (Inr start, v)" "dispatch E (application n E F) req v = (r, u)" "w' = u\<lparr>w_out := w_out w'\<rparr>"
    by metis
  have "runs 0 n E F req u w'" using runs_out [of 0 n E F req u "w_out w'"] p(3) by simp
  with runs_trans [OF runs_mono [OF p(1)] runs_trans [OF runs_dispatch [OF p(2)]]] run show ?thesis by fastforce
qed

section \<open>What the instruments count\<close>

text \<open>The labels of the answered requests that are counted.\<close>

fun labels_of :: "http_request list \<Rightarrow> (exn + http_response) list \<Rightarrow> (string \<times> string \<times> int) list" where
  "labels_of (req # reqs) (Inr resp # rs) =
     (if path_label req resp = METRICS_PATH then labels_of reqs rs
      else (q_method req, path_label req resp, hr_status resp) # labels_of reqs rs)"
| "labels_of (req # reqs) (Inl e # rs) = labels_of reqs rs"
| "labels_of _ _ = []"

lemma serve_http_counts:
  assumes "serve_http n E F req (w, m) = (r, w', m')"
  shows "api_requests_total m' l = api_requests_total m l + count_list (labels_of [req] [r]) l"
    "length (api_request_durations m' mp) =
       length (api_request_durations m mp) + length (filter (\<lambda>(me, p, s). (me, p) = mp) (labels_of [req] [r]))"
proof -
  from serve_http_parts [OF assms] have c: "case r of Inl e \<Rightarrow> m' = m | Inr resp \<Rightarrow> let path = path_label req resp in
       if path = METRICS_PATH then m' = m
       else \<exists>d. m' = observe_duration (q_method req, path) d (inc_request (q_method req, path, hr_status resp) m)"
    by metis
  show "api_requests_total m' l = api_requests_total m l + count_list (labels_of [req] [r]) l"
    using c by (auto simp: Let_def observe_duration_def inc_request_def split: sum.splits if_splits)
  show "length (api_request_durations m' mp) =
       length (api_request_durations m mp) + length (filter (\<lambda>(me, p, s). (me, p) = mp) (labels_of [req] [r]))"
    using c by (auto simp: Let_def observe_duration_def inc_request_def split: sum.splits if_splits)
qed

lemma labels_of_Cons: "labels_of (req # reqs) (r # rs) = labels_of [req] [r] @ labels_of reqs rs"
  by (cases r) simp_all

lemma count_list_append: "count_list (xs @ ys) l = count_list xs l + count_list ys l"
  by (induction xs) auto

section \<open>A response that is kept\<close>

definition kept :: "string \<Rightarrow> string \<Rightarrow> ms \<Rightarrow> cached \<Rightarrow> 'x world \<Rightarrow> bool" where
  "kept tn key until c w \<longleftrightarrow> (\<forall>now<until. lookup_idempotency now tn key (w_idem w) = Some c)"

text \<open>An action that does not put another response under the key.\<close>

fun spares :: "string \<Rightarrow> string \<Rightarrow> 'x action \<Rightarrow> bool" where
  "spares tn key (Do_remember tn' key' c) = ((tn', key') \<noteq> (tn, key))"
| "spares tn key x = True"

lemma tame_kept: "tame (kept tn key until c)"
proof -
  have q: "quiet (kept tn key until c)" by (simp add: quiet_def frame_def kept_def)
  have "frame (kept tn key until c)" by (simp add: frame_def kept_def)
  with keeps_emit [OF q] show ?thesis
    unfolding tame_def by (intro conjI allI impI) (assumption | simp add: kept_def)+
qed

lemma kept_perform:
  assumes "kept tn key until c w" "spares tn key x"
  shows "kept tn key until c (perform E x w)"
proof (rule tame_perform [OF tame_kept _ _ _ assms(1)])
  have f: "frame (kept tn key until c)" using tameD(1) [OF tame_kept] .
  have q: "quiet (kept tn key until c)" by (simp add: quiet_def frame_def kept_def)
  have "keeps (kept tn key until c) (r_insert E sid t vol l)" for sid t vol l
    by (intro typed_r_insert f) (simp add: kept_def)
  then show "keeps (kept tn key until c) (create_session E t lim)" for lim t
    by (rule tame_create [OF tame_kept])
  show "keeps (kept tn key until c) (maintenance_tick E)" for E by (rule keeps_maintenance [OF q])
  show "kept tn key until c (reboot w)" using assms(1) by (simp add: kept_def reboot_def)
  show "keeps (kept tn key until c) (store_cached E t k d)" if "x = Do_remember t k d" for t k d
    unfolding store_cached_def using assms(2) that
    by (intro keeps_rules keeps_modify f) (auto simp: kept_def idem.lookup_store)
qed

lemma kept_run: "kept tn key until c w \<Longrightarrow> list_all (spares tn key) xs \<Longrightarrow> kept tn key until c (run_actions E xs w)"
  by (induction xs arbitrary: w) (auto simp del: spares.simps intro: kept_perform)

definition demo_framework :: framework where
  "demo_framework = \<lparr>fw_destination = (\<lambda>_. To_route (Stop_session ''s1'')), fw_body = (\<lambda>_. ''{}''), fw_error = (\<lambda>_. ''{}''),
     fw_tool = (\<lambda>_. demo_response)\<rparr>"

lemma demo_stop:
  "case serve_http 21 (testbed default_settings) demo_framework demo_request (two_tenants, no_meters) of
     (r, s) \<Rightarrow> (case r of Inl e \<Rightarrow> False | Inr out \<Rightarrow> \<not> hr_replay out \<and> hr_status out = 200 \<and> hr_ctype out = JSON)"
  by code_simp

section \<open>Properties\<close>

text \<open>
  C22: one request, whatever its headers, is in the end a short run of the system: it executes at most
  one route or tool, the one the framework chose, and apart from that only changes the outside and the
  entry of its own idempotency key. Hence what holds along all runs holds behind the middlewares.
\<close>

theorem stack_is_a_run:
  "\<exists>xs. fst (snd (serve_http n E F req (w, m))) = run_actions E xs w \<and> list_all (own_action n F req) xs \<and>
     length (filter executes xs) \<le> 1"
  using serve_http_runs [of n E F req w m] by (simp add: runs_def)

text \<open>
  The instruments of the requests. Over any sequence of requests, the counter of a method, path and
  status grows by the number of requests that were answered so, those for the metrics page left out, and
  the histogram of a method and path gets one observation for each of them. A request whose exception
  has no handler is not counted at all.
\<close>

theorem requests_counted:
  "case serve_each n E F reqs (w, m) of (rs, w', m') \<Rightarrow>
     api_requests_total m' l = api_requests_total m l + count_list (labels_of reqs rs) l \<and>
     length (api_request_durations m' mp) =
       length (api_request_durations m mp) + length (filter (\<lambda>(me, p, s). (me, p) = mp) (labels_of reqs rs))"
proof (induction reqs arbitrary: w m)
  case Nil
  show ?case by simp
next
  case (Cons req reqs)
  obtain r w1 m1 where one: "serve_http n E F req (w, m) = (r, w1, m1)" by (metis prod.collapse)
  obtain rs w2 m2 where rest: "serve_each n E F reqs (w1, m1) = (rs, w2, m2)" by (metis prod.collapse)
  from Cons.IH [where w = w1 and m = m1] serve_http_counts [OF one] show ?case
    by (simp add: one rest labels_of_Cons [of req reqs] count_list_append del: labels_of.simps)
qed

text \<open>
  C38: a retry executes nothing. After a request with an idempotency key was answered with a response
  that is cached, and whatever happens in between that does not store another response under the key
  (other requests, ticks, restarts), the same request of the same tenant gets the same status, body and
  content type, marked as a replay, as long as the stored row has not expired; every table and the audit
  log stay as they are, whatever the application would have done.
\<close>

theorem retry_through_the_stack:
  assumes "keyed_request req = Some (key, bearer)"
    and "fst (authenticate E bearer (snd (monotonic_ns E w))) = Inr tn"
    and "serve_http n E F req (w, m) = (Inr out, w1, m1)"
    and "\<not> hr_replay out" "cacheable_status (hr_status out)" "\<not> is_stream out"
  shows "\<exists>r y. r \<in> set (w_idem w1) \<and> idem_pk r = (tn, key) \<and> i_created r = fst (o_now E y) \<and>
    i_expires r = i_created r + idempotency_ttl_s (cfg E) * 1000 \<and>
    (\<forall>xs n' F' m'. list_all (spares tn key) xs \<longrightarrow>
      (let v = run_actions E xs w1; (who, v1) = authenticate E bearer (snd (monotonic_ns E v)) in
       who = Inr tn \<longrightarrow> fst (o_now E (w_out v1)) < i_expires r \<longrightarrow>
       (\<exists>x m2. serve_http n' E F' req (v, m') = (Inr (out\<lparr>hr_replay := True, hr_route := None\<rparr>), v\<lparr>w_out := x\<rparr>, m2))))"
proof -
  from serve_http_parts [OF assms(3)] obtain start v0 u where p: "monotonic_ns E w = (Inr start, v0)"
    "dispatch E (application n E F) req v0 = (Inr out, u)" "w1 = u\<lparr>w_out := w_out w1\<rparr>" by metis
  obtain v1 where au: "authenticate E bearer v0 = (Inr tn, v1)" using assms(2) p(1) by (metis prod.collapse snd_conv)
  let ?c = "(route_template req, hr_status out, hr_body out, hr_ctype out)" and ?ttl = "idempotency_ttl_s (cfg E)"
  from dispatch_stores [OF assms(1) au p(2) assms(4-6)] obtain y t where
    st: "w_idem u = store_idempotency (fst (o_now E y)) ?ttl tn key ?c t" by blast
  let ?until = "fst (o_now E y) + ?ttl * 1000"
  obtain x0 where "w1 = u\<lparr>w_out := x0\<rparr>" using p(3) by blast
  then have idem1: "w_idem w1 = w_idem u" by simp
  have kept1: "kept tn key ?until ?c w1" by (simp add: kept_def idem1 st idem.lookup_store)
  let ?r = "\<lparr>i_tenant = tn, i_key = key, i_route = route_template req, i_status = hr_status out, i_body = hr_body out,
      i_ctype = hr_ctype out, i_created = fst (o_now E y), i_expires = ?until\<rparr>"
  have again: "\<exists>x m2. serve_http n' E F' req (v, m') = (Inr (out\<lparr>hr_replay := True, hr_route := None\<rparr>), v\<lparr>w_out := x\<rparr>, m2)"
    if "kept tn key ?until ?c v" "authenticate E bearer (snd (monotonic_ns E v)) = (Inr tn, a)"
      "fst (o_now E (w_out a)) < ?until" for n' F' m' v a
  proof -
    obtain q v' m2 where run: "serve_http n' E F' req (v, m') = (q, v', m2)" by (metis prod.collapse)
    from serve_http_parts [OF run] obtain s vm z where s: "monotonic_ns E v = (Inr s, vm)"
      "dispatch E (application n' E F') req vm = (q, z)" "v' = z\<lparr>w_out := w_out v'\<rparr>" by metis
    obtain x1 where vm: "vm = v\<lparr>w_out := x1\<rparr>" using s(1) by (auto simp: monotonic_ns_def outM_read split: prod.splits)
    have a: "authenticate E bearer vm = (Inr tn, a)" using that(2) s(1) by simp
    obtain x2 where out: "a = vm\<lparr>w_out := x2\<rparr>" using authenticate_out [OF a] by blast
    obtain x3 where v': "v' = z\<lparr>w_out := x3\<rparr>" using s(3) by blast
    obtain now x where now: "o_now E (w_out a) = (now, x)" by fastforce
    have "w_idem a = w_idem v" by (simp add: out vm)
    with that(1,3) now have "lookup_idempotency now tn key (w_idem a) = Some ?c" by (simp add: kept_def)
    from dispatch_replays [OF assms(1) a now this] s(2)
    have z: "q = Inr (out\<lparr>hr_replay := True, hr_route := None\<rparr>)" "z = a\<lparr>w_out := x\<rparr>"
      by (cases out, simp_all add: from_cache_def replay_response_def)
    have "v' = v\<lparr>w_out := x3\<rparr>" by (simp add: v' z(2) out vm)
    with run z(1) show ?thesis by blast
  qed
  show ?thesis
  proof (intro exI [of _ ?r] exI [of _ y] conjI allI impI)
    show "?r \<in> set (w_idem w1)" by (simp add: idem1 st store_idempotency_def)
  next
    fix xs :: "'a action list" and n' F' m' assume "list_all (spares tn key) xs"
    then have "kept tn key ?until ?c (run_actions E xs w1)" by (rule kept_run [OF kept1])
    from again [OF this] show "let v = run_actions E xs w1; (who, v1) = authenticate E bearer (snd (monotonic_ns E v)) in
       who = Inr tn \<longrightarrow> fst (o_now E (w_out v1)) < i_expires ?r \<longrightarrow>
       (\<exists>x m2. serve_http n' E F' req (v, m') = (Inr (out\<lparr>hr_replay := True, hr_route := None\<rparr>), v\<lparr>w_out := x\<rparr>, m2))"
      by (auto simp: Let_def split: prod.splits)
  qed (simp_all add: idem_pk_def)
qed

theorem retry_through_the_stack_witness:
  "let E = testbed default_settings in \<exists>out w1 m1 r.
     serve_http 21 E demo_framework demo_request (two_tenants, no_meters) = (Inr out, w1, m1) \<and> hr_status out = 200 \<and>
     r \<in> set (w_idem w1) \<and> idem_pk r = (''t1'', ''k'') \<and> i_expires r = i_created r + idempotency_ttl_s (cfg E) * 1000"
proof -
  let ?E = "testbed default_settings"
  obtain q w1 m1 where run: "serve_http 21 ?E demo_framework demo_request (two_tenants, no_meters) = (q, w1, m1)"
    by (metis prod.collapse)
  with demo_stop obtain out where out: "q = Inr out" "\<not> hr_replay out" "hr_status out = 200" "hr_ctype out = JSON"
    by (cases q) simp_all
  have key: "keyed_request demo_request = Some (''k'', ''secret'')" by code_simp
  have au: "fst (authenticate ?E ''secret'' (snd (monotonic_ns ?E two_tenants))) = Inr ''t1''" by code_simp
  have "cacheable_status (hr_status out)" "\<not> is_stream out"
    using out by (simp_all add: cacheable_status_def is_stream_def EVENT_STREAM_def JSON_def)
  from retry_through_the_stack [OF key au run [unfolded out(1)] out(2) this] run out show ?thesis
    by (auto simp: Let_def)
qed

end
