(* ===== verification/Json.thy ===== *)
theory Json
  imports Models TextLib
begin

text \<open>
  What the service uses of Python's module \<open>json\<close>: \<open>dumps\<close>, with its default escaping of everything that
  is not printable ASCII, and \<open>loads\<close>. A text is the list of its UTF-8 bytes. The round trip between the
  two is what the audit log, the event streams and the JSON columns of the database rest on.
\<close>

section \<open>Code points\<close>

text \<open>The number of a character from its UTF-8 sequence, and back.\<close>

fun code_point :: "string \<Rightarrow> nat" where
  "code_point [a] = of_char a"
| "code_point [a, b] = (of_char a - 192) * 64 + (of_char b - 128)"
| "code_point [a, b, c] = (of_char a - 224) * 4096 + (of_char b - 128) * 64 + (of_char c - 128)"
| "code_point [a, b, c, d] =
     (of_char a - 240) * 262144 + (of_char b - 128) * 4096 + (of_char c - 128) * 64 + (of_char d - 128)"
| "code_point _ = 0"

definition utf8_of :: "nat \<Rightarrow> string" where
  "utf8_of n =
     (if n < 128 then [char_of n]
      else if n < 2048 then [char_of (192 + n div 64), char_of (128 + n mod 64)]
      else if n < 65536 then [char_of (224 + n div 4096), char_of (128 + n div 64 mod 64), char_of (128 + n mod 64)]
      else [char_of (240 + n div 262144), char_of (128 + n div 4096 mod 64), char_of (128 + n div 64 mod 64),
        char_of (128 + n mod 64)])"

definition scalar :: "nat \<Rightarrow> bool" where
  "scalar n \<longleftrightarrow> n < 55296 \<or> 57343 < n \<and> n < 1114112"

lemma split64:
  fixes x y :: nat
  assumes "y < 64"
  shows "(x * 64 + y) div 64 = x" "(x * 64 + y) mod 64 = y"
  using assms by simp_all

lemma match_prefix_shapes:
  "match_prefix [p] s = Suc 0 \<longleftrightarrow> (\<exists>x t. s = x # t \<and> p x)"
  "match_prefix [p, q] s = Suc (Suc 0) \<longleftrightarrow> (\<exists>x y t. s = x # y # t \<and> p x \<and> q y)"
  "match_prefix [p, q, r] s = Suc (Suc (Suc 0)) \<longleftrightarrow> (\<exists>x y z t. s = x # y # z # t \<and> p x \<and> q y \<and> r z)"
proof -
  have m: "match_prefix (p # ps) s = Suc n \<longleftrightarrow> (\<exists>x t. s = x # t \<and> p x \<and> match_prefix ps t = n)" for p ps s n
    by (cases s) auto
  have z: "match_prefix [] t = 0" for t by simp
  show "match_prefix [p] s = Suc 0 \<longleftrightarrow> (\<exists>x t. s = x # t \<and> p x)"
    "match_prefix [p, q] s = Suc (Suc 0) \<longleftrightarrow> (\<exists>x y t. s = x # y # t \<and> p x \<and> q y)"
    "match_prefix [p, q, r] s = Suc (Suc (Suc 0)) \<longleftrightarrow> (\<exists>x y z t. s = x # y # z # t \<and> p x \<and> q y \<and> r z)"
    unfolding m z by blast+
qed

lemma byte_back: "(of_char a :: nat) = k + x \<Longrightarrow> char_of (k + x) = (a :: char)"
  by (metis char_of_char)

lemma tail_byte:
  assumes "in_range 128 191 b"
  obtains y where "(of_char b :: nat) = 128 + y" "y < 64"
proof
  have "128 \<le> (of_char b :: nat)" "(of_char b :: nat) \<le> 191" using assms by (simp_all add: in_range_def)
  then show "(of_char b :: nat) = 128 + (of_char b - 128)" "(of_char b :: nat) - 128 < 64" by linarith+
qed

lemma lead_byte:
  assumes "k \<le> (of_char a :: nat)"
  obtains x where "(of_char a :: nat) = k + x"
  using assms le_Suc_ex by blast

lemma two_bytes:
  assumes "194 \<le> (of_char a :: nat)" "(of_char a :: nat) < 224" "in_range 128 191 b"
  shows "utf8_of (code_point [a, b]) = [a, b] \<and> scalar (code_point [a, b])"
proof -
  obtain y where y: "(of_char b :: nat) = 128 + y" "y < 64" using assms(3) by (rule tail_byte)
  obtain x where x: "(of_char a :: nat) = 194 + x" using assms(1) by (rule lead_byte)
  have xy: "(of_char a :: nat) = 192 + (x + 2)" "(of_char b :: nat) = 128 + y" "y < 64" "x < 30"
    using assms(2) x y by linarith+
  have n: "code_point [a, b] = (x + 2) * 64 + y" by (simp add: xy)
  have "128 \<le> (x + 2) * 64 + y" "(x + 2) * 64 + y < 2048" using xy(3,4) by simp_all
  then show ?thesis
    unfolding n utf8_of_def scalar_def
    by (simp only: split64 [OF xy(3)] byte_back [OF xy(1)] byte_back [OF xy(2)] if_False if_True simp_thms leD)
qed

lemma three_bytes:
  assumes a: "224 \<le> (of_char a :: nat)" "(of_char a :: nat) < 240" and b: "in_range 128 191 b" and c: "in_range 128 191 c"
    and lo: "of_char a = (224 :: nat) \<Longrightarrow> 160 \<le> (of_char b :: nat)" and hi: "of_char a = (237 :: nat) \<Longrightarrow> (of_char b :: nat) < 160"
  shows "utf8_of (code_point [a, b, c]) = [a, b, c] \<and> scalar (code_point [a, b, c])"
proof -
  obtain y where y: "(of_char b :: nat) = 128 + y" "y < 64" using b by (rule tail_byte)
  obtain z where z: "(of_char c :: nat) = 128 + z" "z < 64" using c by (rule tail_byte)
  obtain x where x: "(of_char a :: nat) = 224 + x" using a(1) by (rule lead_byte)
  have xyz: "(of_char a :: nat) = 224 + x" "(of_char b :: nat) = 128 + y" "(of_char c :: nat) = 128 + z"
    "x < 16" "y < 64" "z < 64"
    using a(2) x y z by linarith+
  have lo': "x = 0 \<Longrightarrow> 32 \<le> y" and hi': "x = 13 \<Longrightarrow> y < 32" using lo hi xyz by simp_all
  let ?n = "(x * 64 + y) * 64 + z"
  have code: "code_point [a, b, c] = ?n" by (simp add: xyz)
  have d: "?n div 64 = x * 64 + y" "?n mod 64 = z" by (rule split64 [OF xyz(6)])+
  have "?n div 4096 = ?n div 64 div 64" by (simp add: div_mult2_eq [symmetric])
  then have d': "?n div 4096 = x" using split64 [OF xyz(5), of x] d(1) by simp
  have "2048 \<le> ?n" using lo' xyz by (cases "x = 0") auto
  moreover have "?n < 65536" using xyz(4-6) by simp
  moreover have "?n < 55296 \<or> 57343 < ?n"
  proof (cases "x \<le> 13")
    case True
    then show ?thesis using hi' xyz by (cases "x = 13") auto
  next
    case False
    then have "14 * 64 \<le> x * 64 + y" by simp
    then show ?thesis by simp
  qed
  moreover define n where "n = ?n"
  moreover have "?n div 64 mod 64 = y" unfolding d by (rule split64 [OF xyz(5)])
  ultimately show ?thesis using d(2) d'
    unfolding code utf8_of_def scalar_def n_def [symmetric]
    by (simp add: split64 [OF xyz(5)] byte_back [OF xyz(1)] byte_back [OF xyz(2)] byte_back [OF xyz(3)])
qed

lemma four_bytes:
  assumes a: "240 \<le> (of_char a :: nat)" "(of_char a :: nat) < 245"
    and b: "in_range 128 191 b" and c: "in_range 128 191 c" and d: "in_range 128 191 d"
    and lo: "of_char a = (240 :: nat) \<Longrightarrow> 144 \<le> (of_char b :: nat)" and hi: "of_char a = (244 :: nat) \<Longrightarrow> (of_char b :: nat) < 144"
  shows "utf8_of (code_point [a, b, c, d]) = [a, b, c, d] \<and> scalar (code_point [a, b, c, d])"
proof -
  obtain y where y: "(of_char b :: nat) = 128 + y" "y < 64" using b by (rule tail_byte)
  obtain z where z: "(of_char c :: nat) = 128 + z" "z < 64" using c by (rule tail_byte)
  obtain u where u: "(of_char d :: nat) = 128 + u" "u < 64" using d by (rule tail_byte)
  obtain x where x: "(of_char a :: nat) = 240 + x" using a(1) by (rule lead_byte)
  have xy: "(of_char a :: nat) = 240 + x" "(of_char b :: nat) = 128 + y" "(of_char c :: nat) = 128 + z"
    "(of_char d :: nat) = 128 + u" "x < 5" "y < 64" "z < 64" "u < 64"
    using a(2) x y z u by linarith+
  have lo': "x = 0 \<Longrightarrow> 16 \<le> y" and hi': "x = 4 \<Longrightarrow> y < 16" using lo hi xy by simp_all
  let ?n = "((x * 64 + y) * 64 + z) * 64 + u"
  have code: "code_point [a, b, c, d] = ?n" by (simp add: xy)
  have d1: "?n div 64 = (x * 64 + y) * 64 + z" "?n mod 64 = u" by (rule split64 [OF xy(8)])+
  have "?n div 4096 = ?n div 64 div 64" "?n div 262144 = ?n div 64 div 64 div 64"
    by (simp_all add: div_mult2_eq [symmetric])
  then have d2: "?n div 4096 = x * 64 + y" "?n div 262144 = x"
    by (simp_all only: d1(1) split64 [OF xy(7)] split64 [OF xy(6)])
  have "65536 \<le> ?n" using lo' xy by (cases "x = 0") auto
  moreover have "?n < 1114112"
    using hi' xy by (cases "x = 4") auto
  moreover define n where "n = ?n"
  moreover have "?n div 64 mod 64 = z" "?n div 4096 mod 64 = y" unfolding d1 d2 by (simp_all only: split64 [OF xy(7)] split64 [OF xy(6)])
  ultimately show ?thesis using d1(2) d2(2)
    unfolding code utf8_of_def scalar_def n_def [symmetric]
    by (simp del: mult_Suc add: split64 [OF xy(6)] split64 [OF xy(7)] byte_back [OF xy(1)] byte_back [OF xy(2)] byte_back [OF xy(3)]
        byte_back [OF xy(4)])
qed

text \<open>A well-formed sequence at the head of a text.\<close>

lemma sequence_point:
  assumes "followers c = Some ps" "match_prefix ps s = length ps"
  shows "utf8_of (code_point (c # take (length ps) s)) = c # take (length ps) s \<and>
    scalar (code_point (c # take (length ps) s))"
proof -
  let ?n = "of_char c :: nat"
  have f: "followers c = Some ps" by (rule assms(1))
  consider "?n < 128" | "194 \<le> ?n" "?n < 224" | "?n = 224" | "?n = 237" | "224 < ?n" "?n < 240" "?n \<noteq> 237"
    | "?n = 240" | "240 < ?n" "?n < 244" | "?n = 244" | "128 \<le> ?n" "?n < 194" | "244 < ?n" by linarith
  then show ?thesis
  proof cases
    case 1
    with f have "ps = []" by (simp add: followers_def)
    with 1 show ?thesis by (simp add: utf8_of_def scalar_def)
  next
    case 2
    with f have "ps = [in_range 128 191]" by (simp add: followers_def Let_def)
    with assms(2) obtain x t where "s = x # t" "in_range 128 191 x" "ps = [in_range 128 191]"
      by (auto simp: match_prefix_shapes)
    with 2 two_bytes [of c x] show ?thesis by simp
  next
    case 3
    with f have "ps = [in_range 160 191, in_range 128 191]" by (simp add: followers_def Let_def)
    with assms(2) obtain x y t where "s = x # y # t" "in_range 160 191 x" "in_range 128 191 y" "ps = [in_range 160 191, in_range 128 191]"
      by (auto simp: match_prefix_shapes)
    with 3 three_bytes [of c x y] show ?thesis by (simp add: in_range_def)
  next
    case 4
    with f have "ps = [in_range 128 159, in_range 128 191]" by (simp add: followers_def Let_def)
    with assms(2) obtain x y t where "s = x # y # t" "in_range 128 159 x" "in_range 128 191 y" "ps = [in_range 128 159, in_range 128 191]"
      by (auto simp: match_prefix_shapes)
    with 4 three_bytes [of c x y] show ?thesis by (simp add: in_range_def)
  next
    case 5
    with f have "ps = [in_range 128 191, in_range 128 191]" by (simp add: followers_def Let_def)
    with assms(2) obtain x y t where "s = x # y # t" "in_range 128 191 x" "in_range 128 191 y" "ps = [in_range 128 191, in_range 128 191]"
      by (auto simp: match_prefix_shapes)
    with 5 three_bytes [of c x y] show ?thesis by simp
  next
    case 6
    with f have "ps = [in_range 144 191, in_range 128 191, in_range 128 191]" by (simp add: followers_def Let_def)
    with assms(2) obtain x y z t where "s = x # y # z # t" "in_range 144 191 x" "in_range 128 191 y" "in_range 128 191 z"
      "ps = [in_range 144 191, in_range 128 191, in_range 128 191]"
      by (auto simp: match_prefix_shapes)
    with 6 four_bytes [of c x y z] show ?thesis by (simp add: in_range_def)
  next
    case 7
    with f have "ps = [in_range 128 191, in_range 128 191, in_range 128 191]" by (simp add: followers_def Let_def)
    with assms(2) obtain x y z t where "s = x # y # z # t" "in_range 128 191 x" "in_range 128 191 y" "in_range 128 191 z"
      "ps = [in_range 128 191, in_range 128 191, in_range 128 191]"
      by (auto simp: match_prefix_shapes)
    with 7 four_bytes [of c x y z] show ?thesis by simp
  next
    case 8
    with f have "ps = [in_range 128 143, in_range 128 191, in_range 128 191]" by (simp add: followers_def Let_def)
    with assms(2) obtain x y z t where "s = x # y # z # t" "in_range 128 143 x" "in_range 128 191 y" "in_range 128 191 z"
      "ps = [in_range 128 143, in_range 128 191, in_range 128 191]"
      by (auto simp: match_prefix_shapes)
    with 8 four_bytes [of c x y z] show ?thesis by (simp add: in_range_def)
  qed (use f in \<open>simp_all add: followers_def\<close>)
qed

section \<open>Strings\<close>

definition hex_char :: "nat \<Rightarrow> char" where
  "hex_char n = (if n < 10 then digit_char n else char_of (87 + n))"

definition hex_val :: "char \<Rightarrow> nat option" where
  "hex_val c =
     (let n = of_char c :: nat in
      if is_digit c then Some (digit_val c)
      else if in_range 97 102 c then Some (n - 87)
      else if in_range 65 70 c then Some (n - 55)
      else None)"

definition hex4 :: "nat \<Rightarrow> string" where
  "hex4 n = [hex_char (n div 4096), hex_char (n div 256 mod 16), hex_char (n div 16 mod 16), hex_char (n mod 16)]"

fun read_hex4 :: "string \<Rightarrow> (nat \<times> string) option" where
  "read_hex4 (a # b # c # d # s) =
     (case (hex_val a, hex_val b, hex_val c, hex_val d) of
        (Some i, Some j, Some k, Some l) \<Rightarrow> Some (i * 4096 + j * 256 + k * 16 + l, s)
      | _ \<Rightarrow> None)"
| "read_hex4 _ = None"

lemma of_char_code: "n < 256 \<Longrightarrow> (of_char (char_of n :: char) :: nat) = n"
  by simp

lemma char_of_eq: "n < 256 \<Longrightarrow> char_of n = c \<longleftrightarrow> n = (of_char c :: nat)"
  by (metis of_char_code char_of_char)

lemma hex_char_props [simp]: "n < 16 \<Longrightarrow> hex_val (hex_char n) = Some n" "n < 16 \<Longrightarrow> in_range 32 126 (hex_char n)"
proof -
  assume n: "n < 16"
  have "hex_val (hex_char n) = Some n \<and> in_range 32 126 (hex_char n)"
  proof (cases "n < 10")
    case True
    then show ?thesis by (auto simp: hex_char_def hex_val_def in_range_def digit_char_def is_digit_def digit_val_def)
  next
    case False
    then show ?thesis using n by (auto simp: hex_char_def hex_val_def in_range_def is_digit_def Let_def)
  qed
  then show "hex_val (hex_char n) = Some n" "in_range 32 126 (hex_char n)" by simp_all
qed

lemma quad16:
  fixes n :: nat
  shows "n div 4096 * 4096 + n div 256 mod 16 * 256 + n div 16 mod 16 * 16 + n mod 16 = n"
proof -
  have q: "m div 16 * 16 + m mod 16 = m" for m :: nat by simp
  have e: "n div 256 = n div 16 div 16" "n div 4096 = n div 16 div 16 div 16"
    by (simp_all add: div_mult2_eq [symmetric])
  show ?thesis
    unfolding e using q [of n] q [of "n div 16"] q [of "n div 16 div 16"] by linarith
qed

lemma read_hex4_hex4: "n < 65536 \<Longrightarrow> read_hex4 (hex4 n @ s) = Some (n, s)"
  using quad16 [of n] by (simp add: hex4_def)

text \<open>
  One character between the quotes. Surrogates are written and read in pairs; a surrogate on its own is not a
  character of a text.
\<close>

definition u_escape :: "nat \<Rightarrow> string" where
  "u_escape n = CHR 0x5C # CHR ''u'' # hex4 n"

definition esc_point :: "nat \<Rightarrow> string" where
  "esc_point n =
     (if n = 34 \<or> n = 92 then [CHR 0x5C, char_of n]
      else if n = 8 then [CHR 0x5C, CHR ''b'']
      else if n = 9 then [CHR 0x5C, CHR ''t'']
      else if n = 10 then [CHR 0x5C, CHR ''n'']
      else if n = 12 then [CHR 0x5C, CHR ''f'']
      else if n = 13 then [CHR 0x5C, CHR ''r'']
      else if 32 \<le> n \<and> n \<le> 126 then [char_of n]
      else if n < 65536 then u_escape n
      else u_escape (55296 + (n - 65536) div 1024) @ u_escape (56320 + (n - 65536) mod 1024))"

definition read_u :: "string \<Rightarrow> (nat \<times> string) option" where
  "read_u s =
     (case read_hex4 s of
        None \<Rightarrow> None
      | Some (n, t) \<Rightarrow>
          if 55296 \<le> n \<and> n < 56320 then
            (if take 2 t = [CHR 0x5C, CHR ''u''] then
               (case read_hex4 (drop 2 t) of
                  None \<Rightarrow> None
                | Some (m, r) \<Rightarrow>
                    if 56320 \<le> m \<and> m < 57344 then Some (65536 + (n - 55296) * 1024 + (m - 56320), r) else None)
             else None)
          else if 56320 \<le> n \<and> n < 57344 then None
          else Some (n, t))"

definition read_escape :: "string \<Rightarrow> (nat \<times> string) option" where
  "read_escape s =
     (case s of
        [] \<Rightarrow> None
      | e # t \<Rightarrow>
          if e = CHR ''u'' then read_u t
          else if e = CHR 0x22 \<or> e = CHR 0x5C \<or> e = CHR ''/'' then Some (of_char e, t)
          else if e = CHR ''b'' then Some (8, t)
          else if e = CHR ''t'' then Some (9, t)
          else if e = CHR ''n'' then Some (10, t)
          else if e = CHR ''f'' then Some (12, t)
          else if e = CHR ''r'' then Some (13, t)
          else None)"

definition read_char :: "string \<Rightarrow> (nat \<times> string) option" where
  "read_char s =
     (case s of
        [] \<Rightarrow> None
      | c # t \<Rightarrow>
          if c = CHR 0x5C then read_escape t
          else if (of_char c :: nat) < 32 then None
          else (case followers c of
             None \<Rightarrow> None
           | Some ps \<Rightarrow>
               if match_prefix ps t = length ps then Some (code_point (c # take (length ps) t), drop (length ps) t)
               else None))"

lemma read_hex4_shorter: "read_hex4 s = Some (n, t) \<Longrightarrow> length t < length s"
  by (cases s rule: read_hex4.cases) (auto split: option.splits)

lemma read_u_shorter: "read_u s = Some (n, t) \<Longrightarrow> length t < length s"
  by (auto simp: read_u_def split: option.splits if_splits dest!: read_hex4_shorter)

lemma read_escape_shorter: "read_escape s = Some (n, t) \<Longrightarrow> length t < length s"
  by (auto simp: read_escape_def split: list.splits if_splits dest!: read_u_shorter)

lemma read_char_shorter: "read_char s = Some (n, t) \<Longrightarrow> length t < length s"
  by (auto simp: read_char_def split: list.splits if_splits option.splits dest!: read_escape_shorter)

lemma read_char_literal:
  "32 \<le> n \<Longrightarrow> n \<le> 126 \<Longrightarrow> n \<noteq> 92 \<Longrightarrow> read_char (char_of n # s) = Some (n, s)"
  by (simp add: read_char_def followers_def char_of_eq Let_def)

lemma read_char_u: "n < 65536 \<Longrightarrow> scalar n \<Longrightarrow> read_char (u_escape n @ s) = Some (n, s)"
  by (auto simp: read_char_def read_escape_def read_u_def u_escape_def read_hex4_hex4 scalar_def)

lemma read_char_pair:
  assumes "65536 \<le> n" "scalar n"
  shows "read_char (u_escape (55296 + (n - 65536) div 1024) @ u_escape (56320 + (n - 65536) mod 1024) @ s) = Some (n, s)"
proof -
  obtain m where n: "n = 65536 + m" using assms(1) le_Suc_ex by blast
  have "m < 1048576" using assms(2) by (simp add: n scalar_def)
  then have d: "m div 1024 < 1024" by (simp add: less_mult_imp_div_less)
  have e: "m div 1024 * 1024 + m mod 1024 = m" by simp
  have m: "m mod 1024 < 1024" by simp
  have h: "read_hex4 (hex4 (55296 + m div 1024) @ t) = Some (55296 + m div 1024, t)" for t
    using d by (simp add: read_hex4_hex4)
  have l: "read_hex4 (hex4 (56320 + m mod 1024) @ t) = Some (56320 + m mod 1024, t)" for t
    using m by (simp add: read_hex4_hex4 del: mod_less_divisor)
  show ?thesis
    using d m e by (simp add: n read_char_def read_escape_def read_u_def u_escape_def h l del: mod_less_divisor)
qed

lemma read_char_esc:
  assumes "scalar n"
  shows "read_char (esc_point n @ s) = Some (n, s)"
proof -
  consider "n = 34 \<or> n = 92 \<or> n = 8 \<or> n = 9 \<or> n = 10 \<or> n = 12 \<or> n = 13"
    | "n \<noteq> 34" "n \<noteq> 92" "32 \<le> n" "n \<le> 126"
    | "n \<noteq> 8 \<and> n \<noteq> 9 \<and> n \<noteq> 10 \<and> n \<noteq> 12 \<and> n \<noteq> 13" "n < 32 \<or> 126 < n" "n < 65536" | "65536 \<le> n" by linarith
  then show ?thesis
  proof cases
    case 1
    then show ?thesis by (elim disjE) (simp_all add: esc_point_def read_char_def read_escape_def char_of_eq)
  next
    case 2
    then show ?thesis by (simp add: esc_point_def read_char_literal)
  next
    case 3
    then have "esc_point n = u_escape n" by (auto simp: esc_point_def)
    with 3(3) assms show ?thesis by (simp add: read_char_u)
  next
    case 4
    then show ?thesis using read_char_pair [OF 4 assms, of s] by (simp add: esc_point_def)
  qed
qed

lemma esc_point_head: "\<exists>e es. esc_point n = e # es \<and> e \<noteq> CHR 0x22"
proof -
  have "n \<le> 126 \<Longrightarrow> n \<noteq> 34 \<Longrightarrow> char_of n \<noteq> CHR 0x22" by (simp add: char_of_eq)
  then show ?thesis by (auto simp: esc_point_def u_escape_def)
qed

function esc_text :: "string \<Rightarrow> string" where
  "esc_text [] = []"
| "esc_text (c # s) =
     (case followers c of
        None \<Rightarrow> esc_text s
      | Some ps \<Rightarrow> esc_point (code_point (c # take (length ps) s)) @ esc_text (drop (length ps) s))"
  by pat_completeness auto
termination
  by (relation "measure length") auto

declare esc_text.simps(2) [simp del]

definition quoted :: "string \<Rightarrow> string" where
  "quoted s = CHR 0x22 # esc_text s @ [CHR 0x22]"

text \<open>The rest of a string, up to its closing quote.\<close>

function read_string :: "string \<Rightarrow> (string \<times> string) option" where
  "read_string s =
     (if take 1 s = [CHR 0x22] then Some ([], tl s)
      else (case read_char s of
         None \<Rightarrow> None
       | Some (n, t) \<Rightarrow> map_option (\<lambda>(w, r). (utf8_of n @ w, r)) (read_string t)))"
  by pat_completeness auto
termination
  by (relation "measure length") (auto dest: read_char_shorter)

declare read_string.simps [simp del]

lemma read_string_quoted: "utf8 s \<Longrightarrow> read_string (esc_text s @ CHR 0x22 # r) = Some (s, r)"
proof (induction s rule: utf8.induct)
  case 1
  show ?case by (simp add: read_string.simps)
next
  case (2 c s)
  from 2(2) obtain ps where ps: "followers c = Some ps" "match_prefix ps s = length ps" "utf8 (drop (length ps) s)"
    by (auto simp: utf8.simps(2) split: option.splits)
  let ?n = "code_point (c # take (length ps) s)"
  note sp = sequence_point [OF ps(1,2)]
  obtain e es where e: "esc_point ?n = e # es" "e \<noteq> CHR 0x22" using esc_point_head by blast
  have "read_string (esc_point ?n @ t) = map_option (\<lambda>(w, r). (utf8_of ?n @ w, r)) (read_string t)" for t
    using read_char_esc [of ?n t] sp e by (subst read_string.simps) simp
  then show ?case using sp 2(1) [OF ps(1,3)] by (simp add: esc_text.simps(2) ps(1))
qed

section \<open>Values\<close>

text \<open>
  A number rounded to two digits as Python prints it: at least one digit after the point, no trailing zero after
  that. (From \<open>10^16\<close> on Python changes to exponents; the service's percentages and rates stay far below.)
\<close>

definition hundredths_text :: "nat \<Rightarrow> string" where
  "hundredths_text h =
     digits (h div 100) @ CHR ''.'' # digit_char (h div 10 mod 10) # (if h mod 10 = 0 then [] else [digit_char (h mod 10)])"

text \<open>\<open>dumps sp j\<close>: the text of a value with the white space \<open>sp\<close> after each comma and colon.\<close>

fun dumps :: "string \<Rightarrow> json \<Rightarrow> string" where
  "dumps sp JNull = ''null''"
| "dumps sp (JBool b) = (if b then ''true'' else ''false'')"
| "dumps sp (JInt i) = str_int i"
| "dumps sp (JHundredths i) = (if i < 0 then ''-'' else []) @ hundredths_text (nat \<bar>i\<bar>)"
| "dumps sp (JStr s) = quoted s"
| "dumps sp (JList xs) = ''['' @ join_with (CHR '','' # sp) (map (dumps sp) xs) @ '']''"
| "dumps sp (JObj m) =
     CHR 0x7B # join_with (CHR '','' # sp) (map (\<lambda>(k, v). quoted k @ CHR '':'' # sp @ dumps sp v) m) @ [CHR 0x7D]"

definition json_ws :: "char \<Rightarrow> bool" where
  "json_ws c \<longleftrightarrow> c = CHR 0x20 \<or> c = CHR 0x09 \<or> c = CHR 0x0A \<or> c = CHR 0x0D"

definition skip_ws :: "string \<Rightarrow> string" where
  "skip_ws s = dropWhile json_ws s"

text \<open>
  Integers without leading zeros, and fractions of one or two digits. Numbers with an exponent or more digits,
  which Python reads as floats, are outside the values of this development and are refused.
\<close>

definition read_frac :: "bool \<Rightarrow> nat \<Rightarrow> string \<Rightarrow> (json \<times> string) option" where
  "read_frac neg n s =
     (let ds = takeWhile is_digit s; t = dropWhile is_digit s; sign = (\<lambda>i. if neg then - i else i) in
      if t \<noteq> [] \<and> (hd t = CHR ''e'' \<or> hd t = CHR ''E'') then None
      else if length ds = 1 then Some (JHundredths (sign (int (n * 100 + digits_val 10 ds * 10))), t)
      else if length ds = 2 then Some (JHundredths (sign (int (n * 100 + digits_val 10 ds))), t)
      else None)"

definition read_nat :: "bool \<Rightarrow> string \<Rightarrow> (json \<times> string) option" where
  "read_nat neg s =
     (let ds = takeWhile is_digit s; t = dropWhile is_digit s; n = digits_val 10 ds in
      if ds = [] \<or> hd ds = CHR ''0'' \<and> length ds \<noteq> 1 then None
      else if t \<noteq> [] \<and> hd t = CHR ''.'' then read_frac neg n (tl t)
      else if t \<noteq> [] \<and> (hd t = CHR ''e'' \<or> hd t = CHR ''E'') then None
      else Some (JInt (if neg then - int n else int n), t))"

definition read_number :: "string \<Rightarrow> (json \<times> string) option" where
  "read_number s = (if take 1 s = ''-'' then read_nat True (tl s) else read_nat False s)"

text \<open>A later entry for a key replaces the value of the earlier one, in its place.\<close>

fun jset :: "string \<Rightarrow> 'v \<Rightarrow> (string \<times> 'v) list \<Rightarrow> (string \<times> 'v) list" where
  "jset k v [] = [(k, v)]"
| "jset k v ((k', v') # m) = (if k' = k then (k, v) # m else (k', v') # jset k v m)"

definition dict_of :: "(string \<times> 'v) list \<Rightarrow> (string \<times> 'v) list" where
  "dict_of m = foldl (\<lambda>d (k, v). jset k v d) [] m"

text \<open>The reader. The fuel bounds its steps; the length of the text is always enough.\<close>

fun read_value :: "nat \<Rightarrow> string \<Rightarrow> (json \<times> string) option"
  and read_items :: "nat \<Rightarrow> string \<Rightarrow> (json list \<times> string) option"
  and read_members :: "nat \<Rightarrow> string \<Rightarrow> ((string \<times> json) list \<times> string) option" where
  "read_value 0 s = None"
| "read_value (Suc n) s =
     (if s = [] then None
      else if hd s = CHR 0x22 then map_option (\<lambda>(w, r). (JStr w, r)) (read_string (tl s))
      else if hd s = CHR 0x7B then
        (let t = skip_ws (tl s) in
         if take 1 t = [CHR 0x7D] then Some (JObj [], tl t)
         else map_option (\<lambda>(m, r). (JObj (dict_of m), r)) (read_members n t))
      else if hd s = CHR ''['' then
        (let t = skip_ws (tl s) in
         if take 1 t = '']'' then Some (JList [], tl t)
         else map_option (\<lambda>(xs, r). (JList xs, r)) (read_items n t))
      else if take 4 s = ''null'' then Some (JNull, drop 4 s)
      else if take 4 s = ''true'' then Some (JBool True, drop 4 s)
      else if take 5 s = ''false'' then Some (JBool False, drop 5 s)
      else read_number s)"
| "read_items 0 s = None"
| "read_items (Suc n) s =
     (case read_value n s of
        None \<Rightarrow> None
      | Some (v, r) \<Rightarrow>
          let t = skip_ws r in
          if take 1 t = '']'' then Some ([v], tl t)
          else if take 1 t = '','' then map_option (\<lambda>(vs, q). (v # vs, q)) (read_items n (skip_ws (tl t)))
          else None)"
| "read_members 0 s = None"
| "read_members (Suc n) s =
     (if take 1 s \<noteq> [CHR 0x22] then None
      else (case read_string (tl s) of
         None \<Rightarrow> None
       | Some (k, r) \<Rightarrow>
           let t = skip_ws r in
           if take 1 t \<noteq> '':'' then None
           else (case read_value n (skip_ws (tl t)) of
              None \<Rightarrow> None
            | Some (v, q) \<Rightarrow>
                let u = skip_ws q in
                if take 1 u = [CHR 0x7D] then Some ([(k, v)], tl u)
                else if take 1 u = '','' then
                  map_option (\<lambda>(m, p). ((k, v) # m, p)) (read_members n (skip_ws (tl u)))
                else None)))"

definition loads :: "string \<Rightarrow> json option" where
  "loads s =
     (case read_value (Suc (length s)) (skip_ws s) of
        None \<Rightarrow> None
      | Some (j, r) \<Rightarrow> if skip_ws r = [] then Some j else None)"

text \<open>What a value of Python's \<open>str\<close>, \<open>dict\<close> and \<open>list\<close> satisfies: valid text, and no key twice.\<close>

fun json_ok :: "json \<Rightarrow> bool" where
  "json_ok (JStr s) = utf8 s"
| "json_ok (JList xs) = list_all json_ok xs"
| "json_ok (JObj m) = (distinct (map fst m) \<and> list_all (\<lambda>(k, v). utf8 k \<and> json_ok v) m)"
| "json_ok _ = True"

section \<open>The round trip\<close>

definition stops :: "string \<Rightarrow> bool" where
  "stops r \<longleftrightarrow> (r \<noteq> [] \<longrightarrow> \<not> is_digit (hd r) \<and> hd r \<notin> set ''.eE'')"

lemma stops_simps [simp]: "stops []" "stops (CHR '','' # r)" "stops (CHR '']'' # r)" "stops (CHR 0x7D # r)" "stops (CHR 0x0A # r)"
  by (simp_all add: stops_def is_digit_def)

lemma span_digits:
  assumes "list_all is_digit ds" "r = [] \<or> \<not> is_digit (hd r)"
  shows "takeWhile is_digit (ds @ r) = ds \<and> dropWhile is_digit (ds @ r) = r"
  using assms by (induction ds) (cases r; auto)+

lemma digits_all: "list_all is_digit (digits n)" "digits n \<noteq> []"
  using isdigit_digits [of n] by (simp_all add: isdigit_def)

lemma radix_head: "0 < n \<Longrightarrow> hd (radix 10 n) \<noteq> CHR ''0''"
proof (induction "10 :: nat" n rule: radix.induct)
  case (1 n)
  show ?case
  proof (cases "n < 10")
    case True
    with 1(2) show ?thesis by (subst radix.simps) (simp add: digit_char_def char_of_eq)
  next
    case False
    then show ?thesis using 1(1) radix_digits [of 10 "n div 10"] by (subst radix.simps) simp
  qed
qed

lemma digits_head: "hd (digits n) = CHR ''0'' \<Longrightarrow> length (digits n) = 1"
proof (cases "n = 0")
  case True
  then show ?thesis by (simp add: digits_def radix.simps [of 10 0])
next
  case False
  then show "hd (digits n) = CHR ''0'' \<Longrightarrow> ?thesis" using radix_head [of n] by (simp add: digits_def)
qed

lemma read_nat_digits: "stops r \<Longrightarrow> read_nat neg (digits n @ r) = Some (JInt (if neg then - int n else int n), r)"
proof -
  assume r: "stops r"
  have "takeWhile is_digit (digits n @ r) = digits n \<and> dropWhile is_digit (digits n @ r) = r"
    by (rule span_digits) (use r digits_all in \<open>auto simp: stops_def\<close>)
  then show ?thesis
    using r digits_all digits_head [of n] by (auto simp: read_nat_def Let_def stops_def digits_val_digits)
qed

lemma read_nat_hundredths:
  assumes "stops r"
  shows "read_nat neg (hundredths_text h @ r) = Some (JHundredths (if neg then - int h else int h), r)"
proof -
  let ?f = "digit_char (h div 10 mod 10) # (if h mod 10 = 0 then [] else [digit_char (h mod 10)])"
  have f: "list_all is_digit ?f" by simp
  have s1: "takeWhile is_digit (?f @ r) = ?f \<and> dropWhile is_digit (?f @ r) = r"
    by (rule span_digits) (use assms f in \<open>auto simp: stops_def\<close>)
  let ?t = "CHR ''.'' # ?f @ r"
  have s2: "takeWhile is_digit (digits (h div 100) @ ?t) = digits (h div 100) \<and>
      dropWhile is_digit (digits (h div 100) @ ?t) = ?t"
    by (rule span_digits) (use digits_all in \<open>auto simp: is_digit_def\<close>)
  have t: "hundredths_text h @ r = digits (h div 100) @ ?t" by (simp add: hundredths_text_def)
  have e: "h div 100 = h div 10 div 10" by (simp add: div_mult2_eq [symmetric])
  have v: "h div 100 * 100 + digits_val 10 ?f * (if h mod 10 = 0 then 10 else 1) = h"
  proof -
    have q: "m div 10 * 10 + m mod 10 = m" for m :: nat by simp
    have "h div 10 div 10 * 100 + (h div 10 mod 10 * 10 + h mod 10) = h"
      using q [of h] q [of "h div 10"] by linarith
    then show ?thesis by (auto simp: digits_val_def e)
  qed
  have fr: "read_frac neg (h div 100) (?f @ r) = Some (JHundredths (if neg then - int h else int h), r)"
    using assms v s1 by (cases "h mod 10 = 0") (auto simp: read_frac_def Let_def stops_def)
  show ?thesis
    unfolding t using s2 digits_all [of "h div 100"] digits_head [of "h div 100"] fr
    by (auto simp: read_nat_def Let_def digits_val_digits)
qed

lemma digit_not_minus: "take 1 (digits n @ r) \<noteq> ''-''"
  using digits_all [of n] by (cases "digits n") (auto simp: is_digit_def)

lemma read_number_int: "stops r \<Longrightarrow> read_number (str_int i @ r) = Some (JInt i, r)"
  using digit_not_minus [of "nat i" r] by (auto simp: read_number_def str_int_def read_nat_digits)

lemma hundredths_not_minus: "take 1 (hundredths_text h @ r) \<noteq> ''-''"
  using digit_not_minus [of "h div 100"] by (simp add: hundredths_text_def)

lemma read_number_hundredths:
  "stops r \<Longrightarrow> read_number (dumps sp (JHundredths i) @ r) = Some (JHundredths i, r)"
  using hundredths_not_minus [of "nat i" r] by (auto simp: read_number_def read_nat_hundredths)

text \<open>The first character of a number.\<close>

definition number_head :: "char \<Rightarrow> bool" where
  "number_head c \<longleftrightarrow> c = CHR ''-'' \<or> is_digit c"

lemma number_text_head:
  "\<exists>c t. str_int i = c # t \<and> number_head c" "\<exists>c t. dumps sp (JHundredths i) = c # t \<and> number_head c"
proof -
  have d: "\<exists>c t. digits n = c # t \<and> number_head c" for n
    using digits_all [of n] by (cases "digits n") (auto simp: number_head_def)
  show "\<exists>c t. str_int i = c # t \<and> number_head c" using d [of "nat i"] by (auto simp: str_int_def number_head_def)
  show "\<exists>c t. dumps sp (JHundredths i) = c # t \<and> number_head c"
    using d [of "nat \<bar>i\<bar> div 100"] by (auto simp: hundredths_text_def number_head_def)
qed

lemma number_head_not:
  "number_head c \<Longrightarrow> c \<noteq> CHR 0x22 \<and> c \<noteq> CHR 0x7B \<and> c \<noteq> CHR ''['' \<and> c \<noteq> CHR ''n'' \<and> c \<noteq> CHR ''t'' \<and> c \<noteq> CHR ''f''
    \<and> \<not> json_ws c \<and> c \<noteq> CHR '']'' \<and> c \<noteq> CHR 0x7D"
  by (auto simp: number_head_def is_digit_def json_ws_def)

lemma read_value_number: "number_head c \<Longrightarrow> read_value (Suc n) (c # t) = read_number (c # t)"
  using number_head_not [of c] by simp

lemma dumps_head: "\<exists>c t. dumps sp j = c # t \<and> \<not> json_ws c \<and> c \<noteq> CHR '']'' \<and> c \<noteq> CHR 0x7D"
proof (cases j)
  case (JInt i)
  then show ?thesis using number_text_head(1) [of i] number_head_not by fastforce
next
  case (JHundredths i)
  then show ?thesis using number_text_head(2) [of sp i] number_head_not by fastforce
qed (auto simp: json_ws_def quoted_def)

lemma skip_ws_blank: "list_all json_ws sp \<Longrightarrow> skip_ws (sp @ s) = skip_ws s"
  by (induction sp) (simp_all add: skip_ws_def)

lemma skip_ws_dumps: "skip_ws (dumps sp j @ r) = dumps sp j @ r"
  using dumps_head [of sp j] by (auto simp: skip_ws_def)

lemma skip_ws_mark [simp]:
  "skip_ws (CHR '','' # r) = CHR '','' # r" "skip_ws (CHR '']'' # r) = CHR '']'' # r" "skip_ws (CHR 0x7D # r) = CHR 0x7D # r"
  "skip_ws (CHR '':'' # r) = CHR '':'' # r" "skip_ws (CHR 0x22 # r) = CHR 0x22 # r" "skip_ws [] = []"
  by (simp_all add: skip_ws_def json_ws_def)

definition reads_back :: "string \<Rightarrow> json \<Rightarrow> bool" where
  "reads_back sp j \<longleftrightarrow>
     (\<forall>n r. length (dumps sp j) \<le> n \<longrightarrow> stops r \<longrightarrow> read_value n (dumps sp j @ r) = Some (j, r))"

lemma reads_backD: "reads_back sp j \<Longrightarrow> length (dumps sp j) \<le> n \<Longrightarrow> stops r \<Longrightarrow> read_value n (dumps sp j @ r) = Some (j, r)"
  by (simp add: reads_back_def)

lemma read_items_join:
  assumes "list_all json_ws sp" "xs \<noteq> []" "list_all (reads_back sp) xs"
    "Suc (length (join_with (CHR '','' # sp) (map (dumps sp) xs))) \<le> n"
  shows "read_items n (join_with (CHR '','' # sp) (map (dumps sp) xs) @ CHR '']'' # r) = Some (xs, r)"
  using assms(2-)
proof (induction xs arbitrary: n)
  case (Cons x xs)
  from Cons(4) obtain m where n: "n = Suc m" by (cases n) simp_all
  show ?case
  proof (cases "xs = []")
    case True
    with Cons n show ?thesis by (simp add: reads_backD)
  next
    case False
    then have j: "join_with (CHR '','' # sp) (map (dumps sp) (x # xs)) =
        dumps sp x @ CHR '','' # sp @ join_with (CHR '','' # sp) (map (dumps sp) xs)"
      by (simp add: join_with_Cons)
    have len: "length (dumps sp x) \<le> m" "Suc (length (join_with (CHR '','' # sp) (map (dumps sp) xs))) \<le> m"
      using Cons(4) unfolding j n by simp_all
    have sk: "skip_ws (sp @ join_with (CHR '','' # sp) (map (dumps sp) xs) @ CHR '']'' # r) =
        join_with (CHR '','' # sp) (map (dumps sp) xs) @ CHR '']'' # r"
      using False assms(1) skip_ws_dumps [of sp "hd xs"]
      by (cases xs; cases "tl xs") (simp_all add: skip_ws_blank)
    show ?thesis
      using Cons(1) [OF False _ len(2)] Cons(3) reads_backD [OF _ len(1)]
      unfolding j n by (simp add: sk Let_def)
  qed
qed simp

abbreviation member_text :: "string \<Rightarrow> string \<times> json \<Rightarrow> string" where
  "member_text sp \<equiv> \<lambda>(k, v). quoted k @ CHR '':'' # sp @ dumps sp v"

lemma read_members_join:
  assumes sp: "list_all json_ws sp" and "m \<noteq> []" "list_all (\<lambda>(k, v). utf8 k \<and> reads_back sp v) m"
    "Suc (length (join_with (CHR '','' # sp) (map (member_text sp) m))) \<le> n"
  shows "read_members n (join_with (CHR '','' # sp) (map (member_text sp) m) @ CHR 0x7D # r) = Some (m, r)"
  using assms(2-)
proof (induction m arbitrary: n)
  case (Cons x m)
  from Cons(4) obtain l where n: "n = Suc l" by (cases n) simp_all
  obtain k v where x: "x = (k, v)" by (cases x)
  let ?j = "join_with (CHR '','' # sp) (map (member_text sp) m)"
  have k: "utf8 k" "reads_back sp v" "list_all (\<lambda>(k, v). utf8 k \<and> reads_back sp v) m" using Cons(3) by (simp_all add: x)
  have v: "skip_ws (sp @ dumps sp v @ q) = dumps sp v @ q" for q by (simp add: skip_ws_blank [OF sp] skip_ws_dumps)
  have head: "read_string (esc_text k @ CHR 0x22 # q) = Some (k, q)" for q by (rule read_string_quoted) (rule k(1))
  show ?case
  proof (cases "m = []")
    case True
    have "length (dumps sp v) \<le> l" using Cons(4) by (simp add: True x n)
    with reads_backD [OF k(2)] show ?thesis by (simp add: True x n quoted_def head v Let_def)
  next
    case False
    then have j: "join_with (CHR '','' # sp) (map (member_text sp) (x # m)) =
        quoted k @ CHR '':'' # sp @ dumps sp v @ CHR '','' # sp @ ?j"
      by (simp add: join_with_Cons x)
    have len: "length (dumps sp v) \<le> l" "Suc (length ?j) \<le> l"
      using Cons(4) unfolding j n by simp_all
    have sk: "skip_ws (sp @ ?j @ CHR 0x7D # r) = ?j @ CHR 0x7D # r"
      using False by (cases m; cases "tl m") (auto simp: skip_ws_blank [OF sp] quoted_def)
    define q where "q = ?j @ CHR 0x7D # r"
    have "read_members n (quoted k @ CHR '':'' # sp @ dumps sp v @ CHR '','' # sp @ q) = Some ((k, v) # m, r)"
      using Cons(1) [OF False k(3) len(2)] reads_backD [OF k(2) len(1)] sk
      unfolding n q_def [symmetric] by (simp add: quoted_def head v Let_def)
    then show ?thesis unfolding j by (simp add: q_def x)
  qed
qed simp

lemma jset_new: "k \<notin> fst ` set m \<Longrightarrow> jset k v m = m @ [(k, v)]"
  by (induction m rule: jset.induct) auto

lemma dict_of_distinct: "distinct (map fst m) \<Longrightarrow> dict_of m = m"
proof -
  have "distinct (map fst (d @ m)) \<Longrightarrow> foldl (\<lambda>d (k, v). jset k v d) d m = d @ m" for d
    by (induction m arbitrary: d) (auto simp: jset_new image_iff)
  from this [of "[]"] show "distinct (map fst m) \<Longrightarrow> ?thesis" by (simp add: dict_of_def)
qed

lemma reads_backI:
  assumes "\<And>m r. stops r \<Longrightarrow> read_value (Suc m) (dumps sp j @ r) = Some (j, r)"
  shows "reads_back sp j"
  unfolding reads_back_def
proof (intro allI impI)
  fix n r assume "length (dumps sp j) \<le> n" "stops r"
  moreover obtain c t where "dumps sp j = c # t" using dumps_head by blast
  ultimately show "read_value n (dumps sp j @ r) = Some (j, r)" using assms by (cases n) simp_all
qed

lemma reads_back:
  assumes sp: "list_all json_ws sp"
  shows "json_ok j \<Longrightarrow> reads_back sp j"
proof (induction j)
  case (JInt i)
  obtain c t where "str_int i = c # t" "number_head c" using number_text_head(1) [of i] by blast
  then show ?case
    using read_number_int [of _ i] by (intro reads_backI) (simp only: dumps.simps append_Cons read_value_number)
next
  case (JHundredths i)
  obtain c t where "dumps sp (JHundredths i) = c # t" "number_head c" using number_text_head(2) [of sp i] by blast
  then show ?case
    using read_number_hundredths [of _ sp i] by (intro reads_backI) (simp only: append_Cons read_value_number)
next
  case (JStr s)
  then show ?case by (intro reads_backI) (simp add: quoted_def read_string_quoted)
next
  case JNull
  show ?case by (rule reads_backI) simp
next
  case (JBool b)
  show ?case by (rule reads_backI) simp
next
  case (JList xs)
  then have xs: "list_all (reads_back sp) xs" by (simp add: list_all_iff)
  show ?case unfolding reads_back_def
  proof (intro allI impI)
    fix n r assume len: "length (dumps sp (JList xs)) \<le> n"
    then obtain m where n: "n = Suc m" by (cases n) simp_all
    let ?j = "join_with (CHR '','' # sp) (map (dumps sp) xs)"
    show "read_value n (dumps sp (JList xs) @ r) = Some (JList xs, r)"
    proof (cases "xs = []")
      case False
      then obtain c t where h: "?j @ CHR '']'' # r = c # t" "\<not> json_ws c" "c \<noteq> CHR '']''"
        using dumps_head [of sp "hd xs"] by (cases xs; cases "tl xs") auto
      have "read_items m (?j @ CHR '']'' # r) = Some (xs, r)"
        by (rule read_items_join [OF sp False xs]) (use len n in simp)
      with h show ?thesis by (simp add: n skip_ws_def)
    qed (simp add: n)
  qed
next
  case (JObj m)
  then have m: "list_all (\<lambda>(k, v). utf8 k \<and> reads_back sp v) m" by (fastforce simp: list_all_iff)
  show ?case unfolding reads_back_def
  proof (intro allI impI)
    fix n r assume len: "length (dumps sp (JObj m)) \<le> n"
    then obtain l where n: "n = Suc l" by (cases n) simp_all
    let ?j = "join_with (CHR '','' # sp) (map (member_text sp) m)"
    show "read_value n (dumps sp (JObj m) @ r) = Some (JObj m, r)"
    proof (cases "m = []")
      case False
      then obtain t where h: "?j @ CHR 0x7D # r = CHR 0x22 # t"
        by (cases m; cases "tl m") (auto simp: quoted_def)
      have "read_members l (?j @ CHR 0x7D # r) = Some (m, r)"
        by (rule read_members_join [OF sp False m]) (use len n in simp)
      with h JObj(2) show ?thesis by (simp add: n dict_of_distinct)
    qed (simp add: n)
  qed
qed

lemma loads_dumps:
  assumes "list_all json_ws sp" "json_ok j"
  shows "loads (dumps sp j) = Some j"
  using reads_backD [OF reads_back [OF assms], of "Suc (length (dumps sp j))" "[]"] skip_ws_dumps [of sp j "[]"]
  by (simp add: loads_def)

text \<open>The text is printable ASCII: one line, whatever the strings hold.\<close>

lemma hex4_ascii: "n < 65536 \<Longrightarrow> list_all (in_range 32 126) (hex4 n)"
  by (simp add: hex4_def less_mult_imp_div_less)

lemma esc_point_ascii: "n < 1114112 \<Longrightarrow> list_all (in_range 32 126) (esc_point n)"
proof -
  assume n: "n < 1114112"
  then have "(n - 65536) div 1024 < 1024" by (simp add: less_mult_imp_div_less)
  moreover have "(n - 65536) mod 1024 < 1024" by simp
  ultimately have u: "55296 + (n - 65536) div 1024 < 65536" "56320 + (n - 65536) mod 1024 < 65536" by linarith+
  have "in_range 32 126 (char_of n)" if "32 \<le> n" "n \<le> 126" using that by (simp add: in_range_def)
  then show ?thesis using hex4_ascii [OF u(1)] hex4_ascii [OF u(2)] hex4_ascii [of n]
    by (auto simp: esc_point_def u_escape_def in_range_def)
qed

lemma esc_text_ascii: "utf8 s \<Longrightarrow> list_all (in_range 32 126) (esc_text s)"
proof (induction s rule: utf8.induct)
  case 1
  show ?case by simp
next
  case (2 c s)
  from 2(2) obtain ps where ps: "followers c = Some ps" "match_prefix ps s = length ps" "utf8 (drop (length ps) s)"
    by (auto simp: utf8.simps(2) split: option.splits)
  have "code_point (c # take (length ps) s) < 1114112"
    using sequence_point [OF ps(1,2)] by (auto simp: scalar_def)
  with 2(1) [OF ps(1,3)] ps(1) show ?case by (simp add: esc_text.simps(2) esc_point_ascii)
qed

text \<open>Characters that are written as they are.\<close>

definition verbatim :: "char \<Rightarrow> bool" where
  "verbatim c \<longleftrightarrow> in_range 32 126 c \<and> c \<noteq> CHR 0x22 \<and> c \<noteq> CHR 0x5C"

lemma esc_text_verbatim: "list_all verbatim s \<Longrightarrow> esc_text s = s"
proof (induction s)
  case (Cons c s)
  then have c: "32 \<le> (of_char c :: nat)" "(of_char c :: nat) \<le> 126" "c \<noteq> CHR 0x22" "c \<noteq> CHR 0x5C"
    by (simp_all add: verbatim_def in_range_def)
  have "of_char c \<noteq> (of_char (CHR 0x22) :: nat)" "of_char c \<noteq> (of_char (CHR 0x5C) :: nat)"
    using c(3,4) by (simp_all only: of_char_eq_iff not_False_eq_True)
  then have "of_char c \<noteq> (34 :: nat)" "of_char c \<noteq> (92 :: nat)" by simp_all
  then have "esc_point (of_char c) = [c]" using c(1,2) by (simp add: esc_point_def)
  with Cons c(2) show ?case by (simp add: esc_text.simps(2) followers_def)
qed simp

lemma digits_ascii: "list_all (in_range 32 126) (digits n)"
  using digits_all(1) [of n] by (auto simp: list_all_iff is_digit_def in_range_def)

lemma join_all: "list_all P sep \<Longrightarrow> list_all (list_all P) ws \<Longrightarrow> list_all P (join_with sep ws)"
  by (induction sep ws rule: join_with.induct) auto

lemma dumps_ascii:
  assumes sp: "list_all (in_range 32 126) sp"
  shows "json_ok j \<Longrightarrow> list_all (in_range 32 126) (dumps sp j)"
proof (induction j)
  case (JHundredths i)
  have d: "n < 10 \<Longrightarrow> in_range 32 126 (digit_char n)" for n by (simp add: digit_char_def in_range_def)
  have "list_all (in_range 32 126) (hundredths_text h)" for h
    using digits_ascii d [of "h div 10 mod 10"] d [of "h mod 10"] by (simp add: hundredths_text_def) (simp add: in_range_def)
  moreover have "in_range 32 126 (CHR ''-'')" by (simp add: in_range_def)
  ultimately show ?case by simp
next
  case (JInt i)
  have "in_range 32 126 (CHR ''-'')" by (simp add: in_range_def)
  with digits_ascii show ?case by (simp add: str_int_def)
next
  case (JStr s)
  moreover have "in_range 32 126 (CHR 0x22)" by (simp add: in_range_def)
  ultimately show ?case using esc_text_ascii by (simp add: quoted_def)
next
  case (JList xs)
  then have "list_all (list_all (in_range 32 126)) (map (dumps sp) xs)" by (simp add: list_all_iff)
  moreover have "in_range 32 126 (CHR '','')" "in_range 32 126 (CHR ''['')" "in_range 32 126 (CHR '']'')"
    by (simp_all add: in_range_def)
  ultimately show ?case using sp by (simp add: join_all)
next
  case (JObj m)
  have c: "in_range 32 126 (CHR '','')" "in_range 32 126 (CHR 0x7B)" "in_range 32 126 (CHR 0x7D)"
    "in_range 32 126 (CHR 0x22)" "in_range 32 126 (CHR '':'')"
    by (simp_all add: in_range_def)
  have "list_all (in_range 32 126) (quoted k @ CHR '':'' # sp @ dumps sp v)" if "(k, v) \<in> set m" for k v
  proof -
    have "utf8 k" "json_ok v" using that JObj(2) by (auto simp: list_all_iff)
    moreover have "list_all (in_range 32 126) (dumps sp v)" using JObj(1) [of "(k, v)" v] that calculation by simp
    ultimately show ?thesis using sp c by (simp add: quoted_def esc_text_ascii)
  qed
  then have "list_all (list_all (in_range 32 126)) (map (member_text sp) m)"
    by (subst list_all_iff) (auto simp only: set_map split: prod.splits)
  with sp c show ?case by (simp add: join_all)
qed (simp_all add: in_range_def)

lemma dumps_plain: "list_all (in_range 32 126) sp \<Longrightarrow> json_ok j \<Longrightarrow> plain_line (dumps sp j)"
  using plain_line_append [OF dumps_ascii, of sp j "[]"] by simp

end
