(* ===== verification/Wire.thy ===== *)
theory Wire
  imports Json Server
begin

text \<open>
  What the service writes as text: the lines of the audit file (\<open>emit\<close> and \<open>maintenance_tick\<close> of
  \<open>api/audit.py\<close>) and the server-sent events of the two streaming routes (\<open>api/server.py\<close>), each with a reader
  that gets the values back. The readers are specifications: that of the audit file is a parser of JSON
  lines, that of the events follows the processing model of server-sent events, for line feeds.
\<close>

section \<open>The audit file\<close>

definition opt_json :: "('a \<Rightarrow> json) \<Rightarrow> 'a option \<Rightarrow> json" where
  "opt_json f x = (case x of None \<Rightarrow> JNull | Some y \<Rightarrow> f y)"

definition record_json :: "audit_rec \<Rightarrow> json" where
  "record_json r = JObj
    [(''ts'', JInt (a_ts r)), (''kind'', JStr (a_kind r)), (''tenant'', JStr (a_tenant r)),
     (''session'', opt_json JStr (a_session r)), (''actor'', opt_json JStr (a_actor r)),
     (''payload'', a_payload r), (''result'', JStr (a_result r)), (''duration_ms'', opt_json JInt (a_duration r))]"

definition heartbeat_json :: "ms \<Rightarrow> json" where
  "heartbeat_json ts = JObj
    [(''ts'', JInt ts), (''kind'', JStr ''audit.heartbeat''), (''tenant'', JStr ''system''), (''result'', JStr ''recovered'')]"

fun line_json :: "audit_line \<Rightarrow> json" where
  "line_json (Rec r) = record_json r"
| "line_json (Heartbeat ts) = heartbeat_json ts"

definition line_text :: "audit_line \<Rightarrow> string" where
  "line_text l = dumps [] (line_json l) @ NL"

definition audit_text :: "audit_line list \<Rightarrow> string" where
  "audit_text ls = concat (map line_text ls)"

text \<open>Reading a value back by its fields.\<close>

fun field :: "string \<Rightarrow> json \<Rightarrow> json option" where
  "field k (JObj m) = map_of m k"
| "field k _ = None"

fun as_str :: "json option \<Rightarrow> string option" where
  "as_str (Some (JStr s)) = Some s"
| "as_str _ = None"

fun as_int :: "json option \<Rightarrow> int option" where
  "as_int (Some (JInt i)) = Some i"
| "as_int _ = None"

fun as_bool :: "json option \<Rightarrow> bool option" where
  "as_bool (Some (JBool b)) = Some b"
| "as_bool _ = None"

fun as_strs :: "json option \<Rightarrow> string list option" where
  "as_strs (Some (JList xs)) = those (map (\<lambda>x. as_str (Some x)) xs)"
| "as_strs _ = None"

text \<open>A line without a duration is a heartbeat.\<close>

definition line_of_json :: "json \<Rightarrow> audit_line option" where
  "line_of_json j =
     (case (as_int (field ''ts'' j), as_str (field ''kind'' j), as_str (field ''tenant'' j), as_str (field ''result'' j)) of
        (Some ts, Some kind, Some tenant, Some res) \<Rightarrow>
          if field ''duration_ms'' j = None then Some (Heartbeat ts)
          else map_option (\<lambda>p. Rec \<lparr>a_ts = ts, a_kind = kind, a_tenant = tenant,
            a_session = as_str (field ''session'' j), a_actor = as_str (field ''actor'' j), a_payload = p,
            a_result = res, a_duration = as_int (field ''duration_ms'' j)\<rparr>) (field ''payload'' j)
      | _ \<Rightarrow> None)"

definition read_line :: "string \<Rightarrow> audit_line option" where
  "read_line s = Option.bind (loads s) line_of_json"

text \<open>The strings of a record are text, and its payload is a value of JSON.\<close>

definition opt_all :: "('a \<Rightarrow> bool) \<Rightarrow> 'a option \<Rightarrow> bool" where
  "opt_all P x = (case x of None \<Rightarrow> True | Some y \<Rightarrow> P y)"

fun line_ok :: "audit_line \<Rightarrow> bool" where
  "line_ok (Rec r) = (utf8 (a_kind r) \<and> utf8 (a_tenant r) \<and> opt_all utf8 (a_session r) \<and> opt_all utf8 (a_actor r)
     \<and> json_ok (a_payload r) \<and> utf8 (a_result r))"
| "line_ok (Heartbeat ts) = True"

lemma utf8_literal: "list_all (in_range 32 126) s \<Longrightarrow> utf8 s"
  by (rule utf8_ascii) (auto simp: list_all_iff in_range_def)

lemma opt_json_ok [simp]: "json_ok (opt_json JStr x) = opt_all utf8 x" "json_ok (opt_json JInt y)"
  by (simp_all add: opt_json_def opt_all_def split: option.splits)

lemma opt_json_back [simp]: "as_str (Some (opt_json JStr x)) = x" "as_int (Some (opt_json JInt y)) = y"
  by (simp_all add: opt_json_def split: option.splits)

lemma line_json_ok: "line_ok l \<Longrightarrow> json_ok (line_json l)"
  by (cases l) (auto simp: record_json_def heartbeat_json_def in_range_def intro!: utf8_literal)

lemma line_of_json_back: "line_of_json (line_json l) = Some l"
  by (cases l) (simp_all add: line_of_json_def record_json_def heartbeat_json_def)

lemma read_line_back: "line_ok l \<Longrightarrow> read_line (dumps [] (line_json l)) = Some l"
  by (simp add: read_line_def loads_dumps line_json_ok line_of_json_back)

lemma audit_text_lines:
  "list_all line_ok ls \<Longrightarrow> splitlines (audit_text ls @ t) = map (dumps [] \<circ> line_json) ls @ splitlines t"
proof (induction ls)
  case (Cons l ls)
  then have "plain_line (dumps [] (line_json l))" by (simp add: dumps_plain line_json_ok)
  then show ?case
    using Cons splitlines_acc_line [of "dumps [] (line_json l)" "[]" "audit_text ls @ t"]
    by (simp add: audit_text_def line_text_def NL_def splitlines_def)
qed (simp add: audit_text_def)

section \<open>Server-sent events\<close>

definition sse_frame :: "string \<Rightarrow> string \<Rightarrow> string" where
  "sse_frame name d = ''event: '' @ name @ NL @ ''data: '' @ d @ NL @ NL"

text \<open>The names and payloads of \<open>run_stream\<close>; an error carries the text \<open>msg\<close> of the exception.\<close>

fun event_name :: "sse_event \<Rightarrow> string" where
  "event_name (Sse_chunk name payload) = name"
| "event_name (Sse_truncated stream) = ''truncated''"
| "event_name Sse_error = ''error''"
| "event_name (Sse_result y) = ''result''"

definition response_json :: "exec_response \<Rightarrow> json" where
  "response_json y = JObj
    ([(''stdout'', JStr (y_stdout y)), (''stderr'', JStr (y_stderr y)), (''exit_code'', JInt (y_exit_code y)),
      (''duration_ms'', JInt (y_duration_ms y)), (''effective_timeout_s'', JInt (y_effective_timeout y)),
      (''truncated'', JBool (y_truncated y)), (''truncated_streams'', JList (map JStr (y_truncated_streams y))),
      (''effective_truncation_cap_bytes'', JInt (int (y_cap y))), (''resume_latency_ms'', JInt (y_resume_ms y))] @
     (case y_error y of None \<Rightarrow> [] | Some e \<Rightarrow> [(''error'', JStr e)]))"

fun event_payload :: "string \<Rightarrow> sse_event \<Rightarrow> json" where
  "event_payload msg (Sse_chunk name payload) = JObj [(''chunk_b64'', JStr (b64encode payload))]"
| "event_payload msg (Sse_truncated stream) = JObj [(''stream'', JStr stream)]"
| "event_payload msg Sse_error = JObj [(''message'', JStr (decode_replace msg))]"
| "event_payload msg (Sse_result y) = response_json y"

definition exec_frame :: "string \<Rightarrow> sse_event \<Rightarrow> string" where
  "exec_frame msg ev = sse_frame (event_name ev) (dumps [] (event_payload msg ev))"

lemma exec_frame_eq: "exec_frame msg = (\<lambda>ev. sse_frame (event_name ev) (dumps [] (event_payload msg ev)))"
  by (simp add: exec_frame_def fun_eq_iff)

definition exec_body :: "string \<Rightarrow> sse_event list \<Rightarrow> string" where
  "exec_body msg evs = concat (map (exec_frame msg) evs)"

text \<open>
  The client's side: lines are collected until an empty one, which dispatches the event; an unfinished line or
  event at the end of the stream is dropped.
\<close>

definition terminated :: "string \<Rightarrow> string list" where
  "terminated s = butlast (split_on (CHR 0x0A) s)"

fun sse_dispatch :: "string \<Rightarrow> string list \<Rightarrow> string list \<Rightarrow> (string \<times> string) list" where
  "sse_dispatch name ds [] = []"
| "sse_dispatch name ds (l # ls) =
     (if l = [] then (if ds = [] then [] else [(name, join_with NL ds)]) @ sse_dispatch ''message'' [] ls
      else if take 7 l = ''event: '' then sse_dispatch (drop 7 l) ds ls
      else if take 6 l = ''data: '' then sse_dispatch name (ds @ [drop 6 l]) ls
      else sse_dispatch name ds ls)"

definition read_events :: "string \<Rightarrow> (string \<times> string) list" where
  "read_events s = sse_dispatch ''message'' [] (terminated s)"

definition response_of_json :: "json \<Rightarrow> exec_response option" where
  "response_of_json j =
     (case (as_str (field ''stdout'' j), as_str (field ''stderr'' j), as_int (field ''exit_code'' j),
         as_int (field ''duration_ms'' j), as_int (field ''effective_timeout_s'' j)) of
        (Some out, Some err, Some code, Some dur, Some timeout) \<Rightarrow>
          (case (as_bool (field ''truncated'' j), as_strs (field ''truncated_streams'' j),
              as_int (field ''effective_truncation_cap_bytes'' j), as_int (field ''resume_latency_ms'' j)) of
             (Some tr, Some streams, Some cap, Some resume) \<Rightarrow>
               Some \<lparr>y_stdout = out, y_stderr = err, y_exit_code = code, y_duration_ms = dur, y_effective_timeout = timeout,
                 y_truncated = tr, y_truncated_streams = streams, y_cap = nat cap, y_resume_ms = resume,
                 y_error = as_str (field ''error'' j)\<rparr>
           | _ \<Rightarrow> None)
      | _ \<Rightarrow> None)"

definition event_of :: "string \<times> string \<Rightarrow> sse_event option" where
  "event_of nd =
     (case loads (snd nd) of
        None \<Rightarrow> None
      | Some j \<Rightarrow>
          if fst nd = ''truncated'' then map_option Sse_truncated (as_str (field ''stream'' j))
          else if fst nd = ''error'' then map_option (\<lambda>_. Sse_error) (as_str (field ''message'' j))
          else if fst nd = ''result'' then map_option Sse_result (response_of_json j)
          else map_option (Sse_chunk (fst nd)) (Option.bind (as_str (field ''chunk_b64'' j)) b64decode))"

text \<open>The events a stream can carry: chunks and marks of the two output streams, and a result whose strings are text.\<close>

definition STREAMS :: "string list" where
  "STREAMS = [''stdout'', ''stderr'']"

definition response_ok :: "exec_response \<Rightarrow> bool" where
  "response_ok y \<longleftrightarrow> utf8 (y_stdout y) \<and> utf8 (y_stderr y) \<and> list_all utf8 (y_truncated_streams y) \<and> opt_all utf8 (y_error y)"

fun event_ok :: "sse_event \<Rightarrow> bool" where
  "event_ok (Sse_chunk name payload) = (name \<in> set STREAMS)"
| "event_ok (Sse_truncated stream) = (stream \<in> set STREAMS)"
| "event_ok Sse_error = True"
| "event_ok (Sse_result y) = response_ok y"

lemma utf8_decode_replace: "utf8 (decode_replace s)"
proof (induction s rule: decode_replace.induct)
  case (2 c s)
  have r: "utf8 REPLACEMENT" by code_simp
  show ?case
  proof (cases "followers c")
    case None
    with 2(1) r show ?thesis by (simp add: decode_replace.simps(2) utf8_append)
  next
    case (Some ps)
    let ?k = "match_prefix ps s"
    have tail: "utf8 (decode_replace (drop ?k s))" using 2(2) [OF Some refl] .
    have "utf8 (c # take ?k s)" if k: "?k = length ps"
    proof -
      have "match_prefix ps (take (length ps) s) = length ps"
        using k by (induction ps s rule: match_prefix.induct) (auto split: if_splits)
      with Some k show ?thesis by (simp add: utf8.simps(2))
    qed
    with r have "utf8 (if ?k = length ps then c # take ?k s else REPLACEMENT)" by simp
    from utf8_append [OF this tail] Some show ?thesis by (simp add: decode_replace.simps(2) Let_def)
  qed
qed simp

lemma b64_verbatim: "list_all verbatim (b64encode s)"
proof -
  have t: "list_all verbatim B64" by code_simp
  have c: "n < 64 \<Longrightarrow> verbatim (b64_char n)" for n
    using t by (simp add: b64_char_def list_all_length B64_def)
  have e: "verbatim (CHR ''='')" by (simp add: verbatim_def in_range_def)
  show ?thesis
  proof (induction s rule: b64encode.induct)
    case (1 a b d s)
    have "of_char a * 65536 + of_char b * 256 + of_char d < (16777216 :: nat)"
      using of_char_byte [of a] of_char_byte [of b] of_char_byte [of d] by linarith
    with 1 show ?case by (simp add: Let_def c less_mult_imp_div_less)
  next
    case (2 a b)
    have "of_char a * 65536 + of_char b * 256 < (16777216 :: nat)"
      using of_char_byte [of a] of_char_byte [of b] by linarith
    with e show ?case by (simp add: Let_def c less_mult_imp_div_less)
  next
    case (3 a)
    have "of_char a * 65536 < (16777216 :: nat)" using of_char_byte [of a] by linarith
    with e show ?case by (simp add: Let_def c less_mult_imp_div_less)
  qed simp
qed

lemma b64_utf8: "utf8 (b64encode s)"
  using b64_verbatim [of s] by (intro utf8_literal) (simp add: list_all_iff verbatim_def)

lemma payload_ok: "event_ok ev \<Longrightarrow> json_ok (event_payload msg ev)"
  by (cases ev)
    (auto simp: response_json_def response_ok_def opt_all_def STREAMS_def utf8_decode_replace utf8_literal b64_utf8 in_range_def
      list_all_iff split: option.splits)

lemma those_strs: "those (map (\<lambda>x. as_str (Some x)) (map JStr ss)) = Some ss"
  by (induction ss) simp_all

lemma response_back: "response_of_json (response_json y) = Some y"
  using those_strs [of "y_truncated_streams y"]
  by (cases "y_error y") (simp_all add: response_of_json_def response_json_def comp_def)

lemma event_back:
  assumes "event_ok ev"
  shows "event_of (event_name ev, dumps [] (event_payload msg ev)) = Some ev"
proof -
  have "loads (dumps [] (event_payload msg ev)) = Some (event_payload msg ev)"
    using payload_ok [OF assms] by (simp add: loads_dumps)
  then show ?thesis using assms
    by (cases ev) (auto simp: event_of_def STREAMS_def b64_round_trip response_back)
qed

lemma one_line: "json_ok j \<Longrightarrow> CHR 0x0A \<notin> set (dumps [] j)"
  using dumps_ascii [of "[]" j] by (auto simp: list_all_iff in_range_def)

lemma terminated_Nil [simp]: "terminated [] = []"
  by (simp add: terminated_def)

lemma terminated_line: "CHR 0x0A \<notin> set w \<Longrightarrow> terminated (w @ CHR 0x0A # s) = w # terminated s"
  by (simp add: terminated_def split_on_append_sep)

lemma terminated_take:
  assumes "CHR 0x0A \<notin> set w"
  shows "terminated (take k (w @ CHR 0x0A # s)) =
    (if k \<le> length w then [] else w # terminated (take (k - Suc (length w)) s))"
proof (cases "k \<le> length w")
  case True
  then have "CHR 0x0A \<notin> set (take k w)" using assms by (auto dest: in_set_takeD)
  with True show ?thesis by (simp add: terminated_def split_on_id)
next
  case False
  then obtain m where "k = Suc (length w) + m" using le_Suc_ex not_less_eq_eq by blast
  then show ?thesis using terminated_line [OF assms] by simp
qed

lemma torn_lines:
  assumes "CHR 0x0A \<notin> set e" "CHR 0x0A \<notin> set f" "k < length e + length f + 3"
  shows "terminated (take k (e @ CHR 0x0A # f @ CHR 0x0A # [CHR 0x0A])) \<in> {[], [e], [e, f]}"
proof -
  have "k - Suc (length e) - Suc (length f) \<le> length ([] :: string)" using assms(3) by simp
  then have "terminated (take (k - Suc (length e) - Suc (length f)) [CHR 0x0A]) = []" by simp
  then show ?thesis by (simp only: terminated_take [OF assms(1)] terminated_take [OF assms(2)]) simp
qed

lemma read_events_frame:
  assumes "CHR 0x0A \<notin> set name" "CHR 0x0A \<notin> set d"
  shows "read_events (sse_frame name d @ s) = (name, d) # read_events s"
    and "k < length (sse_frame name d) \<Longrightarrow> read_events (take k (sse_frame name d)) = []"
proof -
  have f: "sse_frame name d @ t = (''event: '' @ name) @ CHR 0x0A # (''data: '' @ d) @ CHR 0x0A # [] @ CHR 0x0A # t" for t
    by (simp add: sse_frame_def NL_def)
  have n: "CHR 0x0A \<notin> set (''event: '' @ name)" "CHR 0x0A \<notin> set (''data: '' @ d)" "CHR 0x0A \<notin> set []"
    using assms by simp_all
  have "terminated (sse_frame name d @ s) = (''event: '' @ name) # (''data: '' @ d) # [] # terminated s"
    unfolding f terminated_line [OF n(1)] terminated_line [OF n(2)] terminated_line [OF n(3)] by (rule refl)
  then show "read_events (sse_frame name d @ s) = (name, d) # read_events s" by (simp add: read_events_def)
  assume k: "k < length (sse_frame name d)"
  have g: "sse_frame name d = (''event: '' @ name) @ CHR 0x0A # (''data: '' @ d) @ CHR 0x0A # [CHR 0x0A]"
    using f [of "[]"] by simp
  have "terminated (take k (sse_frame name d)) \<in> {[], [''event: '' @ name], [''event: '' @ name, ''data: '' @ d]}"
    using k unfolding g by (intro torn_lines n) simp
  then show "read_events (take k (sse_frame name d)) = []" unfolding read_events_def by auto
qed

lemma event_name_line: "event_ok ev \<Longrightarrow> CHR 0x0A \<notin> set (event_name ev)"
  by (cases ev) (auto simp: STREAMS_def)

lemma read_events_Nil [simp]: "read_events [] = []"
  by (simp add: read_events_def)

lemma exec_body_back:
  "list_all event_ok evs \<Longrightarrow> map event_of (read_events (exec_body msg evs)) = map Some evs"
proof (induction evs)
  case (Cons ev evs)
  then have "read_events (exec_frame msg ev @ exec_body msg evs) =
      (event_name ev, dumps [] (event_payload msg ev)) # read_events (exec_body msg evs)"
    unfolding exec_frame_def by (intro read_events_frame(1)) (simp_all add: event_name_line one_line payload_ok)
  with Cons show ?case by (simp add: exec_body_def event_back)
qed (simp add: exec_body_def)

text \<open>Every event of \<open>run_stream\<close> is one of these.\<close>

lemma append_capped_marks: "append_capped buf p name tr = (buf', tr') \<Longrightarrow> set tr' \<subseteq> insert name (set tr)"
  by (auto simp: append_capped_def Let_def split: if_splits)

lemma chunk_events_ok: "name \<in> set STREAMS \<Longrightarrow> list_all event_ok (chunk_events name payload st tr)"
  by (simp add: chunk_events_def)

lemma stream_step_ok:
  assumes "stream_step e st = (outs, st')" "set (v_truncated st) \<subseteq> set STREAMS"
  shows "list_all event_ok outs \<and> set (v_truncated st') \<subseteq> set STREAMS"
proof -
  have n: "''stdout'' \<in> set STREAMS" "''stderr'' \<in> set STREAMS" by (simp_all add: STREAMS_def)
  from assms show ?thesis
    by (cases e) (auto split: prod.splits simp: chunk_events_ok n dest!: append_capped_marks)
qed

lemma stream_loop_ok:
  "stream_loop es st = (outs, st') \<Longrightarrow> set (v_truncated st) \<subseteq> set STREAMS \<Longrightarrow>
    list_all event_ok outs \<and> set (v_truncated st') \<subseteq> set STREAMS"
  by (induction es arbitrary: st outs) (auto split: prod.splits dest!: stream_step_ok)

lemma stream_result_ok: "event_ok (Sse_result (stream_result st d t ms))"
  by (auto simp: response_ok_def stream_result_def Let_def utf8_decode_replace sort_streams_def opt_all_def in_range_def
      intro!: utf8_literal)

lemma run_stream_ok:
  assumes "run_stream E sid tenant req n w = (Inr evs, w')"
  shows "list_all event_ok evs"
proof -
  have ok: "list_all event_ok (fst (stream_loop es stream_start))" for es
    using stream_loop_ok [of es stream_start] by (cases "stream_loop es stream_start") (simp add: stream_start_def)
  have t: "list_all event_ok (take n outs)" if "list_all event_ok outs" for outs
    using that by (auto simp: list_all_iff dest: in_set_takeD)
  show ?thesis
  proof (cases "n = 0")
    case False
    with assms obtain s es ms row tail w4 where fin: "(let (outs, st) = stream_loop (es @ tail) stream_start in
       if n \<le> length outs then ret (take n outs)
       else bindM (monotonic_ns E) (\<lambda>end_ns.
         let duration = (end_ns - s) div 1000000 in
         thenM (emit E (stream_audit sid tenant req (effective_timeout req row) (v_exit st) duration))
           (ret (outs @ [Sse_result (stream_result st duration (effective_timeout req row) ms)])))) w4
       = (Inr evs, w')"
      unfolding run_stream_def
      by (auto elim!: thenM_InrE bindM_InrE simp: Let_def split: if_splits prod.splits)
    obtain outs st where l: "stream_loop (es @ tail) stream_start = (outs, st)" by fastforce
    with ok [of "es @ tail"] have o: "list_all event_ok outs" by simp
    show ?thesis
    proof (cases "n \<le> length outs")
      case True
      with fin l t [OF o] show ?thesis by auto
    next
      case False
      with fin l o stream_result_ok show ?thesis
        by (auto elim!: thenM_InrE bindM_InrE simp: Let_def simp del: event_ok.simps)
    qed
  qed (use assms in \<open>simp add: run_stream_def\<close>)
qed

text \<open>The frames of the log route are the same, with the default separators.\<close>

lemma log_frame_eq: "log_frame chunk = sse_frame ''log'' (dumps '' '' (JObj [(''chunk_b64'', JStr (b64encode chunk))]))"
proof -
  have "list_all verbatim ''chunk_b64''" by code_simp
  then show ?thesis
    by (simp add: log_frame_def sse_frame_def quoted_def QUOTE_def esc_text_verbatim b64_verbatim)
qed

lemma read_frames:
  assumes "\<And>x. x \<in> set xs \<Longrightarrow> CHR 0x0A \<notin> set (n x) \<and> CHR 0x0A \<notin> set (d x)"
  shows "\<exists>m. read_events (take k (concat (map (\<lambda>x. sse_frame (n x) (d x)) xs))) = map (\<lambda>x. (n x, d x)) (take m xs) \<and>
    (length (concat (map (\<lambda>x. sse_frame (n x) (d x)) xs)) \<le> k \<longrightarrow> m = length xs)"
  using assms
proof (induction xs arbitrary: k)
  case Nil
  show ?case by simp
next
  case (Cons x xs)
  let ?f = "sse_frame (n x) (d x)" and ?g = "concat (map (\<lambda>x. sse_frame (n x) (d x)) xs)"
  have l: "CHR 0x0A \<notin> set (n x)" "CHR 0x0A \<notin> set (d x)" using Cons(2) by auto
  show ?case
  proof (cases "k < length ?f")
    case True
    then have "read_events (take k (?f @ ?g)) = []" using read_events_frame(2) [OF l True] by simp
    with True show ?thesis by (intro exI [of _ 0]) simp
  next
    case False
    then obtain j where j: "k = length ?f + j" using le_Suc_ex not_less by blast
    obtain m where m: "read_events (take j ?g) = map (\<lambda>x. (n x, d x)) (take m xs)" "length ?g \<le> j \<longrightarrow> m = length xs"
      using Cons(1) [of j] Cons(2) by auto
    have "read_events (take k (?f @ ?g)) = map (\<lambda>x. (n x, d x)) (take (Suc m) (x # xs))"
      by (simp add: j read_events_frame(1) [OF l] m(1))
    with m(2) j show ?thesis by (intro exI [of _ "Suc m"]) simp
  qed
qed

definition chunk_of :: "string \<times> string \<Rightarrow> string option" where
  "chunk_of nd =
     (if fst nd = ''log'' then Option.bind (Option.bind (loads (snd nd)) (\<lambda>j. as_str (field ''chunk_b64'' j))) b64decode
      else None)"

section \<open>Properties\<close>

text \<open>
  C13: the audit file is a list of JSON lines. Whatever strings and payloads its records hold, line breaks and
  characters of other scripts included, cutting it at line breaks gives one line per record, each line parses
  back to its record, and whatever comes after them, a record that was torn off for example, spoils none of them.
\<close>

theorem audit_file_reads_back:
  assumes "list_all line_ok ls"
  shows "map read_line (splitlines (audit_text ls @ t)) = map Some ls @ map read_line (splitlines t)"
  using assms by (simp add: audit_text_lines) (simp add: list_all_iff read_line_back)

definition odd_record :: audit_rec where
  "odd_record = \<lparr>a_ts = 7, a_kind = ''session.exec'', a_tenant = ''t1'', a_session = Some ''s1'', a_actor = None,
     a_payload = JObj [(''argv'', JList [JStr [CHR 0xC3, CHR 0xA9, CHR 0x0A, CHR 0x22]])], a_result = ''ok'', a_duration = Some (- 3)\<rparr>"

lemma audit_file_reads_back_witness:
  "map read_line (splitlines (audit_text [Rec odd_record, Heartbeat 9] @ ''{'')) = [Some (Rec odd_record), Some (Heartbeat 9), None]"
proof -
  have ok: "list_all line_ok [Rec odd_record, Heartbeat 9]" by code_simp
  have "map read_line (splitlines ''{'') = [None]" by code_simp
  with audit_file_reads_back [OF ok, of "''{''"] show ?thesis by simp
qed

text \<open>
  C14: the bytes of an event stream determine its events. A client that gets the first \<open>k\<close> bytes of what the
  exec stream writes reads a prefix of the events that \<open>run_stream\<close> produced, never a different one, and all of
  them if it gets all bytes: chunks decode to the bytes of the process, and the final result to the result.
\<close>

theorem stream_reaches_client:
  assumes "run_stream E sid tenant req n w = (Inr evs, w')"
  shows "\<exists>m. map event_of (read_events (take k (exec_body msg evs))) = map Some (take m evs) \<and>
    (if k < length (exec_body msg evs) then True else m = length evs)"
proof -
  have ok: "event_ok ev" if "ev \<in> set evs" for ev using run_stream_ok [OF assms] that by (simp add: list_all_iff)
  obtain m where m: "read_events (take k (exec_body msg evs)) = map (\<lambda>ev. (event_name ev, dumps [] (event_payload msg ev))) (take m evs)"
    "length (exec_body msg evs) \<le> k \<longrightarrow> m = length evs"
    using read_frames [of evs event_name "\<lambda>ev. dumps [] (event_payload msg ev)" k] ok
    unfolding exec_body_def exec_frame_eq by (meson event_name_line one_line payload_ok)
  have "map event_of (read_events (take k (exec_body msg evs))) = map Some (take m evs)"
    unfolding m(1) using ok by (auto simp: event_back dest: in_set_takeD)
  with m(2) show ?thesis by auto
qed

lemma stream_reaches_client_witness:
  "\<exists>w'. run_stream (testbed default_settings) ''s1'' ''t1'' demo_exec 1 demo_world = (Inr [Sse_chunk ''stdout'' ''hi''], w') \<and>
    map event_of (read_events (exec_body [] [Sse_chunk ''stdout'' ''hi''])) = [Some (Sse_chunk ''stdout'' ''hi'')]"
proof -
  obtain w' where run: "run_stream (testbed default_settings) ''s1'' ''t1'' demo_exec 1 demo_world = (Inr [Sse_chunk ''stdout'' ''hi''], w')"
    using stream_record_needs_result_witness by blast
  let ?b = "exec_body [] [Sse_chunk ''stdout'' ''hi'']"
  from stream_reaches_client [OF run, of "length ?b" "[]"] run show ?thesis by auto
qed

text \<open>The same for the log of a process: a client reads the chunks that the daemon delivered.\<close>

theorem log_stream_reads_back:
  assumes "s_container ses = Some cid" "stream_log_lines E cid (p_log p) (w_out w) = (Inr (chunks, err), x)"
  shows "\<exists>frames w'. log_events E ses p w = (Inr frames, w') \<and> map chunk_of (read_events (concat frames)) = map Some chunks"
proof -
  let ?j = "\<lambda>c. JObj [(''chunk_b64'', JStr (b64encode c))]"
  have lit: "utf8 ''chunk_b64''" by code_simp
  have ok: "json_ok (?j c)" for c by (simp add: b64_utf8 lit)
  have sp: "list_all (in_range 32 126) '' ''" "list_all json_ws '' ''" by code_simp+
  have nl: "CHR 0x0A \<notin> set ''log''" by simp
  have nd: "CHR 0x0A \<notin> set (dumps '' '' (?j c))" for c
  proof -
    have "\<not> in_range 32 126 (CHR 0x0A)" by (simp add: in_range_def)
    then show ?thesis using dumps_ascii [OF sp(1) ok, of c] unfolding list_all_iff by blast
  qed
  have "log_events E ses p w = (Inr (map log_frame chunks), w\<lparr>w_out := x\<rparr>)"
    using assms by (simp add: log_events_def bindM_def outM_def)
  moreover have "read_events (concat (map log_frame chunks)) = map (\<lambda>c. (''log'', dumps '' '' (?j c))) chunks"
    unfolding log_frame_eq by (induction chunks) (use nl nd in \<open>simp_all add: read_events_frame(1) del: dumps.simps\<close>)
  moreover have "chunk_of (''log'', dumps '' '' (?j c)) = Some c" for c
    using loads_dumps [OF sp(2) ok, of c] by (simp add: chunk_of_def b64_round_trip del: dumps.simps)
  ultimately show ?thesis by (simp del: dumps.simps)
qed

end
