(* ===== verification/Schema.thy ===== *)
theory Schema
  imports Prelude
begin

text \<open>
  The registry's schema and its migration (\<open>SCHEMA\<close>, \<open>_PENDING_MIGRATIONS\<close> and
  \<open>_apply_pending_migrations\<close> of \<open>api/registry.py\<close>). A database is modelled by the column names
  of each table; \<open>CREATE TABLE IF NOT EXISTS\<close> leaves an existing table alone.
\<close>

type_synonym db_schema = "string \<rightharpoonup> string list"

definition SCHEMA :: "(string \<times> string list) list" where
  "SCHEMA =
    [(''sessions'', [''id'', ''tenant_id'', ''status'', ''container_id'', ''volume_name'',
       ''limits_json'', ''created_at'', ''last_activity_at'', ''destroyed_at'']),
     (''tenants'', [''id'', ''display_name'', ''created_at'', ''max_concurrency'',
       ''max_workspace_gib'', ''max_exec_timeout_s'', ''egress_allowlist_json'']),
     (''tokens'', [''id'', ''tenant_id'', ''hash'', ''issued_at'', ''revoked_at'',
       ''scopes_json'', ''note'']),
     (''idempotency_keys'', [''tenant_id'', ''key'', ''route_template'', ''status_code'',
       ''body_json'', ''content_type'', ''created_at'', ''expires_at'']),
     (''processes'', [''id'', ''session_id'', ''tenant_id'', ''name'', ''argv_json'', ''cwd'',
       ''restart_policy'', ''ospid'', ''log_path'', ''exit_path'', ''state'', ''exit_code'',
       ''started_at'', ''exited_at'', ''last_output_at'', ''last_polled_at''])]"

definition PENDING_MIGRATIONS :: "(string \<times> string) list" where
  "PENDING_MIGRATIONS =
    [(''tenants'', ''max_concurrency''), (''tenants'', ''max_workspace_gib''),
     (''tenants'', ''max_exec_timeout_s''), (''tenants'', ''egress_allowlist_json''),
     (''tokens'', ''scopes_json''), (''tokens'', ''note'')]"

definition create_if_absent :: "string \<times> string list \<Rightarrow> db_schema \<Rightarrow> db_schema" where
  "create_if_absent tc db = (case db (fst tc) of None \<Rightarrow> db(fst tc \<mapsto> snd tc) | Some _ \<Rightarrow> db)"

text \<open>\<open>PRAGMA table_info\<close> lists no column for a missing table.\<close>

definition add_column :: "string \<times> string \<Rightarrow> db_schema \<Rightarrow> db_schema" where
  "add_column m db =
     (case db (fst m) of
        None \<Rightarrow> db
      | Some cols \<Rightarrow> (if snd m \<in> set cols then db else db(fst m \<mapsto> cols @ [snd m])))"

definition apply_pending_migrations :: "db_schema \<Rightarrow> db_schema" where
  "apply_pending_migrations db = fold add_column PENDING_MIGRATIONS db"

definition init_schema :: "db_schema \<Rightarrow> db_schema" where
  "init_schema db = apply_pending_migrations (fold create_if_absent SCHEMA db)"

definition has_column :: "db_schema \<Rightarrow> string \<Rightarrow> string \<Rightarrow> bool" where
  "has_column db t c \<longleftrightarrow> (\<exists>cols. db t = Some cols \<and> c \<in> set cols)"

text \<open>A later database extends an earlier one: no table or column is lost or moved.\<close>

definition extends_schema :: "db_schema \<Rightarrow> db_schema \<Rightarrow> bool" where
  "extends_schema db db' \<longleftrightarrow> (\<forall>t cols. db t = Some cols \<longrightarrow> (\<exists>more. db' t = Some (cols @ more)))"

lemma extends_refl [simp]: "extends_schema db db"
  by (auto simp: extends_schema_def)

lemma extends_trans: "extends_schema a b \<Longrightarrow> extends_schema b c \<Longrightarrow> extends_schema a c"
  unfolding extends_schema_def by (metis append.assoc)

lemma extends_has_column: "extends_schema a b \<Longrightarrow> has_column a t c \<Longrightarrow> has_column b t c"
  unfolding extends_schema_def has_column_def by fastforce

lemma add_column_extends: "extends_schema db (add_column m db)"
  by (auto simp: add_column_def extends_schema_def split: option.splits)

lemma create_extends: "extends_schema db (create_if_absent tc db)"
  by (auto simp: create_if_absent_def extends_schema_def split: option.splits)

lemma fold_extends:
  "(\<And>x d. extends_schema d (f x d)) \<Longrightarrow> extends_schema db (fold f xs db)"
  by (induction xs arbitrary: db) (auto intro: extends_trans)

lemma add_column_has: "db (fst m) \<noteq> None \<Longrightarrow> has_column (add_column m db) (fst m) (snd m)"
  by (auto simp: add_column_def has_column_def split: option.splits)

lemma add_column_idle: "has_column db (fst m) (snd m) \<Longrightarrow> add_column m db = db"
  by (auto simp: add_column_def has_column_def)

lemma fold_add_column_has:
  "m \<in> set ms \<Longrightarrow> db (fst m) \<noteq> None \<Longrightarrow> has_column (fold add_column ms db) (fst m) (snd m)"
proof (induction ms arbitrary: db)
  case Nil
  then show ?case by simp
next
  case (Cons x ms)
  have "add_column x db (fst m) \<noteq> None"
    using Cons.prems(2) by (auto simp: add_column_def split: option.splits)
  moreover have "extends_schema (add_column x db) (fold add_column ms (add_column x db))"
    by (rule fold_extends) (rule add_column_extends)
  ultimately show ?case
    using Cons add_column_has [of db m] by (auto intro: extends_has_column)
qed

lemma fold_add_column_idle:
  "(\<And>m. m \<in> set ms \<Longrightarrow> has_column db (fst m) (snd m)) \<Longrightarrow> fold add_column ms db = db"
  by (induction ms) (auto simp: add_column_idle)

lemma extends_present: "extends_schema a b \<Longrightarrow> a t \<noteq> None \<Longrightarrow> b t \<noteq> None"
  by (auto simp: extends_schema_def)

lemma fold_create_present:
  "t \<in> fst ` set tcs \<Longrightarrow> fold create_if_absent tcs db t \<noteq> None"
proof (induction tcs arbitrary: db)
  case (Cons x tcs)
  show ?case
  proof (cases "t = fst x")
    case True
    have "extends_schema (create_if_absent x db) (fold create_if_absent tcs (create_if_absent x db))"
      by (rule fold_extends) (rule create_extends)
    moreover have "create_if_absent x db t \<noteq> None"
      unfolding True by (auto simp: create_if_absent_def split: option.splits)
    ultimately show ?thesis by (simp add: extends_present del: not_None_eq)
  next
    case False
    with Cons.prems have "t \<in> fst ` set tcs" by auto
    then show ?thesis using Cons.IH [of "create_if_absent x db"] by simp
  qed
qed simp

lemma create_idle: "db (fst x) \<noteq> None \<Longrightarrow> create_if_absent x db = db"
  by (auto simp: create_if_absent_def)

lemma fold_create_idle:
  "(\<And>t. t \<in> fst ` set tcs \<Longrightarrow> db t \<noteq> None) \<Longrightarrow> fold create_if_absent tcs db = db"
  by (induction tcs) (simp_all add: create_idle del: not_None_eq)

lemma init_schema_extends: "extends_schema db (init_schema db)"
  unfolding init_schema_def apply_pending_migrations_def
  by (intro extends_trans [OF fold_extends fold_extends] create_extends add_column_extends)

lemma migration_tables: "m \<in> set PENDING_MIGRATIONS \<Longrightarrow> fst m \<in> fst ` set SCHEMA"
  by (auto simp: PENDING_MIGRATIONS_def SCHEMA_def)

lemma init_schema_has:
  "m \<in> set PENDING_MIGRATIONS \<Longrightarrow> has_column (init_schema db) (fst m) (snd m)"
  unfolding init_schema_def apply_pending_migrations_def
  by (intro fold_add_column_has fold_create_present migration_tables)

lemma init_schema_twice: "init_schema (init_schema db) = init_schema db"
proof -
  have "init_schema db t \<noteq> None" if "t \<in> fst ` set SCHEMA" for t
  proof -
    have "extends_schema (fold create_if_absent SCHEMA db) (init_schema db)"
      unfolding init_schema_def apply_pending_migrations_def
      by (rule fold_extends) (rule add_column_extends)
    then show ?thesis by (rule extends_present) (rule fold_create_present [OF that])
  qed
  then have "fold create_if_absent SCHEMA (init_schema db) = init_schema db"
    by (rule fold_create_idle)
  then show ?thesis
    by (simp add: init_schema_def [of "init_schema db"] apply_pending_migrations_def
        fold_add_column_idle init_schema_has)
qed

text \<open>
  Opening a database of any earlier version gives every table of the schema and every
  column a migration adds, loses no table and no column and keeps their order, and opening it
  again changes nothing.
\<close>

theorem migration_safe:
  "extends_schema db (init_schema db) \<and>
   list_all (\<lambda>m. has_column (init_schema db) (fst m) (snd m)) PENDING_MIGRATIONS \<and>
   init_schema (init_schema db) = init_schema db"
  by (simp add: init_schema_extends init_schema_has init_schema_twice list_all_iff)

end
