(* ===== verification/SqlRows.thy ===== *)
theory SqlRows
  imports Wire Schema RegTenants RegProcesses "HOL-Library.Monad_Syntax"
begin

text \<open>
  The registry one level down (\<open>api/registry.py\<close>): rows of cells with column names, the SQL statements of the
  methods as operations on lists of rows, and the \<open>_row_to_\<close> functions that read a row back, with the JSON in
  its text columns. The theories \<open>RegSessions\<close>, \<open>RegTenants\<close> and \<open>RegProcesses\<close> have typed records instead; shown
  is that the statements do to the stored rows what those definitions do to the records.
\<close>

section \<open>Rows and statements\<close>

datatype cell = C_null | C_int int | C_text string

type_synonym row = "(string \<times> cell) list"

definition text_or_null :: "string option \<Rightarrow> cell" where
  "text_or_null x = (case x of None \<Rightarrow> C_null | Some s \<Rightarrow> C_text s)"

definition int_or_null :: "int option \<Rightarrow> cell" where
  "int_or_null x = (case x of None \<Rightarrow> C_null | Some i \<Rightarrow> C_int i)"

text \<open>
  \<open>INSERT INTO t (columns) VALUES ...\<close>: a column of the table that the statement does not name is \<open>NULL\<close>.
  \<open>UPDATE t SET ... WHERE\<close>, and the conditions.
\<close>

definition columns :: "string \<Rightarrow> string list" where
  "columns tbl = (case map_of SCHEMA tbl of None \<Rightarrow> [] | Some cs \<Rightarrow> cs)"

definition new_row :: "string \<Rightarrow> row \<Rightarrow> row" where
  "new_row tbl vals = map (\<lambda>c. (c, case map_of vals c of None \<Rightarrow> C_null | Some v \<Rightarrow> v)) (columns tbl)"

definition col_is :: "string \<Rightarrow> cell \<Rightarrow> row \<Rightarrow> bool" where
  "col_is c v r \<longleftrightarrow> v \<noteq> C_null \<and> map_of r c = Some v"

definition col_in :: "string \<Rightarrow> cell list \<Rightarrow> row \<Rightarrow> bool" where
  "col_in c vs r \<longleftrightarrow> list_ex (\<lambda>v. col_is c v r) vs"

definition set_cells :: "row \<Rightarrow> row \<Rightarrow> row" where
  "set_cells new r = map (\<lambda>(c, v). (c, case map_of new c of None \<Rightarrow> v | Some v' \<Rightarrow> v')) r"

definition sql_update :: "(row \<Rightarrow> bool) \<Rightarrow> (row \<Rightarrow> row) \<Rightarrow> row list \<Rightarrow> row list" where
  "sql_update P new rows = map (\<lambda>r. if P r then set_cells (new r) r else r) rows"

definition fetchone :: "(row \<Rightarrow> bool) \<Rightarrow> row list \<Rightarrow> row option" where
  "fetchone P rows = (case filter P rows of [] \<Rightarrow> None | r # _ \<Rightarrow> Some r)"

section \<open>Reading a row\<close>

text \<open>
  \<open>row[c]\<close>, with \<open>int\<close> around it or not. \<open>None\<close> is an exception (no such column, text that is no JSON) or a
  value of another type than the column stores.
\<close>

fun cell_text :: "cell \<Rightarrow> string option" where
  "cell_text (C_text s) = Some s"
| "cell_text _ = None"

fun cell_int :: "cell \<Rightarrow> int option" where
  "cell_int (C_int i) = Some i"
| "cell_int _ = None"

definition nullable :: "(cell \<Rightarrow> 'a option) \<Rightarrow> cell \<Rightarrow> 'a option option" where
  "nullable f c = (if c = C_null then Some None else map_option Some (f c))"

definition col :: "row \<Rightarrow> string \<Rightarrow> (cell \<Rightarrow> 'a option) \<Rightarrow> 'a option" where
  "col r c f = Option.bind (map_of r c) f"

text \<open>\<open>row[c] if c in row.keys() else None\<close>: a column that later versions added.\<close>

definition late_col :: "row \<Rightarrow> string \<Rightarrow> (cell \<Rightarrow> 'a option) \<Rightarrow> 'a option option" where
  "late_col r c f = (case map_of r c of None \<Rightarrow> Some None | Some v \<Rightarrow> nullable f v)"

definition strings_of :: "string \<Rightarrow> string list option" where
  "strings_of s = Option.bind (loads s) (\<lambda>j. as_strs (Some j))"

text \<open>\<open>json.loads(x) if x else None\<close>.\<close>

definition late_strings :: "row \<Rightarrow> string \<Rightarrow> string list option option" where
  "late_strings r c =
     (case late_col r c cell_text of
        None \<Rightarrow> None
      | Some x \<Rightarrow> (case x of None \<Rightarrow> Some None | Some s \<Rightarrow> if s = [] then Some None else map_option Some (strings_of s)))"

definition ALL_STATUSES :: "status list" where
  "ALL_STATUSES = [CREATING, RUNNING, IDLE, STOPPED, DESTROYING, DESTROYED]"

fun status_text :: "status \<Rightarrow> string" where
  "status_text CREATING = ''CREATING''"
| "status_text RUNNING = ''RUNNING''"
| "status_text IDLE = ''IDLE''"
| "status_text STOPPED = ''STOPPED''"
| "status_text DESTROYING = ''DESTROYING''"
| "status_text DESTROYED = ''DESTROYED''"

definition status_of :: "string \<Rightarrow> status option" where
  "status_of s = List.find (\<lambda>st. status_text st = s) ALL_STATUSES"

fun pstate_text :: "pstate \<Rightarrow> string" where
  "pstate_text P_RUNNING = ''RUNNING''"
| "pstate_text P_EXITED = ''EXITED''"

definition pstate_of :: "string \<Rightarrow> pstate option" where
  "pstate_of s = List.find (\<lambda>st. pstate_text st = s) [P_RUNNING, P_EXITED]"

definition scope_of :: "string \<Rightarrow> scope option" where
  "scope_of s = List.find (\<lambda>sc. scope_name sc = s) ALL_SCOPES"

text \<open>\<open>Limits(**d)\<close>: a missing field takes its default, a value below the minimum is refused.\<close>

definition int_field :: "int \<Rightarrow> string \<Rightarrow> json \<Rightarrow> int option" where
  "int_field d k j = (case field k j of None \<Rightarrow> Some d | Some v \<Rightarrow> as_int (Some v))"

definition limits_of_json :: "json \<Rightarrow> limits option" where
  "limits_of_json j = do {
     (case j of JObj m \<Rightarrow> Some () | _ \<Rightarrow> None);
     a \<leftarrow> int_field 2 ''vcpu'' j;
     b \<leftarrow> int_field 2048 ''memory_mib'' j;
     c \<leftarrow> int_field 1024 ''workspace_mib'' j;
     d \<leftarrow> int_field 256 ''pids'' j;
     e \<leftarrow> int_field 1024 ''nofile'' j;
     f \<leftarrow> int_field 60 ''exec_timeout_s'' j;
     g \<leftarrow> int_field 8 ''max_processes'' j;
     let l = \<lparr>vcpu = a, memory_mib = b, workspace_mib = c, pids = d, nofile = e, exec_timeout_s = f, max_processes = g\<rparr>;
     if limits_ok l then Some l else None
   }"

definition row_to_session :: "row \<Rightarrow> session option" where
  "row_to_session r = do {
     sid \<leftarrow> col r ''id'' cell_text;
     tenant \<leftarrow> col r ''tenant_id'' cell_text;
     st \<leftarrow> Option.bind (col r ''status'' cell_text) status_of;
     cid \<leftarrow> col r ''container_id'' (nullable cell_text);
     vol \<leftarrow> col r ''volume_name'' cell_text;
     l \<leftarrow> Option.bind (Option.bind (col r ''limits_json'' cell_text) loads) limits_of_json;
     created \<leftarrow> col r ''created_at'' cell_int;
     last_at \<leftarrow> col r ''last_activity_at'' cell_int;
     destroyed \<leftarrow> col r ''destroyed_at'' (nullable cell_int);
     Some \<lparr>s_id = sid, s_tenant = tenant, s_status = st, s_container = cid, s_volume = vol, s_limits = l,
       s_created = created, s_last = last_at, s_destroyed = destroyed\<rparr>
   }"

definition row_to_process :: "row \<Rightarrow> process option" where
  "row_to_process r = do {
     pid \<leftarrow> col r ''id'' cell_text;
     sid \<leftarrow> col r ''session_id'' cell_text;
     tenant \<leftarrow> col r ''tenant_id'' cell_text;
     name \<leftarrow> col r ''name'' (nullable cell_text);
     argv \<leftarrow> Option.bind (col r ''argv_json'' cell_text) strings_of;
     cwd \<leftarrow> col r ''cwd'' (nullable cell_text);
     restart \<leftarrow> col r ''restart_policy'' cell_text;
     ospid \<leftarrow> col r ''ospid'' (nullable cell_int);
     log_path \<leftarrow> col r ''log_path'' cell_text;
     exit_path \<leftarrow> col r ''exit_path'' cell_text;
     st \<leftarrow> Option.bind (col r ''state'' cell_text) pstate_of;
     code \<leftarrow> col r ''exit_code'' (nullable cell_int);
     started \<leftarrow> col r ''started_at'' cell_int;
     exited \<leftarrow> col r ''exited_at'' (nullable cell_int);
     output \<leftarrow> col r ''last_output_at'' (nullable cell_int);
     polled \<leftarrow> col r ''last_polled_at'' (nullable cell_int);
     Some \<lparr>p_id = pid, p_session = sid, p_tenant = tenant, p_name = name, p_argv = argv, p_cwd = cwd, p_restart = restart,
       p_ospid = ospid, p_log = log_path, p_exit = exit_path, p_state = st, p_exit_code = code, p_started = started,
       p_exited = exited, p_last_output = output, p_last_polled = polled\<rparr>
   }"

definition row_to_tenant_dict :: "row \<Rightarrow> tenant option" where
  "row_to_tenant_dict r = do {
     tid \<leftarrow> col r ''id'' cell_text;
     name \<leftarrow> col r ''display_name'' cell_text;
     created \<leftarrow> col r ''created_at'' cell_int;
     conc \<leftarrow> late_col r ''max_concurrency'' cell_int;
     ws \<leftarrow> late_col r ''max_workspace_gib'' cell_int;
     ex \<leftarrow> late_col r ''max_exec_timeout_s'' cell_int;
     egress \<leftarrow> late_strings r ''egress_allowlist_json'';
     Some \<lparr>t_id = tid, t_name = name, t_created = created, t_max_concurrency = conc, t_max_workspace_gib = ws,
       t_max_exec_timeout_s = ex, t_egress = egress\<rparr>
   }"

text \<open>The token's hash is not part of what \<open>_row_to_token_info\<close> returns.\<close>

record token_info =
  n_id :: string
  n_tenant :: string
  n_issued :: ms
  n_revoked :: "ms option"
  n_scopes :: "string list option"
  n_note :: "string option"

definition row_to_token_info :: "row \<Rightarrow> token_info option" where
  "row_to_token_info r = do {
     kid \<leftarrow> col r ''id'' cell_text;
     tenant \<leftarrow> col r ''tenant_id'' cell_text;
     issued \<leftarrow> col r ''issued_at'' cell_int;
     revoked \<leftarrow> col r ''revoked_at'' (nullable cell_int);
     scopes \<leftarrow> late_strings r ''scopes_json'';
     note \<leftarrow> late_col r ''note'' cell_text;
     Some \<lparr>n_id = kid, n_tenant = tenant, n_issued = issued, n_revoked = revoked, n_scopes = scopes, n_note = note\<rparr>
   }"

section \<open>The statements of the registry\<close>

definition CREATING_CELL :: cell where
  "CREATING_CELL = C_text ''CREATING''"

definition GONE :: "cell list" where
  "GONE = [C_text ''DESTROYING'', C_text ''DESTROYED'']"

text \<open>Sessions. \<open>dump\<close> is pydantic's \<open>model_dump_json\<close>.\<close>

definition sql_insert_session ::
  "(limits \<Rightarrow> string) \<Rightarrow> ms \<Rightarrow> string \<Rightarrow> string \<Rightarrow> string \<Rightarrow> limits \<Rightarrow> row list \<Rightarrow> exn + row list" where
  "sql_insert_session dump ts sid tenant vol l rows =
     (if list_ex (col_is ''id'' (C_text sid)) rows then Inl IntegrityError
      else Inr (rows @ [new_row ''sessions''
        [(''id'', C_text sid), (''tenant_id'', C_text tenant), (''status'', CREATING_CELL), (''container_id'', C_null),
         (''volume_name'', C_text vol), (''limits_json'', C_text (dump l)), (''created_at'', C_int ts),
         (''last_activity_at'', C_int ts)]]))"

definition sql_get_session :: "string \<Rightarrow> string \<Rightarrow> row list \<Rightarrow> session option option" where
  "sql_get_session sid tenant rows =
     (case fetchone (\<lambda>r. col_is ''id'' (C_text sid) r \<and> col_is ''tenant_id'' (C_text tenant) r) rows of
        None \<Rightarrow> Some None
      | Some r \<Rightarrow> map_option (\<lambda>s. if s_status s = DESTROYED then None else Some s) (row_to_session r))"

definition sql_count_concurrent :: "string \<Rightarrow> row list \<Rightarrow> int" where
  "sql_count_concurrent tenant rows =
     int (length (filter (\<lambda>r. col_is ''tenant_id'' (C_text tenant) r \<and> \<not> col_in ''status'' GONE r) rows))"

definition sql_set_container :: "string \<Rightarrow> string \<Rightarrow> row list \<Rightarrow> row list" where
  "sql_set_container sid cid rows = sql_update (col_is ''id'' (C_text sid)) (\<lambda>_. [(''container_id'', C_text cid)]) rows"

definition sql_transition :: "ms \<Rightarrow> string \<Rightarrow> status \<Rightarrow> row list \<Rightarrow> exn + row list" where
  "sql_transition ts sid new rows =
     (case fetchone (col_is ''id'' (C_text sid)) rows of
        None \<Rightarrow> Inl KeyError
      | Some r \<Rightarrow>
          (case Option.bind (col r ''status'' cell_text) status_of of
             None \<Rightarrow> Inl ValueError
           | Some current \<Rightarrow>
               if new \<notin> set (transitions current) then Inl ValueError
               else if new = DESTROYED then
                 Inr (sql_update (col_is ''id'' (C_text sid)) (\<lambda>_. [(''status'', C_text (status_text new)),
                   (''destroyed_at'', C_int ts), (''last_activity_at'', C_int ts)]) rows)
               else
                 Inr (sql_update (col_is ''id'' (C_text sid)) (\<lambda>_. [(''status'', C_text (status_text new)),
                   (''last_activity_at'', C_int ts)]) rows)))"

definition sql_touch_activity :: "ms \<Rightarrow> string \<Rightarrow> row list \<Rightarrow> row list" where
  "sql_touch_activity ts sid rows =
     sql_update (\<lambda>r. col_is ''id'' (C_text sid) r \<and> col_in ''status'' [C_text ''RUNNING'', C_text ''IDLE''] r)
       (\<lambda>_. [(''last_activity_at'', C_int ts)]) rows"

definition sql_transition_orphaned :: "ms \<Rightarrow> string \<Rightarrow> row list \<Rightarrow> row list" where
  "sql_transition_orphaned ts sid rows =
     sql_update (\<lambda>r. col_is ''id'' (C_text sid) r \<and> \<not> col_in ''status'' (GONE @ [C_text ''STOPPED'']) r)
       (\<lambda>_. [(''status'', C_text ''STOPPED''), (''last_activity_at'', C_int ts)]) rows"

text \<open>Processes.\<close>

definition sql_insert_process :: "process \<Rightarrow> row list \<Rightarrow> exn + row list" where
  "sql_insert_process p rows =
     (if list_ex (col_is ''id'' (C_text (p_id p))) rows then Inl IntegrityError
      else Inr (rows @ [new_row ''processes''
        [(''id'', C_text (p_id p)), (''session_id'', C_text (p_session p)), (''tenant_id'', C_text (p_tenant p)),
         (''name'', text_or_null (p_name p)), (''argv_json'', C_text (dumps '' '' (JList (map JStr (p_argv p))))),
         (''cwd'', text_or_null (p_cwd p)), (''restart_policy'', C_text (p_restart p)), (''ospid'', int_or_null (p_ospid p)),
         (''log_path'', C_text (p_log p)), (''exit_path'', C_text (p_exit p)), (''state'', C_text ''RUNNING''),
         (''started_at'', C_int (p_started p)), (''last_polled_at'', C_int (p_started p))]]))"

definition sql_get_process :: "string \<Rightarrow> string \<Rightarrow> string option \<Rightarrow> row list \<Rightarrow> process option option" where
  "sql_get_process sid pid tenant rows =
     (case fetchone (\<lambda>r. col_is ''id'' (C_text pid) r \<and> col_is ''session_id'' (C_text sid) r \<and>
         (case tenant of None \<Rightarrow> True | Some tn \<Rightarrow> col_is ''tenant_id'' (C_text tn) r)) rows of
        None \<Rightarrow> Some None
      | Some r \<Rightarrow> map_option Some (row_to_process r))"

text \<open>\<open>COALESCE(?, last_output_at)\<close> keeps the cell when the parameter is \<open>NULL\<close>.\<close>

definition sql_mark_process_exited :: "ms \<Rightarrow> string \<Rightarrow> int option \<Rightarrow> ms option \<Rightarrow> row list \<Rightarrow> row list" where
  "sql_mark_process_exited ts pid code last_output rows =
     sql_update (\<lambda>r. col_is ''id'' (C_text pid) r \<and> col_is ''state'' (C_text ''RUNNING'') r)
       (\<lambda>r. [(''state'', C_text ''EXITED''), (''exit_code'', int_or_null code), (''exited_at'', C_int ts),
         (''last_polled_at'', C_int ts),
         (''last_output_at'', (case last_output of Some x \<Rightarrow> C_int x
            | None \<Rightarrow> (case map_of r ''last_output_at'' of None \<Rightarrow> C_null | Some v \<Rightarrow> v)))]) rows"

definition sql_delete_process :: "string \<Rightarrow> string \<Rightarrow> row list \<Rightarrow> row list" where
  "sql_delete_process sid pid rows =
     filter (\<lambda>r. \<not> (col_is ''session_id'' (C_text sid) r \<and> col_is ''id'' (C_text pid) r)) rows"

text \<open>Tenants.\<close>

definition strings_or_null :: "string list option \<Rightarrow> cell" where
  "strings_or_null x = (case x of None \<Rightarrow> C_null | Some ss \<Rightarrow> C_text (dumps '' '' (JList (map JStr ss))))"

definition sql_create_tenant ::
  "ms \<Rightarrow> string \<Rightarrow> string \<Rightarrow> tenant_limits \<Rightarrow> string list option \<Rightarrow> row list \<Rightarrow> row list" where
  "sql_create_tenant ts tid name l egress rows =
     (if list_ex (col_is ''id'' (C_text tid)) rows then rows
      else rows @ [new_row ''tenants''
        [(''id'', C_text tid), (''display_name'', C_text name), (''created_at'', C_int ts),
         (''max_concurrency'', int_or_null (l_max_concurrency l)), (''max_workspace_gib'', int_or_null (l_max_workspace_gib l)),
         (''max_exec_timeout_s'', int_or_null (l_max_exec_timeout_s l)), (''egress_allowlist_json'', strings_or_null egress)]])"

definition sql_get_tenant_full :: "string \<Rightarrow> row list \<Rightarrow> tenant option option" where
  "sql_get_tenant_full tid rows =
     (case fetchone (col_is ''id'' (C_text tid)) rows of
        None \<Rightarrow> Some None
      | Some r \<Rightarrow> map_option Some (row_to_tenant_dict r))"

text \<open>The \<open>SET\<close> list holds what was passed; with an empty one there is no statement.\<close>

definition tenant_sets ::
  "string option \<Rightarrow> int option option \<Rightarrow> int option option \<Rightarrow> int option option \<Rightarrow> string list option option \<Rightarrow> row" where
  "tenant_sets name conc ws ex egress =
     (case name of None \<Rightarrow> [] | Some s \<Rightarrow> [(''display_name'', C_text s)]) @
     (case conc of None \<Rightarrow> [] | Some x \<Rightarrow> [(''max_concurrency'', int_or_null x)]) @
     (case ws of None \<Rightarrow> [] | Some x \<Rightarrow> [(''max_workspace_gib'', int_or_null x)]) @
     (case ex of None \<Rightarrow> [] | Some x \<Rightarrow> [(''max_exec_timeout_s'', int_or_null x)]) @
     (case egress of None \<Rightarrow> [] | Some x \<Rightarrow> [(''egress_allowlist_json'', strings_or_null x)])"

definition sql_update_tenant ::
  "string \<Rightarrow> string option \<Rightarrow> int option option \<Rightarrow> int option option \<Rightarrow> int option option \<Rightarrow>
    string list option option \<Rightarrow> row list \<Rightarrow> row list" where
  "sql_update_tenant tid name conc ws ex egress rows =
     (let sets = tenant_sets name conc ws ex egress in
      if sets = [] then rows else sql_update (col_is ''id'' (C_text tid)) (\<lambda>_. sets) rows)"

text \<open>Tokens.\<close>

definition sql_insert_token ::
  "ms \<Rightarrow> string \<Rightarrow> string \<Rightarrow> string \<Rightarrow> string list option \<Rightarrow> string option \<Rightarrow> row list \<Rightarrow> exn + row list" where
  "sql_insert_token ts kid tenant h scopes note rows =
     (if list_ex (col_is ''id'' (C_text kid)) rows \<or> list_ex (col_is ''hash'' (C_text h)) rows then Inl IntegrityError
      else Inr (rows @ [new_row ''tokens''
        [(''id'', C_text kid), (''tenant_id'', C_text tenant), (''hash'', C_text h), (''issued_at'', C_int ts),
         (''scopes_json'', strings_or_null scopes), (''note'', text_or_null note)]]))"

definition sql_lookup_token ::
  "string \<Rightarrow> row list \<Rightarrow> (string \<times> string \<times> ms option \<times> string list option) option option" where
  "sql_lookup_token h rows =
     (case fetchone (col_is ''hash'' (C_text h)) rows of
        None \<Rightarrow> Some None
      | Some r \<Rightarrow> do {
          kid \<leftarrow> col r ''id'' cell_text;
          tenant \<leftarrow> col r ''tenant_id'' cell_text;
          revoked \<leftarrow> col r ''revoked_at'' (nullable cell_int);
          scopes \<leftarrow> late_strings r ''scopes_json'';
          Some (Some (kid, tenant, revoked, scopes))
        })"

definition sql_revoke_token :: "string \<Rightarrow> ms \<Rightarrow> row list \<Rightarrow> row list" where
  "sql_revoke_token kid at rows = sql_update (col_is ''id'' (C_text kid)) (\<lambda>_. [(''revoked_at'', C_int at)]) rows"

section \<open>The rows of a table of records\<close>

definition session_row :: "(limits \<Rightarrow> string) \<Rightarrow> session \<Rightarrow> row" where
  "session_row dump s =
    [(''id'', C_text (s_id s)), (''tenant_id'', C_text (s_tenant s)), (''status'', C_text (status_text (s_status s))),
     (''container_id'', text_or_null (s_container s)), (''volume_name'', C_text (s_volume s)),
     (''limits_json'', C_text (dump (s_limits s))), (''created_at'', C_int (s_created s)),
     (''last_activity_at'', C_int (s_last s)), (''destroyed_at'', int_or_null (s_destroyed s))]"

definition process_row :: "process \<Rightarrow> row" where
  "process_row p =
    [(''id'', C_text (p_id p)), (''session_id'', C_text (p_session p)), (''tenant_id'', C_text (p_tenant p)),
     (''name'', text_or_null (p_name p)), (''argv_json'', C_text (dumps '' '' (JList (map JStr (p_argv p))))),
     (''cwd'', text_or_null (p_cwd p)), (''restart_policy'', C_text (p_restart p)), (''ospid'', int_or_null (p_ospid p)),
     (''log_path'', C_text (p_log p)), (''exit_path'', C_text (p_exit p)), (''state'', C_text (pstate_text (p_state p))),
     (''exit_code'', int_or_null (p_exit_code p)), (''started_at'', C_int (p_started p)),
     (''exited_at'', int_or_null (p_exited p)), (''last_output_at'', int_or_null (p_last_output p)),
     (''last_polled_at'', int_or_null (p_last_polled p))]"

definition tenant_row :: "tenant \<Rightarrow> row" where
  "tenant_row t =
    [(''id'', C_text (t_id t)), (''display_name'', C_text (t_name t)), (''created_at'', C_int (t_created t)),
     (''max_concurrency'', int_or_null (t_max_concurrency t)), (''max_workspace_gib'', int_or_null (t_max_workspace_gib t)),
     (''max_exec_timeout_s'', int_or_null (t_max_exec_timeout_s t)), (''egress_allowlist_json'', strings_or_null (t_egress t))]"

definition token_row :: "token \<Rightarrow> row" where
  "token_row k =
    [(''id'', C_text (k_id k)), (''tenant_id'', C_text (k_tenant k)), (''hash'', C_text (k_hash k)),
     (''issued_at'', C_int (k_issued k)), (''revoked_at'', int_or_null (k_revoked k)),
     (''scopes_json'', strings_or_null (map_option (map scope_name) (k_scopes k))), (''note'', text_or_null (k_note k))]"

text \<open>Reading the rows back.\<close>

named_theorems row_defs "rows and cells"

lemmas [row_defs] = session_row_def process_row_def tenant_row_def token_row_def

lemma nullable_cells [simp]:
  "nullable cell_text (text_or_null x) = Some x" "nullable cell_int (int_or_null y) = Some y"
  by (simp_all add: nullable_def text_or_null_def int_or_null_def split: option.splits)

lemma col_simps [simp]:
  "col ((c, v) # r) c' f = (if c = c' then f v else col r c' f)" "late_col ((c, v) # r) c' f = (if c = c' then nullable f v else late_col r c' f)"
  "col_is c' x ((c, v) # r) = (if c = c' then x \<noteq> C_null \<and> v = x else col_is c' x r)"
  by (simp_all add: col_def late_col_def col_is_def)

lemma status_back [simp]: "status_of (status_text st) = Some st"
  by (cases st) (simp_all add: status_of_def ALL_STATUSES_def)

lemma pstate_back [simp]: "pstate_of (pstate_text st) = Some st"
  by (cases st) (simp_all add: pstate_of_def)

lemma scope_back [simp]: "scope_of (scope_name sc) = Some sc"
  by (cases sc) (simp_all add: scope_of_def ALL_SCOPES_def)

lemma strings_back: "list_all utf8 ss \<Longrightarrow> strings_of (dumps '' '' (JList (map JStr ss))) = Some ss"
  using those_strs [of ss] by (simp add: strings_of_def loads_dumps json_ws_def list_all_iff comp_def del: dumps.simps)

lemma dumps_list_nonempty: "dumps '' '' (JList js) \<noteq> []"
  by simp

lemma late_strings_back:
  "map_of r c = Some (strings_or_null x) \<Longrightarrow> opt_all (list_all utf8) x \<Longrightarrow> late_strings r c = Some x"
  by (cases x) (simp_all add: late_strings_def late_col_def strings_or_null_def opt_all_def nullable_def strings_back
      dumps_list_nonempty del: dumps.simps)

lemma limits_back: "limits_ok l \<Longrightarrow> limits_of_json (limits_json l) = Some l"
  by (cases l) (simp add: limits_of_json_def limits_json_def int_field_def Let_def)

text \<open>What Python's \<open>str\<close> and the constraints of \<open>Limits\<close> give for the values in the tables.\<close>

definition process_ok :: "process \<Rightarrow> bool" where
  "process_ok p \<longleftrightarrow> list_all utf8 (p_argv p)"

definition tenant_ok :: "tenant \<Rightarrow> bool" where
  "tenant_ok t \<longleftrightarrow> opt_all (list_all utf8) (t_egress t)"

lemma session_back:
  assumes "loads (dump (s_limits s)) = Some (limits_json (s_limits s))" "limits_ok (s_limits s)"
  shows "row_to_session (session_row dump s) = Some s"
  using assms by (simp add: row_to_session_def session_row_def limits_back)

lemma process_back: "process_ok p \<Longrightarrow> row_to_process (process_row p) = Some p"
  by (simp add: row_to_process_def process_row_def process_ok_def strings_back del: dumps.simps)

lemma tenant_back: "tenant_ok t \<Longrightarrow> row_to_tenant_dict (tenant_row t) = Some t"
  using late_strings_back [of "tenant_row t" "''egress_allowlist_json''" "t_egress t"]
  by (simp add: row_to_tenant_dict_def tenant_row_def tenant_ok_def)

lemma scopes_utf8: "opt_all (list_all utf8) (map_option (map scope_name) x)"
proof -
  have "utf8 (scope_name sc)" for sc by (cases sc; simp; code_simp)
  then show ?thesis by (simp add: opt_all_def list_all_iff split: option.splits)
qed

lemma token_back:
  "row_to_token_info (token_row k) = Some \<lparr>n_id = k_id k, n_tenant = k_tenant k, n_issued = k_issued k, n_revoked = k_revoked k,
     n_scopes = map_option (map scope_name) (k_scopes k), n_note = k_note k\<rparr>"
  using late_strings_back [of "token_row k" "''scopes_json''", OF _ scopes_utf8 [of "k_scopes k"]]
  by (simp add: row_to_token_info_def token_row_def)

section \<open>Statements against records\<close>

lemma fetchone_map:
  assumes "\<And>x. P (f x) = Q x"
  shows "fetchone P (map f t) = map_option f (case filter Q t of [] \<Rightarrow> None | r # _ \<Rightarrow> Some r)"
  by (induction t) (simp_all add: fetchone_def assms)

lemma fetchone_key:
  assumes "\<And>x. P (f x) \<longleftrightarrow> key x = k"
  shows "fetchone P (map f t) = map_option f (t_get key k t)"
  unfolding t_get_def by (rule fetchone_map) (rule assms)

lemma list_ex_key:
  assumes "\<And>x. P (f x) \<longleftrightarrow> key x = k"
  shows "list_ex P (map f t) \<longleftrightarrow> t_get key k t \<noteq> None"
  by (induction t) (simp_all add: assms)

lemma sql_update_map:
  assumes "\<And>x. P (f x) = Q x" "\<And>x. Q x \<Longrightarrow> set_cells (new (f x)) (f x) = f (g x)"
  shows "sql_update P new (map f t) = map f (t_upd Q g t)"
  by (simp add: sql_update_def t_upd_def assms)

lemma status_text_iff:
  "status_text st = ''CREATING'' \<longleftrightarrow> st = CREATING" "status_text st = ''RUNNING'' \<longleftrightarrow> st = RUNNING"
  "status_text st = ''IDLE'' \<longleftrightarrow> st = IDLE" "status_text st = ''STOPPED'' \<longleftrightarrow> st = STOPPED"
  "status_text st = ''DESTROYING'' \<longleftrightarrow> st = DESTROYING" "status_text st = ''DESTROYED'' \<longleftrightarrow> st = DESTROYED"
  by (cases st; simp)+

lemma pstate_text_iff: "pstate_text st = ''RUNNING'' \<longleftrightarrow> st = P_RUNNING" "pstate_text st = ''EXITED'' \<longleftrightarrow> st = P_EXITED"
  by (cases st; simp)+

lemma session_cols:
  "col_is ''id'' (C_text i) (session_row dump s) \<longleftrightarrow> s_id s = i"
  "col_is ''tenant_id'' (C_text i) (session_row dump s) \<longleftrightarrow> s_tenant s = i"
  "col_is ''status'' (C_text i) (session_row dump s) \<longleftrightarrow> status_text (s_status s) = i"
  "col (session_row dump s) ''status'' cell_text = Some (status_text (s_status s))"
  by (simp_all add: session_row_def)

lemma process_cols:
  "col_is ''id'' (C_text i) (process_row p) \<longleftrightarrow> p_id p = i" "col_is ''session_id'' (C_text i) (process_row p) \<longleftrightarrow> p_session p = i"
  "col_is ''tenant_id'' (C_text i) (process_row p) \<longleftrightarrow> p_tenant p = i"
  "col_is ''state'' (C_text i) (process_row p) \<longleftrightarrow> pstate_text (p_state p) = i"
  "map_of (process_row p) ''last_output_at'' = Some (int_or_null (p_last_output p))"
  by (simp_all add: process_row_def)

lemma other_cols:
  "col_is ''id'' (C_text i) (tenant_row x) \<longleftrightarrow> t_id x = i" "col_is ''id'' (C_text i) (token_row k) \<longleftrightarrow> k_id k = i"
  "col_is ''hash'' (C_text i) (token_row k) \<longleftrightarrow> k_hash k = i"
  by (simp_all add: tenant_row_def token_row_def)

lemma inserted_session:
  "new_row ''sessions''
     [(''id'', C_text sid), (''tenant_id'', C_text tenant), (''status'', CREATING_CELL), (''container_id'', C_null),
      (''volume_name'', C_text vol), (''limits_json'', C_text (dump l)), (''created_at'', C_int ts),
      (''last_activity_at'', C_int ts)] = session_row dump (new_session ts sid tenant vol l)"
  by (simp add: new_row_def columns_def SCHEMA_def session_row_def new_session_def CREATING_CELL_def text_or_null_def int_or_null_def)

lemma session_insert_rows:
  "sql_insert_session dump ts sid tenant vol l (map (session_row dump) t) =
     map_sum id (map (session_row dump)) (insert_session ts sid tenant vol l t)"
  using list_ex_key [of "col_is ''id'' (C_text sid)" "session_row dump" s_id sid t]
  by (simp add: sql_insert_session_def insert_session_def session_cols inserted_session)

lemma session_get_rows:
  assumes "\<And>l. loads (dump l) = Some (limits_json l)" "list_all (\<lambda>s. limits_ok (s_limits s)) t"
  shows "sql_get_session sid tenant (map (session_row dump) t) = Some (get_session sid tenant t)"
proof -
  have f: "fetchone (\<lambda>r. col_is ''id'' (C_text sid) r \<and> col_is ''tenant_id'' (C_text tenant) r) (map (session_row dump) t) =
      map_option (session_row dump) (case filter (\<lambda>s. s_id s = sid \<and> s_tenant s = tenant) t of [] \<Rightarrow> None | r # _ \<Rightarrow> Some r)"
    by (rule fetchone_map) (simp add: session_cols)
  show ?thesis
  proof (cases "filter (\<lambda>s. s_id s = sid \<and> s_tenant s = tenant) t")
    case Nil
    then show ?thesis by (simp add: sql_get_session_def f get_session_def)
  next
    case (Cons s ss)
    then have "s \<in> set t" by (metis filter_eq_ConsD in_set_conv_decomp)
    then have "row_to_session (session_row dump s) = Some s"
      using assms by (intro session_back) (simp_all add: list_all_iff)
    with Cons show ?thesis by (simp add: sql_get_session_def f get_session_def)
  qed
qed

lemma session_update_rows:
  "sql_set_container sid cid (map (session_row dump) t) = map (session_row dump) (set_container sid cid t)"
  "sql_touch_activity ts sid (map (session_row dump) t) = map (session_row dump) (touch_activity ts sid t)"
  "sql_transition_orphaned ts sid (map (session_row dump) t) = map (session_row dump) (transition_orphaned ts sid t)"
  unfolding sql_set_container_def sql_touch_activity_def sql_transition_orphaned_def
    set_container_def touch_activity_def transition_orphaned_def
  by (rule sql_update_map; auto simp: session_cols col_in_def GONE_def status_text_iff live_def session_row_def set_cells_def text_or_null_def)+

lemma session_transition_rows:
  "sql_transition ts sid new (map (session_row dump) t) = map_sum id (map (session_row dump)) (transition ts sid new t)"
proof -
  have u: "sql_update (col_is ''id'' (C_text sid)) (\<lambda>_. [(''status'', C_text (status_text new)),
        (''destroyed_at'', C_int ts), (''last_activity_at'', C_int ts)]) (map (session_row dump) t) =
      map (session_row dump) (write_status ts sid new t)" if "new = DESTROYED"
    unfolding write_status_def
    by (rule sql_update_map) (use that in \<open>auto simp: session_cols session_row_def set_cells_def with_status_def int_or_null_def\<close>)
  have v: "sql_update (col_is ''id'' (C_text sid)) (\<lambda>_. [(''status'', C_text (status_text new)),
        (''last_activity_at'', C_int ts)]) (map (session_row dump) t) =
      map (session_row dump) (write_status ts sid new t)" if "new \<noteq> DESTROYED"
    unfolding write_status_def
    by (rule sql_update_map) (use that in \<open>auto simp: session_cols session_row_def set_cells_def with_status_def\<close>)
  have f: "fetchone (col_is ''id'' (C_text sid)) (map (session_row dump) t) = map_option (session_row dump) (t_get s_id sid t)"
    by (rule fetchone_key) (rule session_cols)
  show ?thesis
  proof (cases "t_get s_id sid t")
    case None
    then show ?thesis by (simp add: sql_transition_def transition_def f)
  next
    case (Some s)
    then show ?thesis
      using u v by (auto simp: sql_transition_def transition_def f session_cols simp del: status_text.simps)
  qed
qed

lemma session_count_rows: "sql_count_concurrent tenant (map (session_row dump) t) = count_concurrent tenant t"
  by (auto simp: sql_count_concurrent_def count_concurrent_def filter_map comp_def session_cols col_in_def GONE_def
      status_text_iff terminal_def intro!: arg_cong [of _ _ length] filter_cong)

lemma new_process_row:
  "p_state p = P_RUNNING \<Longrightarrow> p_exit_code p = None \<Longrightarrow> p_exited p = None \<Longrightarrow> p_last_output p = None \<Longrightarrow>
    p_last_polled p = Some (p_started p) \<Longrightarrow>
    new_row ''processes''
     [(''id'', C_text (p_id p)), (''session_id'', C_text (p_session p)), (''tenant_id'', C_text (p_tenant p)),
      (''name'', text_or_null (p_name p)), (''argv_json'', C_text (dumps '' '' (JList (map JStr (p_argv p))))),
      (''cwd'', text_or_null (p_cwd p)), (''restart_policy'', C_text (p_restart p)), (''ospid'', int_or_null (p_ospid p)),
      (''log_path'', C_text (p_log p)), (''exit_path'', C_text (p_exit p)), (''state'', C_text ''RUNNING''),
      (''started_at'', C_int (p_started p)), (''last_polled_at'', C_int (p_started p))] = process_row p"
  by (simp add: new_row_def columns_def SCHEMA_def process_row_def int_or_null_def del: dumps.simps)

lemma process_insert_rows:
  assumes "p = new_process ts pid sid tenant name argv cwd ospid log_path exit_path"
  shows "sql_insert_process p (map process_row t) = map_sum id (map process_row) (insert_process p t)"
  using list_ex_key [of "col_is ''id'' (C_text (p_id p))" process_row p_id "p_id p" t] new_process_row [of p]
  by (simp add: sql_insert_process_def insert_process_def process_cols assms new_process_def del: dumps.simps)

lemma process_get_rows:
  assumes "list_all process_ok t"
  shows "sql_get_process sid pid tenant (map process_row t) = Some (get_process sid pid tenant t)"
proof -
  have f: "fetchone (\<lambda>r. col_is ''id'' (C_text pid) r \<and> col_is ''session_id'' (C_text sid) r \<and>
         (case tenant of None \<Rightarrow> True | Some tn \<Rightarrow> col_is ''tenant_id'' (C_text tn) r)) (map process_row t) =
      map_option process_row (case filter (\<lambda>p. p_id p = pid \<and> p_session p = sid \<and> tenant_matches tenant p) t of [] \<Rightarrow> None | r # _ \<Rightarrow> Some r)"
    by (rule fetchone_map) (simp add: process_cols tenant_matches_def split: option.splits)
  show ?thesis
  proof (cases "filter (\<lambda>p. p_id p = pid \<and> p_session p = sid \<and> tenant_matches tenant p) t")
    case Nil
    then show ?thesis by (simp add: sql_get_process_def f get_process_def)
  next
    case (Cons p ps)
    then have "p \<in> set t" by (metis filter_eq_ConsD in_set_conv_decomp)
    then have "row_to_process (process_row p) = Some p"
      using assms by (intro process_back) (simp add: list_all_iff)
    with Cons show ?thesis by (simp add: sql_get_process_def f get_process_def)
  qed
qed

lemma process_update_rows:
  "sql_mark_process_exited ts pid code out (map process_row t) = map process_row (mark_process_exited ts pid code out t)"
  "sql_delete_process sid pid (map process_row t) = map process_row (delete_process sid pid t)"
proof -
  show "sql_mark_process_exited ts pid code out (map process_row t) = map process_row (mark_process_exited ts pid code out t)"
    unfolding sql_mark_process_exited_def mark_process_exited_def
    by (rule sql_update_map) (auto simp: process_cols pstate_text_iff process_row_def set_cells_def int_or_null_def simp del: dumps.simps
        split: option.splits)
  show "sql_delete_process sid pid (map process_row t) = map process_row (delete_process sid pid t)"
    by (simp add: sql_delete_process_def delete_process_def t_del_def filter_map comp_def process_cols)
qed

lemma tenant_create_rows:
  "sql_create_tenant ts tid name l egress (map tenant_row t) = map tenant_row (create_tenant ts tid name l egress t)"
  using list_ex_key [of "col_is ''id'' (C_text tid)" tenant_row t_id tid t]
  by (simp add: sql_create_tenant_def create_tenant_def other_cols new_row_def columns_def SCHEMA_def tenant_row_def)

lemma tenant_get_rows:
  assumes "list_all tenant_ok t"
  shows "sql_get_tenant_full tid (map tenant_row t) = Some (get_tenant_full tid t)"
proof -
  have f: "fetchone (col_is ''id'' (C_text tid)) (map tenant_row t) = map_option tenant_row (t_get t_id tid t)"
    by (rule fetchone_key) (rule other_cols)
  show ?thesis
    using assms by (auto simp: sql_get_tenant_full_def get_tenant_full_def f list_all_iff dest!: t_get_in intro!: tenant_back
        split: option.splits)
qed

lemma tenant_update_rows:
  "sql_update_tenant tid name conc ws ex egress (map tenant_row t) = map tenant_row (update_tenant tid name conc ws ex egress t)"
proof (cases "tenant_sets name conc ws ex egress = []")
  case True
  then have "name = None \<and> conc = None \<and> ws = None \<and> ex = None \<and> egress = None"
    by (simp add: tenant_sets_def split: option.splits)
  moreover have "t_upd P (\<lambda>r. r) t = t" for P by (simp add: t_upd_def)
  ultimately show ?thesis using True by (simp add: sql_update_tenant_def update_tenant_def)
next
  case False
  have "sql_update (col_is ''id'' (C_text tid)) (\<lambda>_. tenant_sets name conc ws ex egress) (map tenant_row t) =
      map tenant_row (update_tenant tid name conc ws ex egress t)"
    unfolding update_tenant_def
    by (rule sql_update_map)
      (cases name; cases conc; cases ws; cases ex; cases egress; simp add: other_cols tenant_row_def set_cells_def tenant_sets_def)+
  with False show ?thesis by (simp add: sql_update_tenant_def)
qed

lemma token_insert_rows:
  "sql_insert_token ts kid tenant h (map_option (map scope_name) scopes) note (map token_row t) =
     map_sum id (map token_row) (insert_token ts kid tenant h scopes note t)"
  using list_ex_key [of "col_is ''id'' (C_text kid)" token_row k_id kid t] list_ex_key [of "col_is ''hash'' (C_text h)" token_row k_hash h t]
  by (simp add: sql_insert_token_def insert_token_def other_cols new_row_def columns_def SCHEMA_def token_row_def int_or_null_def)

lemma token_lookup_rows:
  "sql_lookup_token h (map token_row t) =
     Some (map_option (\<lambda>(k, tn, at, sc). (k, tn, at, map_option (map scope_name) sc)) (lookup_token h t))"
proof -
  have f: "fetchone (col_is ''hash'' (C_text h)) (map token_row t) = map_option token_row (t_get k_hash h t)"
    by (rule fetchone_key) (rule other_cols)
  have "late_strings (token_row k) ''scopes_json'' = Some (map_option (map scope_name) (k_scopes k))" for k
    by (rule late_strings_back [OF _ scopes_utf8]) (simp add: token_row_def)
  moreover have "col (token_row k) ''id'' cell_text = Some (k_id k)" "col (token_row k) ''tenant_id'' cell_text = Some (k_tenant k)"
    "col (token_row k) ''revoked_at'' (nullable cell_int) = Some (k_revoked k)" for k
    by (simp_all add: token_row_def)
  ultimately show ?thesis
    by (simp add: sql_lookup_token_def lookup_token_def f split: option.splits)
qed

lemma token_revoke_rows: "sql_revoke_token kid at (map token_row t) = map token_row (revoke_token kid at t)"
  unfolding sql_revoke_token_def revoke_token_def
  by (rule sql_update_map) (auto simp: other_cols token_row_def set_cells_def int_or_null_def)

section \<open>Rows of earlier versions\<close>

text \<open>What \<open>ALTER TABLE ... ADD COLUMN\<close> leaves of the rows: the new columns hold \<open>NULL\<close>.\<close>

definition widen :: "string list \<Rightarrow> row \<Rightarrow> row" where
  "widen cols r = r @ map (\<lambda>c. (c, C_null)) (drop (length r) cols)"

lemma widen_cols:
  assumes "map fst r @ extra = cols"
  shows "widen cols r = r @ map (\<lambda>c. (c, C_null)) extra"
  using assms by (auto simp: widen_def)

lemma map_of_nulls: "map_of (map (\<lambda>c. (c, C_null)) cs) c = (if c \<in> set cs then Some C_null else None)"
  by (induction cs) auto

lemma late_col_widen: "late_col (r @ map (\<lambda>c. (c, C_null)) extra) c f = late_col r c f"
  by (auto simp: late_col_def map_add_def map_of_nulls nullable_def split: option.splits)

lemma late_strings_widen: "late_strings (r @ map (\<lambda>c. (c, C_null)) extra) c = late_strings r c"
  by (simp add: late_strings_def late_col_widen)

lemma col_widen: "c \<in> fst ` set r \<Longrightarrow> col (r @ map (\<lambda>c. (c, C_null)) extra) c f = col r c f"
  by (auto simp: col_def map_add_def split: option.splits dest: map_of_eq_None_iff [THEN iffD1])

section \<open>Properties\<close>

text \<open>
  C11: what is stored is what is meant, for sessions. Each statement of the registry on the rows of a table does
  what the definition of \<open>RegSessions\<close> does on the records, errors included: an insertion, the lookup by owner
  with the limits parsed from their JSON text, a transition with its check, activity, the forced stop of
  reconciliation, the count that admission uses. Of \<open>model_dump_json\<close> it is used that its text is JSON for
  the limits.
\<close>

theorem session_rows_refine:
  fixes dump :: "limits \<Rightarrow> string" and t :: sessions
  assumes "\<And>l. loads (dump l) = Some (limits_json l)" "list_all (\<lambda>s. limits_ok (s_limits s)) t"
  shows "sql_insert_session dump ts sid tenant vol l (map (session_row dump) t) =
      map_sum id (map (session_row dump)) (insert_session ts sid tenant vol l t)
    \<and> sql_get_session sid tenant (map (session_row dump) t) = Some (get_session sid tenant t)
    \<and> sql_count_concurrent tenant (map (session_row dump) t) = count_concurrent tenant t
    \<and> sql_set_container sid cid (map (session_row dump) t) = map (session_row dump) (set_container sid cid t)
    \<and> sql_transition ts sid new (map (session_row dump) t) = map_sum id (map (session_row dump)) (transition ts sid new t)
    \<and> sql_touch_activity ts sid (map (session_row dump) t) = map (session_row dump) (touch_activity ts sid t)
    \<and> sql_transition_orphaned ts sid (map (session_row dump) t) = map (session_row dump) (transition_orphaned ts sid t)"
  by (intro conjI session_insert_rows session_get_rows session_count_rows session_update_rows session_transition_rows assms)

lemma session_rows_refine_witness:
  "sql_get_session ''s1'' ''t1'' (map (session_row (dumps [] \<circ> limits_json)) [new_session 5 ''s1'' ''t1'' ''v'' demo_limits]) =
     Some (Some (new_session 5 ''s1'' ''t1'' ''v'' demo_limits))"
proof -
  let ?d = "dumps [] \<circ> limits_json" and ?t = "[new_session 5 ''s1'' ''t1'' ''v'' demo_limits]"
  have "json_ok (limits_json l)" for l by (auto simp: limits_json_def in_range_def intro!: utf8_literal)
  then have d: "loads (?d l) = Some (limits_json l)" for l by (simp add: loads_dumps)
  have ok: "list_all (\<lambda>s. limits_ok (s_limits s)) ?t" by (simp add: new_session_def demo_limits_def limits_ok_def)
  note r = session_rows_refine [where dump = ?d and t = ?t and sid = "''s1''" and tenant = "''t1''", OF d ok]
  have "get_session ''s1'' ''t1'' ?t = Some (new_session 5 ''s1'' ''t1'' ''v'' demo_limits)"
    by (simp add: get_session_def new_session_def)
  with r show ?thesis by simp
qed



text \<open>
  C20: the migration is safe. Opening a database of any earlier version adds every table of the schema and every
  column a migration names, loses none and keeps their order, and opening it again changes nothing; and the rows
  of tenants and tokens that were written before, widened with \<open>NULL\<close>s, are read as they were.
\<close>

theorem migration_keeps_rows:
  assumes "db ''tenants'' = Some (map fst r)" "{''id'', ''display_name'', ''created_at''} \<subseteq> fst ` set r"
    and "db ''tokens'' = Some (map fst k)" "{''id'', ''tenant_id'', ''issued_at'', ''revoked_at''} \<subseteq> fst ` set k"
  shows "extends_schema db (init_schema db) \<and>
    list_all (\<lambda>m. has_column (init_schema db) (fst m) (snd m)) PENDING_MIGRATIONS \<and>
    init_schema (init_schema db) = init_schema db \<and>
    (\<exists>cols. init_schema db ''tenants'' = Some cols \<and> row_to_tenant_dict (widen cols r) = row_to_tenant_dict r) \<and>
    (\<exists>cols. init_schema db ''tokens'' = Some cols \<and> row_to_token_info (widen cols k) = row_to_token_info k)"
proof -
  obtain m1 where m1: "init_schema db ''tenants'' = Some (map fst r @ m1)"
    using init_schema_extends [of db] assms(1) unfolding extends_schema_def by blast
  obtain m2 where m2: "init_schema db ''tokens'' = Some (map fst k @ m2)"
    using init_schema_extends [of db] assms(3) unfolding extends_schema_def by blast
  have "row_to_tenant_dict (widen (map fst r @ m1) r) = row_to_tenant_dict r"
    using assms(2) by (simp add: widen_cols [OF refl] row_to_tenant_dict_def col_widen late_col_widen late_strings_widen)
  moreover have "row_to_token_info (widen (map fst k @ m2) k) = row_to_token_info k"
    using assms(4) by (simp add: widen_cols [OF refl] row_to_token_info_def col_widen late_col_widen late_strings_widen)
  ultimately show ?thesis
    using m1 m2 by (simp add: init_schema_extends init_schema_has init_schema_twice list_all_iff)
qed

definition old_tenant :: row where
  "old_tenant = [(''id'', C_text ''t1''), (''display_name'', C_text ''One''), (''created_at'', C_int 3)]"

definition old_token :: row where
  "old_token = [(''id'', C_text ''k1''), (''tenant_id'', C_text ''t1''), (''hash'', C_text ''h''), (''issued_at'', C_int 4),
     (''revoked_at'', C_null)]"

definition old_db :: db_schema where
  "old_db = [''tenants'' \<mapsto> map fst old_tenant, ''tokens'' \<mapsto> map fst old_token]"

lemma migration_keeps_rows_witness:
  "\<exists>cols. init_schema old_db ''tenants'' = Some cols \<and> row_to_tenant_dict (widen cols old_tenant) =
     Some \<lparr>t_id = ''t1'', t_name = ''One'', t_created = 3, t_max_concurrency = None, t_max_workspace_gib = None,
       t_max_exec_timeout_s = None, t_egress = None\<rparr>"
proof -
  have db: "old_db ''tenants'' = Some (map fst old_tenant)" "old_db ''tokens'' = Some (map fst old_token)"
    by (simp_all add: old_db_def)
  have cols: "{''id'', ''display_name'', ''created_at''} \<subseteq> fst ` set old_tenant"
    "{''id'', ''tenant_id'', ''issued_at'', ''revoked_at''} \<subseteq> fst ` set old_token"
    by (simp_all add: old_tenant_def old_token_def)
  have "row_to_tenant_dict old_tenant = Some \<lparr>t_id = ''t1'', t_name = ''One'', t_created = 3, t_max_concurrency = None,
      t_max_workspace_gib = None, t_max_exec_timeout_s = None, t_egress = None\<rparr>"
    by (simp add: row_to_tenant_dict_def old_tenant_def col_def late_col_def late_strings_def)
  with migration_keeps_rows [OF db(1) cols(1) db(2) cols(2)] show ?thesis by auto
qed

end
