(* ===== verification/SessionLocks.thy ===== *)
theory SessionLocks
  imports SessionResults
begin

text \<open>
  The lock of a session (\<open>SessionService._lock_for\<close> and the \<open>async with lock\<close> blocks of \<open>stop\<close>, \<open>resume\<close>,
  \<open>destroy\<close>, \<open>reap_stop\<close> and \<open>reap_destroy\<close> in \<open>api/sessions.py\<close>). Between any two awaits of one call every other
  call may run; a schedule says who moves next. Shown: the calls for one session have the effect of running
  them one after the other in the order in which they got the lock.
\<close>

section \<open>Calls as sequences of statements\<close>

text \<open>
  What a call does to the row of its session between two awaits, and how it goes on from there, with what it
  has read. An exception or an early return ends the block, which releases the lock.
\<close>

datatype 'r prog = Done | Act "'r \<Rightarrow> 'r \<times> 'r prog"

primrec run_prog :: "'r prog \<Rightarrow> 'r \<Rightarrow> 'r" where
  "run_prog Done = (\<lambda>r. r)"
| "run_prog (Act f) = (\<lambda>r. case map_prod id run_prog (f r) of (r', k) \<Rightarrow> k r')"

lemma run_prog_Act: "f r = (r', p) \<Longrightarrow> run_prog (Act f) r = run_prog p r'"
  by simp

text \<open>\<open>transition\<close> is two statements: the \<open>SELECT\<close> with the check, and the \<open>UPDATE\<close>.\<close>

type_synonym row_prog = "session option prog"

definition move_prog :: "ms \<Rightarrow> status \<Rightarrow> row_prog \<Rightarrow> row_prog" where
  "move_prog ts new next_prog =
     Act (\<lambda>r. (r, case r of
        None \<Rightarrow> Done
      | Some s \<Rightarrow>
          if new \<notin> set (transitions (s_status s)) then Done
          else Act (\<lambda>r. (map_option (with_status ts new) r, next_prog))))"

definition visible :: "string \<Rightarrow> session option \<Rightarrow> session option" where
  "visible tenant r =
     (case r of None \<Rightarrow> None | Some s \<Rightarrow> if s_tenant s = tenant \<and> s_status s \<noteq> DESTROYED then Some s else None)"

text \<open>
  The blocks. \<open>ok\<close> says whether the Docker call between the reading of the row and the transition returns;
  the steps of the destruction between its two transitions cannot keep the second from running.
\<close>

definition stop_prog :: "ms \<Rightarrow> string \<Rightarrow> bool \<Rightarrow> row_prog" where
  "stop_prog ts tenant ok =
     Act (\<lambda>r. (r, case visible tenant r of
        None \<Rightarrow> Done
      | Some s \<Rightarrow> if live (s_status s) \<and> s_container s \<noteq> None \<and> ok then move_prog ts STOPPED Done else Done))"

definition resume_prog :: "ms \<Rightarrow> string \<Rightarrow> bool \<Rightarrow> row_prog" where
  "resume_prog ts tenant ok =
     Act (\<lambda>r. (r, case visible tenant r of
        None \<Rightarrow> Done
      | Some s \<Rightarrow>
          if s_status s \<in> {STOPPED, IDLE} \<and> s_container s \<noteq> None \<and> ok then move_prog ts RUNNING Done else Done))"

definition destroy_locked_prog :: "ms \<Rightarrow> ms \<Rightarrow> row_prog" where
  "destroy_locked_prog ts ts' = move_prog ts DESTROYING (move_prog ts' DESTROYED Done)"

definition destroy_prog :: "ms \<Rightarrow> ms \<Rightarrow> string \<Rightarrow> row_prog" where
  "destroy_prog ts ts' tenant =
     Act (\<lambda>r. (r, case visible tenant r of None \<Rightarrow> Done | Some s \<Rightarrow> destroy_locked_prog ts ts'))"

definition reap_stop_prog :: "ms \<Rightarrow> bool \<Rightarrow> row_prog" where
  "reap_stop_prog ts ok =
     Act (\<lambda>r. (r, case r of
        None \<Rightarrow> Done
      | Some s \<Rightarrow> if live (s_status s) \<and> s_container s \<noteq> None \<and> ok then move_prog ts STOPPED Done else Done))"

definition reap_destroy_prog :: "ms \<Rightarrow> ms \<Rightarrow> row_prog" where
  "reap_destroy_prog ts ts' =
     Act (\<lambda>r. (r, case r of
        None \<Rightarrow> Done
      | Some s \<Rightarrow> if terminal (s_status s) then Done else destroy_locked_prog ts ts'))"

datatype locked_call =
    L_stop ms string bool
  | L_resume ms string bool
  | L_destroy ms ms string
  | L_reap_stop ms bool
  | L_reap_destroy ms ms

fun prog_of :: "locked_call \<Rightarrow> row_prog" where
  "prog_of (L_stop ts tenant ok) = stop_prog ts tenant ok"
| "prog_of (L_resume ts tenant ok) = resume_prog ts tenant ok"
| "prog_of (L_destroy ts ts' tenant) = destroy_prog ts ts' tenant"
| "prog_of (L_reap_stop ts ok) = reap_stop_prog ts ok"
| "prog_of (L_reap_destroy ts ts') = reap_destroy_prog ts ts'"

section \<open>The locks\<close>

text \<open>
  A lock is a number. A call asks \<open>_lock_for\<close> for the lock of its session, waits until nobody holds it, runs
  its block and releases it.
\<close>

datatype phase = Calling | Waiting nat | Inside nat | Finished

record call =
  c_sid :: string
  c_prog :: row_prog
  c_phase :: phase

text \<open>
  The dictionary of locks, how many have been made, who holds which, the rows by session, the calls, and, for
  the statements below only, in which order they entered.
\<close>

record lock_st =
  lk_map :: "string \<Rightarrow> nat option"
  lk_fresh :: nat
  lk_holder :: "nat \<Rightarrow> nat option"
  lk_rows :: "string \<Rightarrow> session option"
  lk_calls :: "call list"
  lk_order :: "nat list"

definition lock_for :: "string \<Rightarrow> lock_st \<Rightarrow> nat \<times> lock_st" where
  "lock_for sid s =
     (case lk_map s sid of
        Some l \<Rightarrow> (l, s)
      | None \<Rightarrow> (lk_fresh s, s\<lparr>lk_map := (lk_map s)(sid \<mapsto> lk_fresh s), lk_fresh := Suc (lk_fresh s)\<rparr>))"

definition put_call :: "nat \<Rightarrow> call \<Rightarrow> lock_st \<Rightarrow> lock_st" where
  "put_call i c s = s\<lparr>lk_calls := (lk_calls s)[i := c]\<rparr>"

definition lock_step :: "nat \<Rightarrow> lock_st \<Rightarrow> lock_st" where
  "lock_step i s =
     (if length (lk_calls s) \<le> i then s
      else let c = lk_calls s ! i in
        case c_phase c of
          Calling \<Rightarrow> (case lock_for (c_sid c) s of (l, s') \<Rightarrow> put_call i (c\<lparr>c_phase := Waiting l\<rparr>) s')
        | Waiting l \<Rightarrow>
            if lk_holder s l \<noteq> None then s
            else (put_call i (c\<lparr>c_phase := Inside l\<rparr>) s)\<lparr>lk_holder := (lk_holder s)(l \<mapsto> i), lk_order := lk_order s @ [i]\<rparr>
        | Inside l \<Rightarrow>
            (case c_prog c of
               Done \<Rightarrow> (put_call i (c\<lparr>c_phase := Finished\<rparr>) s)\<lparr>lk_holder := (lk_holder s)(l := None)\<rparr>
             | Act f \<Rightarrow>
                 (case f (lk_rows s (c_sid c)) of
                    (r, p) \<Rightarrow> (put_call i (c\<lparr>c_prog := p\<rparr>) s)\<lparr>lk_rows := (lk_rows s)(c_sid c := r)\<rparr>))
        | Finished \<Rightarrow> s)"

definition lock_start :: "(string \<times> locked_call) list \<Rightarrow> (string \<Rightarrow> session option) \<Rightarrow> lock_st" where
  "lock_start cs rows = \<lparr>lk_map = (\<lambda>_. None), lk_fresh = 0, lk_holder = (\<lambda>_. None), lk_rows = rows,
     lk_calls = map (\<lambda>(sid, x). \<lparr>c_sid = sid, c_prog = prog_of x, c_phase = Calling\<rparr>) cs, lk_order = []\<rparr>"

definition lock_run :: "nat list \<Rightarrow> lock_st \<Rightarrow> lock_st" where
  "lock_run sched s = fold lock_step sched s"

section \<open>The invariant\<close>

definition lock_struct :: "(string \<times> locked_call) list \<Rightarrow> lock_st \<Rightarrow> bool" where
  "lock_struct cs s \<longleftrightarrow>
     length (lk_calls s) = length cs \<and>
     (\<forall>i < length cs. c_sid (lk_calls s ! i) = fst (cs ! i)) \<and>
     (\<forall>sid l. lk_map s sid = Some l \<longrightarrow> l < lk_fresh s) \<and>
     (\<forall>a b l. lk_map s a = Some l \<longrightarrow> lk_map s b = Some l \<longrightarrow> a = b) \<and>
     (\<forall>i < length cs. \<forall>l. c_phase (lk_calls s ! i) = Waiting l \<or> c_phase (lk_calls s ! i) = Inside l \<longrightarrow>
        lk_map s (fst (cs ! i)) = Some l) \<and>
     (\<forall>l i. lk_holder s l = Some i \<longleftrightarrow> i < length cs \<and> c_phase (lk_calls s ! i) = Inside l) \<and>
     (\<forall>i < length cs. \<forall>l. c_phase (lk_calls s ! i) = Calling \<or> c_phase (lk_calls s ! i) = Waiting l \<longrightarrow>
        c_prog (lk_calls s ! i) = prog_of (snd (cs ! i))) \<and>
     distinct (lk_order s) \<and>
     (\<forall>i. i \<in> set (lk_order s) \<longleftrightarrow>
        i < length cs \<and> (c_phase (lk_calls s ! i) = Finished \<or> (\<exists>l. c_phase (lk_calls s ! i) = Inside l)))"

lemma lock_struct_start: "lock_struct cs (lock_start cs rows)"
  by (simp add: lock_struct_def lock_start_def case_prod_beta)

text \<open>The four moves.\<close>

lemma lock_step_cases:
  assumes "length (lk_calls s) = length cs"
  obtains
    (idle) "lock_step i s = s"
  | (ask) l s' where "i < length cs" "c_phase (lk_calls s ! i) = Calling" "lock_for (c_sid (lk_calls s ! i)) s = (l, s')"
      "lock_step i s = put_call i ((lk_calls s ! i)\<lparr>c_phase := Waiting l\<rparr>) s'"
  | (enter) l where "i < length cs" "c_phase (lk_calls s ! i) = Waiting l" "lk_holder s l = None"
      "lock_step i s = (put_call i ((lk_calls s ! i)\<lparr>c_phase := Inside l\<rparr>) s)
         \<lparr>lk_holder := (lk_holder s)(l \<mapsto> i), lk_order := lk_order s @ [i]\<rparr>"
  | (exit) l where "i < length cs" "c_phase (lk_calls s ! i) = Inside l" "c_prog (lk_calls s ! i) = Done"
      "lock_step i s = (put_call i ((lk_calls s ! i)\<lparr>c_phase := Finished\<rparr>) s)\<lparr>lk_holder := (lk_holder s)(l := None)\<rparr>"
  | (act) l f r p where "i < length cs" "c_phase (lk_calls s ! i) = Inside l" "c_prog (lk_calls s ! i) = Act f"
      "f (lk_rows s (c_sid (lk_calls s ! i))) = (r, p)"
      "lock_step i s = (put_call i ((lk_calls s ! i)\<lparr>c_prog := p\<rparr>) s)\<lparr>lk_rows := (lk_rows s)(c_sid (lk_calls s ! i) := r)\<rparr>"
proof (cases "i < length cs")
  case False
  then show ?thesis using idle assms by (simp add: lock_step_def)
next
  case True
  note i = True
  show ?thesis
  proof (cases "c_phase (lk_calls s ! i)")
    case Calling
    then show ?thesis using ask i assms by (cases "lock_for (c_sid (lk_calls s ! i)) s") (simp add: lock_step_def)
  next
    case (Waiting l)
    then show ?thesis using enter idle i assms by (cases "lk_holder s l") (simp_all add: lock_step_def)
  next
    case (Inside l)
    show ?thesis
    proof (cases "c_prog (lk_calls s ! i)")
      case Done
      with Inside show ?thesis using exit i assms by (simp add: lock_step_def)
    next
      case (Act f)
      obtain r p where "f (lk_rows s (c_sid (lk_calls s ! i))) = (r, p)" by fastforce
      then show ?thesis using i assms by (intro act [OF i Inside Act]) (simp_all add: lock_step_def Inside Act Let_def)
    qed
  next
    case Finished
    then show ?thesis using idle i assms by (simp add: lock_step_def)
  qed
qed

lemma lock_for_map:
  assumes "lock_for sid s = (l, s')" "\<forall>sid l. lk_map s sid = Some l \<longrightarrow> l < lk_fresh s"
    "\<forall>a b l. lk_map s a = Some l \<longrightarrow> lk_map s b = Some l \<longrightarrow> a = b"
  shows "\<forall>a k. lk_map s' a = Some k \<longleftrightarrow> lk_map s a = Some k \<or> a = sid \<and> k = l"
    "\<forall>a k. lk_map s' a = Some k \<longrightarrow> k < lk_fresh s'"
    "\<forall>a b k. lk_map s' a = Some k \<longrightarrow> lk_map s' b = Some k \<longrightarrow> a = b"
proof -
  have "(\<forall>a k. lk_map s' a = Some k \<longleftrightarrow> lk_map s a = Some k \<or> a = sid \<and> k = l) \<and>
    (\<forall>a k. lk_map s' a = Some k \<longrightarrow> k < lk_fresh s') \<and>
    (\<forall>a b k. lk_map s' a = Some k \<longrightarrow> lk_map s' b = Some k \<longrightarrow> a = b)"
  proof (cases "lk_map s sid")
    case (Some k)
    with assms(1) have "k = l" "s' = s" by (simp_all add: lock_for_def)
    with Some assms(2,3) show ?thesis by (intro conjI) (fastforce, blast, blast)
  next
    case None
    with assms(1) have l: "l = lk_fresh s" and m: "lk_map s' = (lk_map s)(sid \<mapsto> l)" and f: "lk_fresh s' = Suc l"
      by (auto simp: lock_for_def)
    have old: "lk_map s a \<noteq> Some l" for a using assms(2) l by blast
    have "\<forall>a k. lk_map s' a = Some k \<longleftrightarrow> lk_map s a = Some k \<or> a = sid \<and> k = l" unfolding m using None by auto
    moreover have "\<forall>a k. lk_map s' a = Some k \<longrightarrow> k < lk_fresh s'"
      unfolding m f using assms(2) l by (auto intro: less_SucI)
    moreover have "\<forall>a b k. lk_map s' a = Some k \<longrightarrow> lk_map s' b = Some k \<longrightarrow> a = b"
      unfolding m using assms(3) old by (auto split: if_splits)
    ultimately show ?thesis by blast
  qed
  then show "\<forall>a k. lk_map s' a = Some k \<longleftrightarrow> lk_map s a = Some k \<or> a = sid \<and> k = l"
    "\<forall>a k. lk_map s' a = Some k \<longrightarrow> k < lk_fresh s'"
    "\<forall>a b k. lk_map s' a = Some k \<longrightarrow> lk_map s' b = Some k \<longrightarrow> a = b" by blast+
qed

lemma lock_struct_step:
  assumes "lock_struct cs s"
  shows "lock_struct cs (lock_step i s)"
proof -
  note inv = assms [unfolded lock_struct_def]
  have len: "length (lk_calls s) = length cs" using inv by - (erule conjE | assumption)+
  have sid: "\<forall>j < length cs. c_sid (lk_calls s ! j) = fst (cs ! j)" using inv by - (erule conjE | assumption)+
  have fresh: "\<forall>sid l. lk_map s sid = Some l \<longrightarrow> l < lk_fresh s" using inv by - (erule conjE | assumption)+
  have inj: "\<forall>a b l. lk_map s a = Some l \<longrightarrow> lk_map s b = Some l \<longrightarrow> a = b" using inv by - (erule conjE | assumption)+
  have want: "\<forall>j < length cs. \<forall>l. c_phase (lk_calls s ! j) = Waiting l \<or> c_phase (lk_calls s ! j) = Inside l \<longrightarrow>
      lk_map s (fst (cs ! j)) = Some l" using inv by - (erule conjE | assumption)+
  have hold: "\<forall>l j. lk_holder s l = Some j \<longleftrightarrow> j < length cs \<and> c_phase (lk_calls s ! j) = Inside l" using inv by - (erule conjE | assumption)+
  have prog: "\<forall>j < length cs. \<forall>l. c_phase (lk_calls s ! j) = Calling \<or> c_phase (lk_calls s ! j) = Waiting l \<longrightarrow>
      c_prog (lk_calls s ! j) = prog_of (snd (cs ! j))" using inv by - (erule conjE | assumption)+
  have dist: "distinct (lk_order s)" using inv by - (erule conjE | assumption)+
  have ord: "\<forall>j. j \<in> set (lk_order s) \<longleftrightarrow>
      j < length cs \<and> (c_phase (lk_calls s ! j) = Finished \<or> (\<exists>l. c_phase (lk_calls s ! j) = Inside l))" using inv by - (erule conjE | assumption)+
  from len show ?thesis
  proof (cases rule: lock_step_cases [of s cs i])
    case idle
    with assms show ?thesis by simp
  next
    case (ask l s')
    have calls: "lk_calls s' = lk_calls s" "lk_holder s' = lk_holder s" "lk_order s' = lk_order s"
      using ask(3) by (auto simp: lock_for_def split: option.splits)
    have n: "lk_calls (lock_step i s) ! j = (if i = j then (lk_calls s ! i)\<lparr>c_phase := Waiting l\<rparr> else lk_calls s ! j)" for j
      using ask(1) len by (simp add: ask(4) put_call_def calls nth_list_update)
    have f: "lk_map (lock_step i s) = lk_map s'" "lk_fresh (lock_step i s) = lk_fresh s'" "lk_holder (lock_step i s) = lk_holder s"
      "lk_order (lock_step i s) = lk_order s" "length (lk_calls (lock_step i s)) = length cs"
      using len by (simp_all add: ask(4) put_call_def calls)
    have c: "c_sid (lk_calls s ! i) = fst (cs ! i)" using sid ask(1) by blast
    note map = lock_for_map [OF ask(3) [unfolded c] fresh inj]
    show ?thesis
      unfolding lock_struct_def f
    proof (intro conjI, goal_cases)
      case 1 show ?case by simp
    next
      case 2 show ?case using sid by (simp add: n)
    next
      case 3 show ?case by (rule map(2))
    next
      case 4 show ?case by (rule map(3))
    next
      case 5 show ?case using want map(1) by (simp add: n)
    next
      case 6 show ?case using hold ask(2) by (auto simp: n)
    next
      case 7 show ?case using prog ask(2) by (auto simp: n)
    next
      case 8 show ?case by (rule dist)
    next
      case 9 show ?case using ord ask(2) by (auto simp: n)
    qed
  next
    case (enter l)
    have n: "lk_calls (lock_step i s) ! j = (if i = j then (lk_calls s ! i)\<lparr>c_phase := Inside l\<rparr> else lk_calls s ! j)" for j
      using enter(1) len by (simp add: enter(4) put_call_def nth_list_update)
    have f: "lk_map (lock_step i s) = lk_map s" "lk_fresh (lock_step i s) = lk_fresh s"
      "lk_holder (lock_step i s) = (lk_holder s)(l \<mapsto> i)" "lk_order (lock_step i s) = lk_order s @ [i]"
      "length (lk_calls (lock_step i s)) = length cs"
      using len by (simp_all add: enter(4) put_call_def)
    have free: "\<forall>j < length cs. c_phase (lk_calls s ! j) \<noteq> Inside l" using hold enter(3) by (metis option.distinct(1))
    show ?thesis
      unfolding lock_struct_def f
    proof (intro conjI, goal_cases)
      case 1 show ?case by simp
    next
      case 2 show ?case using sid by (simp add: n)
    next
      case 3 show ?case by (rule fresh)
    next
      case 4 show ?case by (rule inj)
    next
      case 5 show ?case using want enter(1,2) by (auto simp: n)
    next
      case 6 show ?case using hold enter(1,2) free by (auto simp: n)
    next
      case 7 show ?case using prog by (simp add: n)
    next
      case 8 show ?case using dist ord enter(2) by simp
    next
      case 9 show ?case using ord enter(1) by (auto simp: n)
    qed
  next
    case (exit l)
    have n: "lk_calls (lock_step i s) ! j = (if i = j then (lk_calls s ! i)\<lparr>c_phase := Finished\<rparr> else lk_calls s ! j)" for j
      using exit(1) len by (simp add: exit(4) put_call_def nth_list_update)
    have f: "lk_map (lock_step i s) = lk_map s" "lk_fresh (lock_step i s) = lk_fresh s"
      "lk_holder (lock_step i s) = (lk_holder s)(l := None)" "lk_order (lock_step i s) = lk_order s"
      "length (lk_calls (lock_step i s)) = length cs"
      using len by (simp_all add: exit(4) put_call_def)
    have "lk_holder s l = Some i" using hold exit(1,2) by blast
    then have own: "j < length cs \<Longrightarrow> c_phase (lk_calls s ! j) = Inside l \<Longrightarrow> j = i" for j
      using hold [rule_format, of l j] by simp
    show ?thesis
      unfolding lock_struct_def f
    proof (intro conjI, goal_cases)
      case 1 show ?case by simp
    next
      case 2 show ?case using sid by (simp add: n)
    next
      case 3 show ?case by (rule fresh)
    next
      case 4 show ?case by (rule inj)
    next
      case 5 show ?case using want by (auto simp: n)
    next
      case 6
      show ?case
      proof (intro allI)
        fix k j
        show "((lk_holder s)(l := None)) k = Some j \<longleftrightarrow> j < length cs \<and> c_phase (lk_calls (lock_step i s) ! j) = Inside k"
        proof (cases "j = i")
          case True
          then show ?thesis using hold [rule_format, of k i] exit(2) by (simp add: n)
        next
          case False
          then show ?thesis using hold [rule_format, of k j] own [of j] by (cases "k = l") (simp add: n, blast, simp add: n)
        qed
      qed
    next
      case 7
      show ?case
      proof (intro allI impI)
        fix j k
        assume j: "j < length cs" "c_phase (lk_calls (lock_step i s) ! j) = Calling \<or> c_phase (lk_calls (lock_step i s) ! j) = Waiting k"
        then have "j \<noteq> i" by (cases "j = i") (simp_all add: n)
        with j prog [rule_format, of j k] show "c_prog (lk_calls (lock_step i s) ! j) = prog_of (snd (cs ! j))" by (simp add: n)
      qed
    next
      case 8 show ?case by (rule dist)
    next
      case 9
      show ?case
      proof
        fix j
        show "j \<in> set (lk_order s) \<longleftrightarrow> j < length cs \<and> (c_phase (lk_calls (lock_step i s) ! j) = Finished \<or>
            (\<exists>l. c_phase (lk_calls (lock_step i s) ! j) = Inside l))"
          using ord [rule_format, of j] exit(1,2) by (cases "j = i") (simp_all add: n)
      qed
    qed
  next
    case (act l f r p)
    have n: "lk_calls (lock_step i s) ! j = (if i = j then (lk_calls s ! i)\<lparr>c_prog := p\<rparr> else lk_calls s ! j)" for j
      using act(1) len by (simp add: act(5) put_call_def nth_list_update)
    have f: "lk_map (lock_step i s) = lk_map s" "lk_fresh (lock_step i s) = lk_fresh s"
      "lk_holder (lock_step i s) = lk_holder s" "lk_order (lock_step i s) = lk_order s"
      "length (lk_calls (lock_step i s)) = length cs"
      using len by (simp_all add: act(5) put_call_def)
    have ph: "c_phase (lk_calls (lock_step i s) ! j) = c_phase (lk_calls s ! j)" for j by (simp add: n)
    show ?thesis
      unfolding lock_struct_def f ph
    proof (intro conjI, goal_cases)
      case 1 show ?case by simp
    next
      case 2 show ?case using sid by (simp add: n)
    next
      case 3 show ?case by (rule fresh)
    next
      case 4 show ?case by (rule inj)
    next
      case 5 show ?case by (rule want)
    next
      case 6 show ?case by (rule hold)
    next
      case 7 show ?case using prog act(2) by (auto simp: n)
    next
      case 8 show ?case by (rule dist)
    next
      case 9 show ?case by (rule ord)
    qed
  qed
qed

section \<open>One after the other\<close>

text \<open>What the call that holds the lock of a session has still to do.\<close>

definition pending :: "lock_st \<Rightarrow> string \<Rightarrow> row_prog" where
  "pending s sid =
     (case lk_map s sid of
        None \<Rightarrow> Done
      | Some l \<Rightarrow> (case lk_holder s l of None \<Rightarrow> Done | Some i \<Rightarrow> c_prog (lk_calls s ! i)))"

definition in_order :: "(string \<times> locked_call) list \<Rightarrow> nat list \<Rightarrow> string \<Rightarrow> session option \<Rightarrow> session option" where
  "in_order cs order sid r = fold (\<lambda>i. run_prog (prog_of (snd (cs ! i)))) (filter (\<lambda>i. fst (cs ! i) = sid) order) r"

text \<open>A block that stays on the lifecycle from a row on, and never touches another row's identity.\<close>

definition row_move :: "session option \<Rightarrow> session option \<Rightarrow> bool" where
  "row_move r r' \<longleftrightarrow> r' = r \<or> (\<exists>s s'. r = Some s \<and> r' = Some s' \<and> lifecycle (s_status s) (s_status s') \<and> row_fixed s s')"

primrec safe_prog :: "row_prog \<Rightarrow> session option \<Rightarrow> bool" where
  "safe_prog Done = (\<lambda>r. True)"
| "safe_prog (Act f) = (\<lambda>r. case map_prod id safe_prog (f r) of (r', k) \<Rightarrow> row_move r r' \<and> k r')"

definition lock_inv :: "(string \<times> locked_call) list \<Rightarrow> (string \<Rightarrow> session option) \<Rightarrow> lock_st \<Rightarrow> bool" where
  "lock_inv cs rows s \<longleftrightarrow> lock_struct cs s \<and>
     (\<forall>sid. run_prog (pending s sid) (lk_rows s sid) = in_order cs (lk_order s) sid (rows sid) \<and>
        safe_prog (pending s sid) (lk_rows s sid) \<and> row_move\<^sup>*\<^sup>* (rows sid) (lk_rows s sid))"

lemma safe_move: "(\<And>s. safe_prog p (Some s)) \<Longrightarrow> safe_prog (move_prog ts new p) r"
  by (auto simp: move_prog_def row_move_def transitions_lifecycle row_fixed_def split: option.splits)

lemma safe_blocks: "safe_prog (prog_of x) r"
proof -
  have Done: "safe_prog (move_prog ts new Done) r" for ts new and r by (rule safe_move) simp
  have destroy: "safe_prog (destroy_locked_prog ts ts') r" for ts ts' and r
    unfolding destroy_locked_prog_def by (rule safe_move) (rule Done)
  show ?thesis
    by (cases x) (auto simp: stop_prog_def resume_prog_def destroy_prog_def reap_stop_prog_def reap_destroy_prog_def row_move_def
        Done destroy split: option.splits)
qed

lemma pending_holder:
  assumes "lock_struct cs s" "i < length cs" "c_phase (lk_calls s ! i) = Inside l"
  shows "pending s (fst (cs ! i)) = c_prog (lk_calls s ! i)" "lk_map s (fst (cs ! i)) = Some l" "lk_holder s l = Some i"
proof -
  show m: "lk_map s (fst (cs ! i)) = Some l" and h: "lk_holder s l = Some i"
    using assms unfolding lock_struct_def by metis+
  show "pending s (fst (cs ! i)) = c_prog (lk_calls s ! i)" by (simp add: pending_def m h)
qed

lemma lock_inv_step:
  assumes "lock_inv cs rows s"
  shows "lock_inv cs rows (lock_step i s)"
proof -
  have st: "lock_struct cs s" using assms by (simp add: lock_inv_def)
  have inv: "run_prog (pending s sid) (lk_rows s sid) = in_order cs (lk_order s) sid (rows sid)"
    "safe_prog (pending s sid) (lk_rows s sid)" "row_move\<^sup>*\<^sup>* (rows sid) (lk_rows s sid)" for sid
    using assms by (simp_all add: lock_inv_def)
  have len: "length (lk_calls s) = length cs" and sids: "\<And>j. j < length cs \<Longrightarrow> c_sid (lk_calls s ! j) = fst (cs ! j)"
    using st by (simp_all add: lock_struct_def)
  have st': "lock_struct cs (lock_step i s)" by (rule lock_struct_step [OF st])
  have inj: "lk_map s a = Some l \<Longrightarrow> lk_map s b = Some l \<Longrightarrow> a = b" for a b l using st by (simp add: lock_struct_def)
  from len show ?thesis
  proof (cases rule: lock_step_cases [of s cs i])
    case idle
    with assms show ?thesis by simp
  next
    case (ask l s')
    have same: "lk_rows (lock_step i s) = lk_rows s" "lk_order (lock_step i s) = lk_order s"
      using ask(3) by (auto simp: ask(4) put_call_def lock_for_def split: option.splits)
    have "pending (lock_step i s) sid = pending s sid" for sid
    proof -
      have free: "lk_holder s (lk_fresh s) = None"
      proof (rule ccontr)
        assume "lk_holder s (lk_fresh s) \<noteq> None"
        then obtain j where "lk_holder s (lk_fresh s) = Some j" by blast
        then have "j < length cs" "c_phase (lk_calls s ! j) = Inside (lk_fresh s)" using st by (simp_all add: lock_struct_def)
        from pending_holder(2) [OF st this] show False using st unfolding lock_struct_def by (metis less_irrefl)
      qed
      have prog: "c_prog ((lk_calls s)[i := (lk_calls s ! i)\<lparr>c_phase := p\<rparr>] ! j) = c_prog (lk_calls s ! j)" for j p
        by (cases "j = i"; cases "i < length (lk_calls s)") (simp_all add: list_update_beyond)
      have holder: "lk_holder s' = lk_holder s" and calls: "lk_calls s' = lk_calls s"
        using ask(3) by (auto simp: lock_for_def split: option.splits)
      consider "lk_map s' sid = lk_map s sid" | "lk_map s sid = None" "lk_map s' sid = Some (lk_fresh s)"
        using ask(3) by (cases "lk_map s (c_sid (lk_calls s ! i))"; cases "sid = c_sid (lk_calls s ! i)")
          (auto simp: lock_for_def)
      then show ?thesis
      proof cases
        case 1
        then show ?thesis by (simp add: ask(4) put_call_def pending_def holder calls prog split: option.splits)
      next
        case 2
        with free show ?thesis by (simp add: ask(4) put_call_def pending_def holder)
      qed
    qed
    with inv st' show ?thesis by (simp add: lock_inv_def same)
  next
    case (enter l)
    let ?sid = "fst (cs ! i)"
    have m: "lk_map s ?sid = Some l" using st enter(1,2) by (simp add: lock_struct_def)
    have p: "c_prog (lk_calls s ! i) = prog_of (snd (cs ! i))" using st enter(1,2) by (simp add: lock_struct_def)
    have before: "pending s ?sid = Done" by (simp add: pending_def m enter(3))
    have after: "pending (lock_step i s) ?sid = prog_of (snd (cs ! i))"
      using enter(1) len by (simp add: enter(4) put_call_def pending_def m p)
    have other: "pending (lock_step i s) sid = pending s sid" if "sid \<noteq> ?sid" for sid
    proof -
      have "lk_map s sid \<noteq> Some l" using inj [OF m] that by blast
      moreover have "c_prog ((lk_calls s)[i := (lk_calls s ! i)\<lparr>c_phase := Inside l\<rparr>] ! j) = c_prog (lk_calls s ! j)" for j
        by (cases "j = i"; cases "i < length (lk_calls s)") (simp_all add: list_update_beyond)
      ultimately show ?thesis by (auto simp: enter(4) put_call_def pending_def split: option.splits)
    qed
    have rows: "lk_rows (lock_step i s) = lk_rows s" "lk_order (lock_step i s) = lk_order s @ [i]"
      by (simp_all add: enter(4) put_call_def)
    have "run_prog (pending (lock_step i s) sid) (lk_rows s sid) = in_order cs (lk_order s @ [i]) sid (rows sid) \<and>
        safe_prog (pending (lock_step i s) sid) (lk_rows s sid)" for sid
      using inv [of sid] before after other [of sid] safe_blocks by (cases "sid = ?sid") (auto simp: in_order_def)
    with inv(3) st' show ?thesis by (simp add: lock_inv_def rows)
  next
    case (exit l)
    let ?sid = "fst (cs ! i)"
    note h = pending_holder [OF st exit(1,2)]
    have "pending (lock_step i s) sid = pending s sid" for sid
    proof (cases "lk_map s sid = Some l")
      case True
      then have "sid = ?sid" using inj h(2) by blast
      with h exit(3) show ?thesis by (simp add: exit(4) put_call_def pending_def)
    next
      case False
      moreover have "c_prog ((lk_calls s)[i := (lk_calls s ! i)\<lparr>c_phase := Finished\<rparr>] ! j) = c_prog (lk_calls s ! j)" for j
        by (cases "j = i"; cases "i < length (lk_calls s)") (simp_all add: list_update_beyond)
      ultimately show ?thesis by (auto simp: exit(4) put_call_def pending_def split: option.splits)
    qed
    moreover have "lk_rows (lock_step i s) = lk_rows s" "lk_order (lock_step i s) = lk_order s"
      by (simp_all add: exit(4) put_call_def)
    ultimately show ?thesis using inv st' by (simp add: lock_inv_def)
  next
    case (act l f r p)
    let ?sid = "fst (cs ! i)"
    note h = pending_holder [OF st act(1,2)]
    have f: "f (lk_rows s ?sid) = (r, p)" using act(4) sids [OF act(1)] by simp
    have rows: "lk_rows (lock_step i s) = (lk_rows s)(?sid := r)" "lk_order (lock_step i s) = lk_order s"
      using sids [OF act(1)] by (simp_all add: act(5) put_call_def)
    have after: "pending (lock_step i s) ?sid = p"
      using h act(1) len by (simp add: act(5) put_call_def pending_def)
    have other: "pending (lock_step i s) sid = pending s sid" if "sid \<noteq> ?sid" for sid
    proof -
      have "lk_holder s k \<noteq> Some i" if k: "lk_map s sid = Some k" for k
      proof
        assume "lk_holder s k = Some i"
        then have "c_phase (lk_calls s ! i) = Inside k" using st unfolding lock_struct_def by blast
        then have "k = l" using act(2) by simp
        then show False using inj [OF k] h(2) \<open>sid \<noteq> ?sid\<close> by blast
      qed
      then show ?thesis by (auto simp: act(5) put_call_def pending_def split: option.splits)
    qed
    have "run_prog (pending (lock_step i s) sid) (lk_rows (lock_step i s) sid) = in_order cs (lk_order s) sid (rows sid) \<and>
        safe_prog (pending (lock_step i s) sid) (lk_rows (lock_step i s) sid) \<and>
        row_move\<^sup>*\<^sup>* (rows sid) (lk_rows (lock_step i s) sid)" for sid
    proof (cases "sid = ?sid")
      case True
      have "run_prog p r = in_order cs (lk_order s) ?sid (rows ?sid)" using inv(1) [of ?sid] h(1) f by (simp add: act(3))
      moreover have "row_move (lk_rows s ?sid) r" "safe_prog p r" using inv(2) [of ?sid] h(1) f by (simp_all add: act(3))
      moreover have "row_move\<^sup>*\<^sup>* (rows ?sid) r"
        using inv(3) [of ?sid] calculation(2) by (rule rtranclp.rtrancl_into_rtrancl)
      ultimately show ?thesis unfolding True rows after by simp
    qed (use inv other in \<open>simp add: rows\<close>)
    with st' show ?thesis by (simp add: lock_inv_def rows(2))
  qed
qed

lemma lock_inv_run: "lock_inv cs rows (lock_run sched (lock_start cs rows))"
proof -
  have "lock_inv cs rows (lock_start cs rows)"
    using lock_struct_start by (simp add: lock_inv_def pending_def lock_start_def in_order_def)
  then have "lock_inv cs rows (lock_run sched s)" if "s = lock_start cs rows" for s
    unfolding that lock_run_def by (induction sched rule: rev_induct) (simp_all add: lock_inv_step)
  then show ?thesis by simp
qed

section \<open>The blocks are those of the handlers\<close>

lemma run_move:
  "run_prog (move_prog ts new p) r =
    (case r of None \<Rightarrow> None
     | Some s \<Rightarrow> if new \<in> set (transitions (s_status s)) then run_prog p (Some (with_status ts new s)) else r)"
  by (auto simp: move_prog_def split: option.splits)

lemma visible_row: "sessions_wf t \<Longrightarrow> visible tenant (get_unscoped sid t) = get_session sid tenant t"
proof (cases "get_session sid tenant t")
  case (Some r)
  assume wf: "sessions_wf t"
  from get_session_unscoped [OF wf Some] get_session_found [OF Some] Some show ?thesis by (simp add: visible_def)
next
  case None
  assume "sessions_wf t"
  with None show ?thesis by (auto simp: visible_def split: option.splits dest!: get_session_of)
qed

text \<open>
  Run without interruption, a block takes the row to the status in which the handler leaves it; the handlers are
  those of \<open>Sessions\<close>, and \<open>ok\<close> is whether the call went through.
\<close>

definition status_in :: "string \<Rightarrow> 'x world \<Rightarrow> status option" where
  "status_in sid w = map_option s_status (get_unscoped sid (w_sess w))"

lemma switch_guard:
  assumes "thenM precheck (bindM (get_row sid tenant) (\<lambda>row.
     if \<not> ok (s_status row) then raise InvalidState
     else bindM (assert_some (s_container row)) (\<lambda>cid. switch E (m cid) sid tenant st ev))) w = (Inr x, w')"
  shows "\<exists>r cid. get_session sid tenant (w_sess w) = Some r \<and> ok (s_status r) \<and> s_container r = Some cid"
  using assms by (auto elim!: thenM_InrE bindM_InrE simp: get_row_run assert_some_run precheck_run split: if_splits option.splits)

lemma stop_block:
  assumes "stop_session E sid tenant w = (q, w')" "sessions_wf (w_sess w)"
  shows "status_in sid w' = map_option s_status (run_prog (stop_prog ts tenant (\<exists>x. q = Inr x)) (get_unscoped sid (w_sess w)))"
proof -
  have legal: "live a \<Longrightarrow> lifecycle a STOPPED" for a by (auto simp: live_def intro: lifecycle.intros)
  note g = guarded_switch [where ok = live, OF assms(1) [unfolded stop_session_switch] assms(2) _ legal]
  show ?thesis
  proof (cases q)
    case (Inl e)
    with g have "w_sess w' = w_sess w" by simp
    with Inl show ?thesis by (simp add: status_in_def stop_prog_def split: option.splits)
  next
    case (Inr x)
    from switch_guard [where ok = live, OF assms(1) [unfolded stop_session_switch Inr]]
    obtain r cid where r: "get_session sid tenant (w_sess w) = Some r" "live (s_status r)" "s_container r = Some cid" by blast
    from Inr g have "status_in sid w' = Some STOPPED" by (simp add: status_in_def)
    moreover note u = get_session_unscoped [OF assms(2) r(1)]
    moreover have "visible tenant (Some r) = Some r" using visible_row [OF assms(2), of tenant sid] r(1) u by simp
    ultimately show ?thesis using r Inr legal [OF r(2)] by (simp add: stop_prog_def run_move transitions_lifecycle)
  qed
qed

lemma resume_block:
  assumes "resume_session E sid tenant w = (q, w')" "sessions_wf (w_sess w)"
  shows "status_in sid w' = map_option s_status (run_prog (resume_prog ts tenant (\<exists>x. q = Inr x)) (get_unscoped sid (w_sess w)))"
proof -
  let ?ok = "\<lambda>st. st \<in> {STOPPED, IDLE}"
  have legal: "?ok a \<Longrightarrow> lifecycle a RUNNING" for a by (auto intro: lifecycle.intros)
  note g = guarded_switch [where ok = ?ok, OF assms(1) [unfolded resume_session_switch] assms(2) _ legal]
  show ?thesis
  proof (cases q)
    case (Inl e)
    with g have "w_sess w' = w_sess w" by simp
    with Inl show ?thesis by (simp add: status_in_def resume_prog_def split: option.splits)
  next
    case (Inr x)
    from switch_guard [where ok = ?ok, OF assms(1) [unfolded resume_session_switch Inr]]
    obtain r cid where r: "get_session sid tenant (w_sess w) = Some r" "?ok (s_status r)" "s_container r = Some cid" by blast
    from Inr g have "status_in sid w' = Some RUNNING" by (simp add: status_in_def)
    moreover note u = get_session_unscoped [OF assms(2) r(1)]
    moreover have "visible tenant (Some r) = Some r" using visible_row [OF assms(2), of tenant sid] r(1) u by simp
    ultimately show ?thesis using r Inr legal [OF r(2)] by (simp add: resume_prog_def run_move transitions_lifecycle)
  qed
qed

lemma destroy_row_prog:
  "run_prog (destroy_locked_prog ts ts') (Some s) =
    (if terminal (s_status s) then Some s else Some (with_status ts' DESTROYED (with_status ts DESTROYING s)))"
  by (auto simp: destroy_locked_prog_def run_move transitions_lifecycle lifecycle_simps)

lemma destroy_block:
  assumes "destroy_session E hook sid tenant w = (q, w')" "sess_safe hook" "sessions_wf (w_sess w)" "is_healthy w"
  shows "status_in sid w' = map_option s_status (run_prog (destroy_prog ts ts' tenant) (get_unscoped sid (w_sess w)))"
proof (cases "get_session sid tenant (w_sess w)")
  case None
  with destroy_session_run [OF assms(1-3)] assms(4) show ?thesis
    by (simp add: status_in_def destroy_prog_def visible_row [OF assms(3)])
next
  case (Some r)
  note u = get_session_unscoped [OF assms(3) Some] get_session_found [OF Some]
  have vis: "visible tenant (Some r) = Some r" using visible_row [OF assms(3), of tenant sid] Some u by simp
  show ?thesis
  proof (cases "s_status r = DESTROYING")
    case True
    with destroy_session_run [OF assms(1-3)] assms(4) Some u show ?thesis
      by (simp add: status_in_def destroy_prog_def vis destroy_row_prog)
  next
    case False
    with destroy_session_run [OF assms(1-3)] assms(4) Some have "moved_to sid DESTROYED (w_sess w) (w_sess w')" by simp
    then have "status_in sid w' = Some DESTROYED" by (auto simp: moved_to_def status_in_def)
    with False u Some show ?thesis
      by (simp add: destroy_prog_def vis destroy_row_prog terminal_def)
  qed
qed

lemma reap_destroy_block:
  assumes "reap_destroy E hook row reason w = (q, w')" "sess_safe hook" "s_id row = sid"
  shows "status_in sid w' = map_option s_status (run_prog (reap_destroy_prog ts ts') (get_unscoped sid (w_sess w)))"
proof (cases "get_unscoped sid (w_sess w)")
  case None
  with assms(1,3) have "w' = w" by (simp add: reap_destroy_def r_get_unscoped_def bindM_def)
  with None show ?thesis by (simp add: status_in_def reap_destroy_prog_def)
next
  case (Some c)
  then have id: "s_id c = sid" by (rule get_unscoped_id)
  show ?thesis
  proof (cases "terminal (s_status c)")
    case True
    with assms(1,3) Some have "w' = w" by (simp add: reap_destroy_def r_get_unscoped_def bindM_def)
    with Some True show ?thesis by (simp add: status_in_def reap_destroy_prog_def)
  next
    case False
    with assms(1,3) Some have "destroy_locked E hook c reason w = (q, w')"
      by (simp add: reap_destroy_def r_get_unscoped_def bindM_def)
    from destroy_locked_run [OF this assms(2)] False Some id have "moved_to sid DESTROYED (w_sess w) (w_sess w')" by simp
    then have "status_in sid w' = Some DESTROYED" by (auto simp: moved_to_def status_in_def)
    with False Some show ?thesis by (simp add: reap_destroy_prog_def destroy_row_prog)
  qed
qed

section \<open>Properties\<close>

definition is_inside :: "phase \<Rightarrow> bool" where
  "is_inside p \<longleftrightarrow> (case p of Inside l \<Rightarrow> True | _ \<Rightarrow> False)"

text \<open>A call that waits can go on when nobody holds its lock.\<close>

definition can_move :: "lock_st \<Rightarrow> nat \<Rightarrow> bool" where
  "can_move s i \<longleftrightarrow> (case c_phase (lk_calls s ! i) of Waiting l \<Rightarrow> lk_holder s l = None | Finished \<Rightarrow> False | _ \<Rightarrow> True)"

lemma at_most_one:
  assumes "distinct xs" "\<And>i j. i \<in> set xs \<Longrightarrow> j \<in> set xs \<Longrightarrow> i = j"
  shows "length xs \<le> 1"
proof (rule ccontr)
  assume "\<not> length xs \<le> 1"
  then obtain a b ys where xs: "xs = a # b # ys" by (cases xs; cases "tl xs") simp_all
  with assms(2) [of a b] assms(1) show False by simp
qed

lemma one_inside:
  assumes "lock_struct cs s"
  shows "length (filter (\<lambda>i. fst (cs ! i) = sid \<and> is_inside (c_phase (lk_calls s ! i))) [0..<length cs]) \<le> 1"
proof -
  let ?P = "\<lambda>i. fst (cs ! i) = sid \<and> is_inside (c_phase (lk_calls s ! i))"
  have "i = j" if P: "?P i" "?P j" "i < length cs" "j < length cs" for i j
  proof -
    obtain k l where kl: "c_phase (lk_calls s ! i) = Inside k" "c_phase (lk_calls s ! j) = Inside l"
      using P(1,2) by (auto simp: is_inside_def split: phase.splits)
    note h = pending_holder [OF assms P(3) kl(1)] pending_holder [OF assms P(4) kl(2)]
    from h(2,5) P(1,2) have "k = l" by simp
    with h(3,6) show ?thesis by simp
  qed
  then show ?thesis by (intro at_most_one) (simp_all only: set_filter mem_Collect_eq distinct_filter distinct_upt atLeastLessThan_iff set_upt)
qed

lemma somebody_moves:
  assumes "lock_struct cs s"
  shows "list_all (\<lambda>c. c_phase c = Finished) (lk_calls s) \<or> list_ex (can_move s) [0..<length cs]"
proof (cases "list_all (\<lambda>c. c_phase c = Finished) (lk_calls s)")
  case False
  have len: "length (lk_calls s) = length cs" using assms by (simp add: lock_struct_def)
  from False obtain i where i: "i < length cs" "c_phase (lk_calls s ! i) \<noteq> Finished"
    unfolding list_all_length len by blast
  have "\<exists>j < length cs. can_move s j"
  proof (cases "can_move s i")
    case False
    with i(2) obtain l j where "lk_holder s l = Some j"
      by (auto simp: can_move_def split: phase.splits)
    then have "j < length cs" "c_phase (lk_calls s ! j) = Inside l" using assms by (simp_all add: lock_struct_def)
    then show ?thesis by (auto simp: can_move_def)
  qed (use i(1) in blast)
  then show ?thesis by (auto simp: list_ex_iff)
qed simp

text \<open>
  C10: what the lock of a session is for. Whatever calls of \<open>stop\<close>, \<open>resume\<close>, \<open>destroy\<close> and the reaper run at the
  same time, for the same and for other sessions, and however they interleave at their awaits: at most one is
  inside the block of a session; if the one inside finishes its block, the row is what the calls give when
  they run one after the other in the order in which they entered, each once; the row only ever moves along
  the lifecycle; and there is no deadlock, somebody can move until all calls have left.
\<close>

theorem locked_calls_serialize:
  "let s = lock_run sched (lock_start cs rows) in
     length (filter (\<lambda>i. fst (cs ! i) = sid \<and> is_inside (c_phase (lk_calls s ! i))) [0..<length cs]) \<le> 1 \<and>
     run_prog (pending s sid) (lk_rows s sid) = in_order cs (lk_order s) sid (rows sid) \<and> distinct (lk_order s) \<and>
     row_move\<^sup>*\<^sup>* (rows sid) (lk_rows s sid) \<and>
     (if list_all (\<lambda>c. c_phase c = Finished) (lk_calls s) then True else list_ex (can_move s) [0..<length cs])"
proof -
  define s where "s = lock_run sched (lock_start cs rows)"
  have inv: "lock_inv cs rows s" unfolding s_def by (rule lock_inv_run)
  then have st: "lock_struct cs s" by (simp add: lock_inv_def)
  have d: "distinct (lk_order s)" using st by (simp add: lock_struct_def)
  have "run_prog (pending s sid) (lk_rows s sid) = in_order cs (lk_order s) sid (rows sid)" "row_move\<^sup>*\<^sup>* (rows sid) (lk_rows s sid)"
    using inv by (simp_all add: lock_inv_def)
  moreover have "if list_all (\<lambda>c. c_phase c = Finished) (lk_calls s) then True else list_ex (can_move s) [0..<length cs]"
    using somebody_moves [OF st] by auto
  ultimately show ?thesis unfolding Let_def s_def [symmetric] using one_inside [OF st] d by blast
qed

end
