(* ===== verification/Spec2Isabelle.thy ===== *)
theory Spec2Isabelle
  imports Interleaving FailClosed Capacity TenantCli HttpStack SqlRows SessionLocks
begin

text \<open>
  A verification library for the control plane of the sandbox service (Python, \<open>src/api\<close>): an HTTP and
  MCP server that gives each tenant long-lived hardened containers, keeps its records in SQLite and
  writes an audit log that fails closed.

  \<^bold>\<open>The program and how it is modelled\<close>

  The service keeps five tables (\<open>api/registry.py\<close>), an audit emitter (\<open>api/audit.py\<close>) and, for each request,
  runs a handler that talks to the Docker daemon (\<open>api/docker_client.py\<close>). A state is the record \<open>world\<close>
  of \<open>World\<close>: the tables, the emitter, and the outside. A method is a function on it in the exception
  monad \<open>('x, 'a) W\<close> of \<open>Prelude\<close>, \<open>Inl e\<close> for a raised exception; the state changes made before a raise
  stay, as in Python. Everything that is not in the repository is a field of the record \<open>ctx\<close>
  (\<open>Outside\<close>): the operations of the Docker SDK, the clocks, the ULID and secret generators, the keyed
  hash, the writes of the audit file, the operator's scripts. No property assumes anything of them
  unless it says so; \<open>Testbed\<close> has one instance on which the examples run.

  \<^bold>\<open>Theories\<close>, from the bottom:

  \<^item> \<open>Prelude\<close>, \<open>TextLib\<close>: the monad, its Hoare-style predicates \<open>keeps\<close> and \<open>yields\<close> with their rule collection,
    tables as lists of rows with keys, strings, decimal numbers, base64.
  \<^item> \<open>Json\<close>: \<open>json.dumps\<close> and \<open>json.loads\<close> of Python on UTF-8 texts, escapes and surrogate pairs included, and that
    the second undoes the first.
  \<^item> \<open>Errors\<close> (\<open>errors.py\<close>, exception handlers of \<open>server.py\<close>), \<open>Models\<close> (\<open>models.py\<close>, \<open>config.py\<close>).
  \<^item> \<open>Schema\<close>, \<open>RegSessions\<close>, \<open>RegTenants\<close>, \<open>RegProcesses\<close>, \<open>RegIdempotency\<close> (\<open>registry.py\<close>): one definition per SQL
    method. The interfaces \<open>session_store\<close>, \<open>token_store\<close> and \<open>replay_cache\<close> state what clients rely on
    and are interpreted on these definitions. Shown: the lifecycle of a session along any sequence of
    calls, unique keys, the additive migration.
  \<^item> \<open>SqlRows\<close> (\<open>registry.py\<close>): the same tables one level down, as rows of cells with JSON columns, the SQL statements of
    the methods and the functions that read rows. Shown: the statements implement the typed definitions, and
    rows of earlier schema versions are read as before.
  \<^item> \<open>Paths\<close>, \<open>IsoTime\<close>, \<open>Docker\<close> (\<open>files.py\<close>, \<open>processes.py\<close>, \<open>docker_client.py\<close>): path validation against an
    abstract walk, time stamps, every method of \<open>DockerClient\<close>; hardening flags, the cap on captured
    output, quoting of the supervised command.
  \<^item> \<open>World\<close>, \<open>AuditLog\<close> (\<open>audit.py\<close>): registry calls as effects; the emitter with buffer and fallback file,
    and the interface \<open>audit_sink\<close> of the services. Shown: no record is lost or reordered.
  \<^item> \<open>Sessions\<close>, \<open>SessionResults\<close> (\<open>sessions.py\<close>, \<open>quota.py\<close>), \<open>Auth\<close> (\<open>auth.py\<close>), \<open>Exec\<close> (\<open>exec.py\<close>), \<open>Files\<close>
    (\<open>files.py\<close>), \<open>Processes\<close> (\<open>processes.py\<close>): the services, each operation on every branch, with the
    audit record and the table it leaves.
  \<^item> \<open>Reapers\<close> (\<open>reaper.py\<close>, \<open>orphan_reaper.py\<close>, \<open>sampler.py\<close>): the ticks, and the loop around them as the
    interface \<open>periodic\<close>, interpreted on the three ticks.
  \<^item> \<open>Idempotency\<close> (\<open>idempotency.py\<close>): the middleware, and the interleavings of requests with one key as a
    step relation.
  \<^item> \<open>Server\<close> (\<open>server.py\<close>), \<open>Mcp\<close> (\<open>mcp_server.py\<close>): one definition per route and per tool, the guards in
    front of them, the start-up sequence.
  \<^item> \<open>Tenancy\<close>: tenant isolation over all routes and tools, guards, deletion of a tenant.
  \<^item> \<open>FailClosed\<close>: while the audit log is down, every route that leaves a record is refused and changes nothing.
  \<^item> \<open>System\<close>: requests, tool calls, ticks and restarts (which lose what the process kept in memory) as
    steps of one transition system and the invariants of the states it reaches.
  \<^item> \<open>Requests\<close>: the constraints of the request models (\<open>models.py\<close>), as the predicates \<open>route_ok\<close> and \<open>tool_ok\<close>.
  \<^item> \<open>History\<close>: runs as lists of actions: the life of one session, the growth of the audit log, the
    types of the stored sessions, along every run.
  \<^item> \<open>Interleaving\<close>: what happens between the statements of \<open>create\<close> and of \<open>transition\<close> when handlers overlap.
  \<^item> \<open>SessionLocks\<close> (\<open>sessions.py\<close>): the table of per-session locks and the blocks of \<open>stop\<close>, \<open>resume\<close>, \<open>destroy\<close> and the reaper
    under them, interleaved at every await. Shown: the blocks of one session run as if one after the other, without
    deadlock; and each block moves the row as the handler of \<open>Sessions\<close> does.
  \<^item> \<open>Wire\<close> (\<open>audit.py\<close>, \<open>server.py\<close>): the bytes of the audit file and of the event streams. Shown: a reader of either
    gets back exactly the records and events, and from a torn end only a prefix of them.
  \<^item> \<open>HttpStack\<close> (\<open>server.py\<close>, \<open>metrics.py\<close>): the table of endpoints and the middlewares in their order. Shown: a request
    through the stack is a run of \<open>System\<close> with at most one execution, a retry is replayed whatever happened in
    between, and what the instruments of the requests count.
  \<^item> \<open>OpenApi\<close> (\<open>_install_openapi_polish\<close>, \<open>tools/dump_openapi.py\<close>), \<open>TenantCli\<close> (\<open>tools/sandbox_tenants.py\<close>),
    \<open>Capacity\<close> (\<open>tools/sandbox_capacity_calc.py\<close>): what stands beside the service. The sizing computes with rational
    numbers rounded after each operation, for any rounding that keeps order.

  \<^bold>\<open>Atomicity\<close>

  In the theories up to \<open>System\<close> a handler is one sequence of effects. \<open>SessionLocks\<close> shows that the lock of
  \<open>SessionService\<close> makes that true of the rows that stop, resume, destroy and the reaper move, and
  \<open>Interleaving\<close> that moves of different sessions cannot disturb each other. Where the
  program has no lock (admission in \<open>create\<close>, waking a session up in \<open>exec\<close> and the file service) it states
  what can go wrong and how far.

  \<^bold>\<open>Bounds and fuel\<close>

  Recursion is structural but for the polling loops of \<open>Processes\<close>, which take fuel; \<open>polling_ends\<close> shows
  that 21 rounds are enough for the pid file and five per second of grace plus one for the death of a
  process, when the monotonic clock advances by what is slept. \<open>serve\<close> and \<open>run_tool\<close> hand the fuel on.
  The event generators (\<open>run_stream\<close>, \<open>log_events\<close>) are functions of how many events the consumer asks for.
  Times are unbounded integers in milliseconds, as in Python. Text is a list of bytes, that of its UTF-8 form;
  \<open>decode_replace\<close> of \<open>TextLib\<close> is decoding with \<open>errors="replace"\<close>, after the output caps have counted bytes.

  \<^bold>\<open>Not modelled\<close>

  \<^item> The Prometheus instruments of the services and log messages: nothing reads them. The text of error messages.
  \<^item> FastAPI, Starlette and FastMCP: routing, parsing of requests, the generator of the OpenAPI document; a
    request arrives here as a value of \<open>route\<close> or \<open>tool\<close>.
  \<^item> The parsing of command lines, and what the tenant command prints.
  \<^item> SQLite below the statement: a statement is atomic and does not fail for want of a lock. \<open>model_dump_json\<close> of
    pydantic is a parameter of \<open>SqlRows\<close>; JSON numbers with exponents or more than two decimals are not read.
  \<^item> Deployment scripts, images, the proxy.
\<close>

end
